(* ===== verification/Prelude.thy ===== *)
theory Prelude
  imports Main
    "HOL-Library.Char_ord" "HOL-Library.List_Lexorder" "HOL-Library.Product_Lexorder"
    "HOL-Library.Signed_Division" "HOL-Library.Sublist" "HOL-Library.Code_Target_Nat"
begin

section \<open>Prelude: results, machine integers, strings\<close>

text \<open>
  What every component shares: Rust's \<open>Result\<close> with panics as a third outcome, the
  64-bit wrap-around of \<open>i64\<close> arithmetic (the release profile), \<open>std::time::Duration\<close>,
  decimal formatting and parsing as \<open>format!\<close> and \<open>str::parse\<close> do it, and the order of
  byte strings. A Rust \<open>&str\<close> is its list of UTF-8 bytes, so \<open>length\<close> is \<open>str::len\<close>.
\<close>

named_theorems res_simps \<open>rewriting of results\<close>

subsection \<open>Results\<close>

datatype ('e, 'a) res = Ok 'a | Err 'e | Panic string

fun rbind :: "('e, 'a) res \<Rightarrow> ('a \<Rightarrow> ('e, 'b) res) \<Rightarrow> ('e, 'b) res" where
  "rbind (Ok x) f = f x"
| "rbind (Err e) f = Err e"
| "rbind (Panic m) f = Panic m"

fun map_err :: "('e \<Rightarrow> 'f) \<Rightarrow> ('e, 'a) res \<Rightarrow> ('f, 'a) res" where
  "map_err f (Ok x) = Ok x"
| "map_err f (Err e) = Err (f e)"
| "map_err f (Panic m) = Panic m"

definition ok_or :: "'e \<Rightarrow> 'a option \<Rightarrow> ('e, 'a) res" where
  "ok_or e x = (case x of None \<Rightarrow> Err e | Some a \<Rightarrow> Ok a)"

fun is_Err :: "('e, 'a) res \<Rightarrow> bool" where
  "is_Err (Err e) = True"
| "is_Err _ = False"

fun is_Ok :: "('e, 'a) res \<Rightarrow> bool" where
  "is_Ok (Ok x) = True"
| "is_Ok _ = False"

text \<open>A loop that pushes \<open>f(x)?\<close> for every \<open>x\<close>.\<close>

fun res_map :: "('a \<Rightarrow> ('e, 'b) res) \<Rightarrow> 'a list \<Rightarrow> ('e, 'b list) res" where
  "res_map f [] = Ok []"
| "res_map f (x # xs) = rbind (f x) (\<lambda>y. rbind (res_map f xs) (\<lambda>ys. Ok (y # ys)))"

text \<open>\<open>Option::map(f).transpose()?\<close>.\<close>

fun transpose_res :: "('e, 'a) res option \<Rightarrow> ('e, 'a option) res" where
  "transpose_res None = Ok None"
| "transpose_res (Some r) = rbind r (\<lambda>x. Ok (Some x))"

text \<open>The same for an operation that also returns the state it leaves, on success and on error.\<close>

fun sbind :: "('e, 'a) res \<times> 's \<Rightarrow> ('a \<Rightarrow> 's \<Rightarrow> ('e, 'b) res \<times> 's) \<Rightarrow> ('e, 'b) res \<times> 's" where
  "sbind (Ok x, s) f = f x s"
| "sbind (Err e, s) f = (Err e, s)"
| "sbind (Panic m, s) f = (Panic m, s)"

lemma sbind_Ok_iff [res_simps]:
  "sbind m f = (Ok y, s') \<longleftrightarrow> (\<exists>x s. m = (Ok x, s) \<and> f x s = (Ok y, s'))"
  by (cases m; cases "fst m") auto

lemma sbind_cong [fundef_cong]:
  "m = m' \<Longrightarrow> (\<And>x s. m' = (Ok x, s) \<Longrightarrow> f x s = f' x s) \<Longrightarrow> sbind m f = sbind m' f'"
  by (cases m'; cases "fst m'") auto

lemma rbind_cong [fundef_cong]:
  "m = m' \<Longrightarrow> (\<And>x. m' = Ok x \<Longrightarrow> f x = f' x) \<Longrightarrow> rbind m f = rbind m' f'"
  by (cases m') auto

lemma sbind_cases:
  assumes "sbind m f = (r, s')"
  obtains (Ok) x s where "m = (Ok x, s)" "f x s = (r, s')"
    | (Stop) r' where "m = (r', s')" "\<forall>x. r' \<noteq> Ok x" "\<forall>x. r \<noteq> Ok x"
  using assms by (cases m; cases "fst m") auto

lemma rbind_Ok_iff [res_simps]: "rbind m f = Ok y \<longleftrightarrow> (\<exists>x. m = Ok x \<and> f x = Ok y)"
  by (cases m) auto

lemma rbind_Err_iff [res_simps]:
  "rbind m f = Err e \<longleftrightarrow> m = Err e \<or> (\<exists>x. m = Ok x \<and> f x = Err e)"
  by (cases m) auto

lemma ok_or_Ok_iff [res_simps]: "ok_or e x = Ok a \<longleftrightarrow> x = Some a"
  by (cases x) (auto simp: ok_or_def)

lemma ok_or_simps [simp]: "ok_or e (Some a) = Ok a" "ok_or e None = Err e"
  by (simp_all add: ok_or_def)

lemma map_err_Ok_iff [res_simps]: "map_err f m = Ok x \<longleftrightarrow> m = Ok x"
  by (cases m) auto

lemma res_map_Ok: "(\<And>x. x \<in> set xs \<Longrightarrow> f x = Ok (g x)) \<Longrightarrow> res_map f xs = Ok (map g xs)"
  by (induction xs) auto

lemma res_map_length: "res_map f xs = Ok ys \<Longrightarrow> length ys = length xs"
  by (induction xs arbitrary: ys) (auto simp: res_simps)

subsection \<open>Encodings\<close>

text \<open>
  The contract of a pair of an encoder and its fallible decoder: what the code writes into a
  text column or a row it reads back. \<open>valid\<close> is the part of the type the code does write.
\<close>

locale codec =
  fixes enc :: "'a \<Rightarrow> 'b"
    and dec :: "'b \<Rightarrow> ('e, 'a) res"
    and valid :: "'a \<Rightarrow> bool"
  assumes dec_enc: "valid x \<Longrightarrow> dec (enc x) = Ok x"
begin

lemma enc_inj: "valid x \<Longrightarrow> valid y \<Longrightarrow> enc x = enc y \<Longrightarrow> x = y"
  by (metis dec_enc res.inject(1))

lemma dec_list: "\<forall>x \<in> set xs. valid x \<Longrightarrow> res_map dec (map enc xs) = Ok xs"
  by (induction xs) (auto simp: dec_enc)

lemma dec_option: "pred_option valid x \<Longrightarrow> transpose_res (map_option (\<lambda>a. dec (enc a)) x) = Ok x"
  by (cases x) (auto simp: dec_enc)

end

subsection \<open>Machine integers\<close>

text \<open>
  An \<open>i64\<close> is an \<open>int\<close> in range; \<open>wrap64\<close> is the two's complement reading that the
  release profile's arithmetic and every \<open>as i64\<close> cast produce. Unsigned values are \<open>nat\<close>.
\<close>

definition wrap64 :: "int \<Rightarrow> int" where
  "wrap64 x = (x + 9223372036854775808) mod 18446744073709551616 - 9223372036854775808"

definition in_i64 :: "int \<Rightarrow> bool" where
  "in_i64 x \<longleftrightarrow> - 9223372036854775808 \<le> x \<and> x < 9223372036854775808"

lemma wrap64_id [simp]: "in_i64 x \<Longrightarrow> wrap64 x = x"
  by (simp add: wrap64_def in_i64_def)

lemma in_i64_wrap64 [simp]: "in_i64 (wrap64 x)"
proof -
  have "0 \<le> (x + 9223372036854775808) mod 18446744073709551616"
    and "(x + 9223372036854775808) mod 18446744073709551616 < 18446744073709551616"
    by (auto intro: pos_mod_bound)
  then show ?thesis by (simp add: wrap64_def in_i64_def)
qed

lemma wrap64_succ_pos: "in_i64 x \<Longrightarrow> 0 \<le> x \<Longrightarrow> 0 < wrap64 (x + 1) \<Longrightarrow> wrap64 (x + 1) = x + 1 \<and> in_i64 (x + 1)"
  by (cases "x = 9223372036854775807") (auto simp: in_i64_def wrap64_def)

subsection \<open>Durations\<close>

text \<open>\<open>std::time::Duration\<close>: whole seconds and the nanoseconds below one second.\<close>

record duration =
  dur_secs :: nat
  dur_nanos :: nat

definition from_secs :: "nat \<Rightarrow> duration" where
  "from_secs s = \<lparr>dur_secs = s, dur_nanos = 0\<rparr>"

definition as_secs :: "duration \<Rightarrow> nat" where
  "as_secs d = dur_secs d"

definition as_millis :: "duration \<Rightarrow> nat" where
  "as_millis d = dur_secs d * 1000 + dur_nanos d div 1000000"

definition as_nanos :: "duration \<Rightarrow> nat" where
  "as_nanos d = dur_secs d * 1000000000 + dur_nanos d"

definition is_zero :: "duration \<Rightarrow> bool" where
  "is_zero d \<longleftrightarrow> dur_secs d = 0 \<and> dur_nanos d = 0"

lemma as_millis_from_secs [simp]: "as_millis (from_secs s) = s * 1000"
  by (simp add: as_millis_def from_secs_def)

lemma as_secs_from_secs [simp]: "as_secs (from_secs s) = s"
  by (simp add: as_secs_def from_secs_def)

subsection \<open>Decimal text\<close>

definition digit_char :: "nat \<Rightarrow> char" where
  "digit_char d = char_of (48 + d)"

definition digit_val :: "char \<Rightarrow> nat option" where
  "digit_val c = (if 48 \<le> (of_char c :: nat) \<and> (of_char c :: nat) \<le> 57 then Some (of_char c - 48) else None)"

fun digits10 :: "nat \<Rightarrow> string" where
  "digits10 n = (if n < 10 then [digit_char n] else digits10 (n div 10) @ [digit_char (n mod 10)])"

declare digits10.simps [simp del]

text \<open>\<open>{:0w}\<close> of an unsigned and of a signed value; the sign counts in the width.\<close>

definition fmt_pad :: "nat \<Rightarrow> nat \<Rightarrow> string" where
  "fmt_pad w n = replicate (w - length (digits10 n)) (CHR ''0'') @ digits10 n"

definition fmt_pad_int :: "nat \<Rightarrow> int \<Rightarrow> string" where
  "fmt_pad_int w i = (if i < 0 then CHR ''-'' # fmt_pad (w - 1) (nat (- i)) else fmt_pad w (nat i))"

text \<open>\<open>{}\<close> of an integer.\<close>

definition fmt_nat :: "nat \<Rightarrow> string" where
  "fmt_nat n = digits10 n"

definition fmt_int :: "int \<Rightarrow> string" where
  "fmt_int i = (if i < 0 then CHR ''-'' # digits10 (nat (- i)) else digits10 (nat i))"

fun parse_dec :: "nat \<Rightarrow> string \<Rightarrow> nat option" where
  "parse_dec acc [] = Some acc"
| "parse_dec acc (c # cs) = (case digit_val c of None \<Rightarrow> None | Some d \<Rightarrow> parse_dec (10 * acc + d) cs)"

text \<open>\<open>str::parse\<close> for an unsigned type with the given maximum, and for \<open>i32\<close>.\<close>

definition parse_unsigned :: "nat \<Rightarrow> string \<Rightarrow> nat option" where
  "parse_unsigned mx s =
     (case s of [] \<Rightarrow> None
      | c # cs \<Rightarrow>
          (case parse_dec 0 (if c = CHR ''+'' \<and> cs \<noteq> [] then cs else s) of
             None \<Rightarrow> None | Some n \<Rightarrow> if n \<le> mx then Some n else None))"

definition parse_i32 :: "string \<Rightarrow> int option" where
  "parse_i32 s =
     (case s of [] \<Rightarrow> None
      | c # cs \<Rightarrow>
          (if c = CHR ''-'' \<and> cs \<noteq> [] then
             (case parse_dec 0 cs of None \<Rightarrow> None
              | Some n \<Rightarrow> if n \<le> 2147483648 then Some (- int n) else None)
           else map_option int (parse_unsigned 2147483647 s)))"

lemma of_char_digit_char: "d < 10 \<Longrightarrow> (of_char (digit_char d) :: nat) = 48 + d"
  by (simp add: digit_char_def)

lemma digit_val_digit_char [simp]: "d < 10 \<Longrightarrow> digit_val (digit_char d) = Some d"
  by (simp add: digit_val_def of_char_digit_char)

lemma digit_char_less_iff: "c < 10 \<Longrightarrow> d < 10 \<Longrightarrow> digit_char c < digit_char d \<longleftrightarrow> c < d"
  by (simp add: less_char_def of_char_digit_char)

lemma digit_char_0: "digit_char 0 = CHR ''0''"
  by code_simp

lemma digit_char_eq_iff: "c < 10 \<Longrightarrow> d < 10 \<Longrightarrow> digit_char c = digit_char d \<longleftrightarrow> c = d"
  by (metis digit_val_digit_char option.inject)

lemma parse_dec_append:
  "parse_dec acc (xs @ ys) = (case parse_dec acc xs of None \<Rightarrow> None | Some a \<Rightarrow> parse_dec a ys)"
  by (induction xs arbitrary: acc) (auto split: option.splits)

text \<open>Formatting a number loses nothing: parsing the digits gives it back.\<close>

lemma parse_digits10: "parse_dec 0 (digits10 n) = Some n"
proof (induction n rule: digits10.induct)
  case (1 n)
  show ?case
  proof (cases "n < 10")
    case True
    then show ?thesis by (simp add: digits10.simps[of n])
  next
    case False
    with 1 show ?thesis by (simp add: digits10.simps[of n] parse_dec_append)
  qed
qed

lemma fmt_nat_inject [simp]: "fmt_nat m = fmt_nat n \<longleftrightarrow> m = n"
  unfolding fmt_nat_def by (metis option.inject parse_digits10)

subsection \<open>Fixed-width decimals\<close>

text \<open>The digits of a number in a fixed width: what zero padding gives for a number that fits.\<close>

fun fixw :: "nat \<Rightarrow> nat \<Rightarrow> string" where
  "fixw 0 n = []"
| "fixw (Suc w) n = fixw w (n div 10) @ [digit_char (n mod 10)]"

lemma length_fixw [simp]: "length (fixw w n) = w"
  by (induction w arbitrary: n) auto

lemma fixw_digits: "set (fixw w n) \<subseteq> digit_char ` {..<10}"
  by (induction w arbitrary: n) auto

lemma fixw_0: "fixw w 0 = replicate w (CHR ''0'')"
  by (induction w) (auto simp: digit_char_0 replicate_append_same)

lemma length_digits10: "0 < w \<Longrightarrow> n < 10 ^ w \<Longrightarrow> length (digits10 n) \<le> w"
proof (induction n arbitrary: w rule: digits10.induct)
  case (1 n)
  show ?case
  proof (cases "n < 10")
    case True
    with 1 show ?thesis by (simp add: digits10.simps[of n])
  next
    case False
    with 1(3) have "1 < w" by (cases w; cases "w - 1") auto
    then obtain v where v: "w = Suc v" "0 < v" by (cases w) auto
    with 1(3) have "n div 10 < 10 ^ v" by (simp add: less_mult_imp_div_less mult.commute)
    with 1(1)[OF False] v False show ?thesis by (simp add: digits10.simps[of n])
  qed
qed

lemma fmt_pad_fixw: "0 < w \<Longrightarrow> n < 10 ^ w \<Longrightarrow> fmt_pad w n = fixw w n"
proof (induction w arbitrary: n)
  case 0
  then show ?case by simp
next
  case (Suc w)
  show ?case
  proof (cases "n < 10")
    case True
    then show ?thesis
      by (simp add: fmt_pad_def digits10.simps[of n] fixw_0 digit_char_0 replicate_append_same)
  next
    case False
    with Suc.prems have w: "0 < w" by (cases w) auto
    have n: "n div 10 < 10 ^ w" using Suc.prems by (simp add: less_mult_imp_div_less mult.commute)
    have "fmt_pad (Suc w) n = fmt_pad w (n div 10) @ [digit_char (n mod 10)]"
      using False by (simp add: fmt_pad_def digits10.simps[of n])
    with Suc.IH[OF w n] show ?thesis by simp
  qed
qed

lemma parse_dec_fixw: "n < 10 ^ w \<Longrightarrow> parse_dec 0 (fixw w n) = Some n"
proof (induction w arbitrary: n)
  case (Suc w)
  then have "n div 10 < 10 ^ w" by (simp add: less_mult_imp_div_less mult.commute)
  with Suc.IH show ?case by (simp add: parse_dec_append)
qed simp

lemma fixw_inj: "n < 10 ^ w \<Longrightarrow> m < 10 ^ w \<Longrightarrow> fixw w n = fixw w m \<Longrightarrow> n = m"
  by (metis option.inject parse_dec_fixw)

lemma digit_char_not_sign [simp]:
  "d < 10 \<Longrightarrow> digit_char d \<noteq> CHR ''+''" "d < 10 \<Longrightarrow> digit_char d \<noteq> CHR ''-''"
  by (auto dest!: arg_cong[where f = "of_char :: char \<Rightarrow> nat"] simp: of_char_digit_char)

lemma parse_unsigned_fixw:
  assumes "0 < w" "n < 10 ^ w" "n \<le> mx"
  shows "parse_unsigned mx (fixw w n) = Some n"
proof -
  obtain c cs where s: "fixw w n = c # cs"
    using assms(1) length_fixw[of w n] by (cases "fixw w n") auto
  with fixw_digits[of w n] have "c \<noteq> CHR ''+''" by auto
  with s parse_dec_fixw[OF assms(2)] assms(3) show ?thesis by (simp add: parse_unsigned_def)
qed

lemma parse_i32_fixw:
  assumes "0 < w" "n < 10 ^ w" "n \<le> 2147483647"
  shows "parse_i32 (fixw w n) = Some (int n)"
proof -
  obtain c cs where s: "fixw w n = c # cs"
    using assms(1) length_fixw[of w n] by (cases "fixw w n") auto
  with fixw_digits[of w n] have "c \<noteq> CHR ''-''" by auto
  with s parse_unsigned_fixw[OF assms] show ?thesis by (simp add: parse_i32_def)
qed

subsection \<open>The order of byte strings\<close>

lemma append_less_iff:
  fixes xs ys us vs :: "'a::linorder list"
  assumes "length xs = length ys"
  shows "xs @ us < ys @ vs \<longleftrightarrow> xs < ys \<or> xs = ys \<and> us < vs"
  using assms by (induction xs ys rule: list_induct2) auto

lemma div_mod_10_less: "n div 10 < m div 10 \<or> n div 10 = m div 10 \<and> n mod 10 < m mod 10 \<longleftrightarrow> n < (m::nat)"
proof -
  have split: "a < b \<or> a = b \<and> c < d \<longleftrightarrow> 10 * a + c < 10 * b + d" if "c < 10" "d < 10" for a b c d :: nat
    using that by linarith
  show ?thesis using split[of "n mod 10" "m mod 10" "n div 10" "m div 10"] by simp
qed

lemma fixw_less_iff: "n < 10 ^ w \<Longrightarrow> m < 10 ^ w \<Longrightarrow> fixw w n < fixw w m \<longleftrightarrow> n < m"
proof (induction w arbitrary: n m)
  case (Suc w)
  then have le: "n div 10 < 10 ^ w" "m div 10 < 10 ^ w"
    by (simp_all add: less_mult_imp_div_less mult.commute)
  have "fixw (Suc w) n < fixw (Suc w) m \<longleftrightarrow>
      fixw w (n div 10) < fixw w (m div 10) \<or>
      fixw w (n div 10) = fixw w (m div 10) \<and> digit_char (n mod 10) < digit_char (m mod 10)"
    by (simp add: append_less_iff)
  also have "\<dots> \<longleftrightarrow> n div 10 < m div 10 \<or> n div 10 = m div 10 \<and> n mod 10 < m mod 10"
    using Suc.IH[OF le] fixw_inj[OF le] by (auto simp: digit_char_less_iff)
  also have "\<dots> \<longleftrightarrow> n < m" by (rule div_mod_10_less)
  finally show ?case .
qed simp

subsection \<open>Lists sorted by a key\<close>

lemma sort_key_sorted: "sorted (map f xs) \<Longrightarrow> sort_key f xs = xs"
  by (induction xs) (auto simp: insort_is_Cons)

lemma sorted_filter_key: "sorted (map f xs) \<Longrightarrow> sorted (map f (filter P xs))"
  by (induction xs) auto

lemma take_append_diff: "take n xs @ take (n - length (take n xs)) ys = take n (xs @ ys)"
  by simp (metis diff_diff_cancel diff_is_0_eq' min.absorb2 min_def nat_le_linear)

end
