(* ===== verification/Errors.thy ===== *)
theory Errors
  imports Prelude
begin

section \<open>The error type of the crate (\<open>src/error.rs\<close>)\<close>

text \<open>
  One constructor per variant of \<open>EsError\<close>. An error of a third-party crate (turso, serde_json,
  uuid, time, std::io) is carried as the text its \<open>Display\<close> gives, which is all the code
  looks at. \<open>es_error_display\<close> is the derived \<open>Display\<close>.
\<close>

datatype es_error =
    Db string
  | IncorrectEventVersion int int
  | PayloadTooLarge nat nat
  | Serde string
  | Uuid string
  | Time string
  | Io string
  | Migration string
  | InvalidPartition string
  | RotationOrdinalExhausted nat
  | Cursor string
  | InvalidPath string
  | InvalidVersion string
  | InvalidWorkflowMetadata string
  | InvalidDuration string string
  | InvalidSafeName string string
  | InvalidReadLimit nat nat

type_synonym 'a result = "(es_error, 'a) res"

fun es_error_display :: "es_error \<Rightarrow> string" where
  "es_error_display (Db e) = ''Database error: '' @ e"
| "es_error_display (IncorrectEventVersion e a) =
     ''Incorrect event version: expected '' @ fmt_int e @ '', but was '' @ fmt_int a"
| "es_error_display (PayloadTooLarge s m) =
     ''Payload too large: '' @ fmt_nat s @ '' bytes exceeds maximum '' @ fmt_nat m"
| "es_error_display (Serde e) = ''Serialization error: '' @ e"
| "es_error_display (Uuid e) = ''UUID error: '' @ e"
| "es_error_display (Time e) = ''Time error: '' @ e"
| "es_error_display (Io e) = ''IO error: '' @ e"
| "es_error_display (Migration m) = ''Migration error: '' @ m"
| "es_error_display (InvalidPartition m) = ''Invalid partition state: '' @ m"
| "es_error_display (RotationOrdinalExhausted m) =
     ''Rotation overflow ordinal exhausted at '' @ fmt_nat m"
| "es_error_display (Cursor m) = ''Cursor error: '' @ m"
| "es_error_display (InvalidPath m) = ''Invalid path: '' @ m"
| "es_error_display (InvalidVersion m) = ''Invalid event stream version: '' @ m"
| "es_error_display (InvalidWorkflowMetadata m) = ''Invalid workflow metadata: '' @ m"
| "es_error_display (InvalidDuration f m) = ''Invalid duration for '' @ f @ '': '' @ m"
| "es_error_display (InvalidSafeName f v) = ''Invalid '' @ f @ '': '' @ v"
| "es_error_display (InvalidReadLimit l m) =
     ''Invalid read limit: '' @ fmt_nat l @ ''; expected 1..='' @ fmt_nat m"

text \<open>An external call that may report an error: the fault the environment chose, or success.\<close>

definition guard_fault :: "('e \<Rightarrow> es_error) \<Rightarrow> 'e option \<Rightarrow> unit result" where
  "guard_fault mk f = (case f of None \<Rightarrow> Ok () | Some e \<Rightarrow> Err (mk e))"

lemma guard_fault_Ok_iff [res_simps]: "guard_fault mk f = Ok u \<longleftrightarrow> f = None"
  by (cases f) (auto simp: guard_fault_def)

lemma guard_fault_None [simp]: "guard_fault mk None = Ok ()"
  by (simp add: guard_fault_def)

lemma guard_fault_Some [simp]: "guard_fault mk (Some e) = Err (mk e)"
  by (simp add: guard_fault_def)

end
