(* ===== verification/Actor.thy ===== *)
theory Actor
  imports Errors
begin

section \<open>Actor types (\<open>src/actor.rs\<close>)\<close>

text \<open>The four actor types, their stored text and the parser of that text.\<close>

datatype actor_type = User | System | Admin | ApiKey

datatype actor_type_parse_error = ActorTypeParseError string

fun as_str :: "actor_type \<Rightarrow> string" where
  "as_str User = ''user''"
| "as_str System = ''system''"
| "as_str Admin = ''admin''"
| "as_str ApiKey = ''api_key''"

definition actor_from_str :: "string \<Rightarrow> (actor_type_parse_error, actor_type) res" where
  "actor_from_str s =
     (if s = ''user'' then Ok User
      else if s = ''system'' then Ok System
      else if s = ''admin'' then Ok Admin
      else if s = ''api_key'' then Ok ApiKey
      else Err (ActorTypeParseError s))"

fun parse_error_display :: "actor_type_parse_error \<Rightarrow> string" where
  "parse_error_display (ActorTypeParseError s) = ''invalid actor type: '' @ s"

interpretation actor_text: codec as_str actor_from_str "\<lambda>_. True"
proof
  show "actor_from_str (as_str x) = Ok x" for x
    by (cases x) (simp_all add: actor_from_str_def)
qed

lemma actor_from_str_Ok: "actor_from_str s = Ok a \<Longrightarrow> as_str a = s"
  by (auto simp: actor_from_str_def split: if_splits)

text \<open>
  The stored text of an actor type identifies it. Parsing accepts exactly the four texts
  that \<open>as_str\<close> produces, returns the type it came from, and rejects every other text with
  that text in the error.
\<close>

theorem actor_from_str_correct:
  "(actor_from_str s = Ok a \<longleftrightarrow> s = as_str a) \<and>
   (actor_from_str s = Err e \<longleftrightarrow> s \<notin> range as_str \<and> e = ActorTypeParseError s)"
proof -
  have "actor_from_str s = Err e \<Longrightarrow> e = ActorTypeParseError s" for e
    by (auto simp: actor_from_str_def split: if_splits)
  moreover have "(\<exists>a. actor_from_str s = Ok a) \<or> (\<exists>e. actor_from_str s = Err e)"
    by (auto simp: actor_from_str_def)
  moreover have "actor_from_str (as_str a) = Ok a" for a by (simp add: actor_text.dec_enc)
  ultimately show ?thesis
    by (metis actor_from_str_Ok rangeE rangeI res.distinct(1))
qed

end
