(* ===== verification/Labels.thy ===== *)
theory Labels
  imports Errors
begin

section \<open>Safe labels (\<open>validate_safe_label\<close> in \<open>src/event_stream.rs\<close>)\<close>

text \<open>
  The check that every namespace, partition key and workflow kind passes. A value is its list
  of bytes; \<open>safe_byte\<close> is the closure of the \<open>bytes().all(..)\<close> call.
\<close>

definition is_ascii_lowercase :: "char \<Rightarrow> bool" where
  "is_ascii_lowercase c \<longleftrightarrow> 97 \<le> (of_char c :: nat) \<and> (of_char c :: nat) \<le> 122"

definition is_ascii_digit :: "char \<Rightarrow> bool" where
  "is_ascii_digit c \<longleftrightarrow> 48 \<le> (of_char c :: nat) \<and> (of_char c :: nat) \<le> 57"

definition safe_byte :: "char \<Rightarrow> bool" where
  "safe_byte c \<longleftrightarrow> is_ascii_lowercase c \<or> is_ascii_digit c \<or> c = CHR ''-''"

definition validate_safe_label :: "string \<Rightarrow> string \<Rightarrow> unit result" where
  "validate_safe_label field value =
     (if value = [] \<or> length value > 128 then Err (InvalidSafeName field value)
      else if \<not> list_all safe_byte value then Err (InvalidSafeName field value)
      else Ok ())"

definition safe_label :: "string \<Rightarrow> bool" where
  "safe_label v \<longleftrightarrow> 1 \<le> length v \<and> length v \<le> 128 \<and> list_all safe_byte v"

lemma validate_safe_label_cases:
  "validate_safe_label f v = (if safe_label v then Ok () else Err (InvalidSafeName f v))"
  by (auto simp: validate_safe_label_def safe_label_def Suc_le_eq)

lemma validate_safe_label_Ok [res_simps]: "validate_safe_label f v = Ok u \<longleftrightarrow> safe_label v"
  by (simp add: validate_safe_label_cases)

lemma safe_byte_not:
  "\<not> safe_byte (CHR ''/'')" "\<not> safe_byte (CHR ''.'')" "\<not> safe_byte (CHR ''_'')"
  "\<not> safe_byte (CHR 0x00)" "\<not> safe_byte (CHR 0x5C)"
  by (simp_all add: safe_byte_def is_ascii_lowercase_def is_ascii_digit_def)

lemma safe_label_no_slash: "safe_label v \<Longrightarrow> CHR ''/'' \<notin> set v"
  using safe_byte_not(1) by (auto simp: safe_label_def list_all_iff)

text \<open>
  The label check accepts exactly the values of 1 to 128 bytes, all lowercase ASCII letters,
  digits or \<open>-\<close>; every other value is refused with the field name and the value.
\<close>

theorem validate_safe_label_correct:
  "(validate_safe_label f v = Ok () \<longleftrightarrow>
      1 \<le> length v \<and> length v \<le> 128 \<and>
      list_all (\<lambda>c. of_char c \<in> {97..122 :: nat} \<or> of_char c \<in> {48..57 :: nat} \<or> c = CHR ''-'') v) \<and>
   (validate_safe_label f v \<noteq> Ok () \<longleftrightarrow> validate_safe_label f v = Err (InvalidSafeName f v))"
  by (auto simp: validate_safe_label_cases safe_label_def safe_byte_def
      is_ascii_lowercase_def is_ascii_digit_def list_all_iff)

end
