(* ===== verification/TimeCrate.thy ===== *)
theory TimeCrate
  imports Prelude
begin

section \<open>The \<open>time\<close> crate as a parameter\<close>

text \<open>
  The crate's calendar arithmetic comes from the third-party crate \<open>time\<close>, so it is an argument
  of every definition that uses it: a record of the functions the code calls, over an opaque
  \<open>Date\<close> and an opaque \<open>OffsetDateTime\<close> (always in UTC here). A \<open>None\<close> is the crate's
  \<open>ComponentRange\<close> error, whose text is \<open>tc_range_error\<close>. \<open>time_crate_laws\<close> states the documented behaviour the proofs rely
  on; \<open>gregorian\<close> is a concrete instance that satisfies it, used in witnesses only.
\<close>

record ('date, 'dt) time_crate =
  tc_from_nanos :: "int \<Rightarrow> 'dt option"
  tc_nanos :: "'dt \<Rightarrow> int"
  tc_secs :: "'dt \<Rightarrow> int"
  tc_year :: "'dt \<Rightarrow> int"
  tc_month :: "'dt \<Rightarrow> nat"
  tc_day :: "'dt \<Rightarrow> nat"
  tc_hour :: "'dt \<Rightarrow> nat"
  tc_minute :: "'dt \<Rightarrow> nat"
  tc_month_try_from :: "nat \<Rightarrow> nat option"
  tc_from_calendar_date :: "int \<Rightarrow> nat \<Rightarrow> nat \<Rightarrow> 'date option"
  tc_with_hms :: "'date \<Rightarrow> nat \<Rightarrow> nat \<Rightarrow> nat \<Rightarrow> 'dt option"
  tc_range_error :: string

text \<open>A time stamp keeps its nanoseconds, and its clock fields are those of its second.\<close>

definition clock_law :: "('date, 'dt) time_crate \<Rightarrow> bool" where
  "clock_law tc \<longleftrightarrow>
     (\<forall>n dt. tc_from_nanos tc n = Some dt \<longrightarrow>
        tc_nanos tc dt = n \<and>
        int (tc_hour tc dt) = n div 3600000000000 mod 24 \<and>
        int (tc_minute tc dt) = n div 60000000000 mod 60)"

text \<open>Its date is a date of the calendar, at most in year 9999 and from 1970 on after the epoch.\<close>

definition date_law :: "('date, 'dt) time_crate \<Rightarrow> bool" where
  "date_law tc \<longleftrightarrow>
     (\<forall>n dt. tc_from_nanos tc n = Some dt \<longrightarrow>
        tc_year tc dt \<le> 9999 \<and> tc_month tc dt \<le> 12 \<and> tc_day tc dt \<le> 31 \<and>
        (0 \<le> n \<longrightarrow> 1970 \<le> tc_year tc dt) \<and>
        tc_month_try_from tc (tc_month tc dt) = Some (tc_month tc dt))"

text \<open>The date rebuilt from its fields, at a time of day, is that time of the same day.\<close>

definition rebuild_law :: "('date, 'dt) time_crate \<Rightarrow> bool" where
  "rebuild_law tc \<longleftrightarrow>
     (\<forall>n dt h m. tc_from_nanos tc n = Some dt \<longrightarrow> h < 24 \<longrightarrow> m < 60 \<longrightarrow>
        (\<exists>d dt'. tc_from_calendar_date tc (tc_year tc dt) (tc_month tc dt) (tc_day tc dt) = Some d \<and>
           tc_with_hms tc d h m 0 = Some dt' \<and>
           tc_secs tc dt' = 86400 * (n div 86400000000000) + 3600 * int h + 60 * int m))"

text \<open>The dates of two days are ordered as the days are.\<close>

definition order_law :: "('date, 'dt) time_crate \<Rightarrow> bool" where
  "order_law tc \<longleftrightarrow>
     (\<forall>n n' dt dt'. n div 86400000000000 \<le> n' div 86400000000000 \<longrightarrow>
        tc_from_nanos tc n = Some dt \<longrightarrow> tc_from_nanos tc n' = Some dt' \<longrightarrow>
        (tc_year tc dt, tc_month tc dt, tc_day tc dt) \<le> (tc_year tc dt', tc_month tc dt', tc_day tc dt'))"

definition time_crate_laws :: "('date, 'dt) time_crate \<Rightarrow> bool" where
  "time_crate_laws tc \<longleftrightarrow> clock_law tc \<and> date_law tc \<and> rebuild_law tc \<and> order_law tc"

subsection \<open>A concrete instance\<close>

text \<open>The proleptic Gregorian calendar; a date is its day number, a time its nanoseconds.\<close>

definition year_start :: "int \<Rightarrow> int" where
  "year_start y = 365 * (y - 1) + (y - 1) div 4 - (y - 1) div 100 + (y - 1) div 400 - 719162"

definition leap :: "int \<Rightarrow> bool" where
  "leap y \<longleftrightarrow> y mod 4 = 0 \<and> (y mod 100 \<noteq> 0 \<or> y mod 400 = 0)"

fun month_start :: "bool \<Rightarrow> nat \<Rightarrow> int" where
  "month_start lp m =
     (if m \<le> 1 then 0 else if m = 2 then 31
      else (if lp then 1 else 0) +
       (if m = 3 then 59 else if m = 4 then 90 else if m = 5 then 120 else if m = 6 then 151
        else if m = 7 then 181 else if m = 8 then 212 else if m = 9 then 243 else if m = 10 then 273
        else if m = 11 then 304 else if m = 12 then 334 else 365))"

declare month_start.simps [simp del]

definition year_of_day :: "int \<Rightarrow> int option" where
  "year_of_day d =
     (let y = 400 * (d + 719162) div 146097 + 1
      in List.find (\<lambda>y. year_start y \<le> d \<and> d < year_start (y + 1)) [y - 1, y, y + 1])"

definition month_of_day :: "bool \<Rightarrow> int \<Rightarrow> nat option" where
  "month_of_day lp r =
     List.find (\<lambda>m. month_start lp m \<le> r \<and> r < month_start lp (m + 1)) [1, 2, 3, 4, 5, 6, 7, 8, 9, 10, 11, 12]"

definition date_of_day :: "int \<Rightarrow> (int \<times> nat \<times> nat) option" where
  "date_of_day d =
     (case year_of_day d of None \<Rightarrow> None
      | Some y \<Rightarrow>
          (case month_of_day (leap y) (d - year_start y) of None \<Rightarrow> None
           | Some m \<Rightarrow> Some (y, m, nat (d - year_start y - month_start (leap y) m) + 1)))"

definition day_of_nanos :: "int \<Rightarrow> int" where
  "day_of_nanos n = n div 86400000000000"

definition gregorian :: "(int, int) time_crate" where
  "gregorian =
     \<lparr>tc_from_nanos = (\<lambda>n.
        (case date_of_day (day_of_nanos n) of None \<Rightarrow> None
         | Some (y, m, d) \<Rightarrow> if - 9999 \<le> y \<and> y \<le> 9999 then Some n else None)),
      tc_nanos = (\<lambda>n. n),
      tc_secs = (\<lambda>n. n div 1000000000),
      tc_year = (\<lambda>n. fst (the (date_of_day (day_of_nanos n)))),
      tc_month = (\<lambda>n. fst (snd (the (date_of_day (day_of_nanos n))))),
      tc_day = (\<lambda>n. snd (snd (the (date_of_day (day_of_nanos n))))),
      tc_hour = (\<lambda>n. nat (n div 3600000000000 mod 24)),
      tc_minute = (\<lambda>n. nat (n div 60000000000 mod 60)),
      tc_month_try_from = (\<lambda>m. if 1 \<le> m \<and> m \<le> 12 then Some m else None),
      tc_from_calendar_date = (\<lambda>y m d.
        if - 9999 \<le> y \<and> y \<le> 9999 \<and> 1 \<le> m \<and> m \<le> 12 \<and> 1 \<le> d \<and>
           int d \<le> month_start (leap y) (m + 1) - month_start (leap y) m
        then Some (year_start y + month_start (leap y) m + int d - 1) else None),
      tc_with_hms = (\<lambda>d h m s.
        if h < 24 \<and> m < 60 \<and> s < 60
        then Some ((86400 * d + 3600 * int h + 60 * int m + int s) * 1000000000) else None),
      tc_range_error = ''out of range''\<rparr>"

lemma find_SomeD: "List.find P xs = Some x \<Longrightarrow> P x \<and> x \<in> set xs"
  by (induction xs) (auto split: if_splits)

lemma year_start_step: "year_start y \<le> year_start (y + 1)"
proof -
  have "(y - 1) div 4 \<le> y div 4" "(y - 1) div 400 \<le> y div 400" by (simp_all add: zdiv_mono1)
  moreover have "y div 100 \<le> (y - 1) div 100 + 1" by (simp add: div_add_self2 [symmetric] zdiv_mono1)
  ultimately show ?thesis by (simp add: year_start_def)
qed

lemma year_start_mono: "y \<le> y' \<Longrightarrow> year_start y \<le> year_start y'"
  by (induction y' rule: int_ge_induct) (auto intro: order_trans [OF _ year_start_step])

lemma month_start_mono: "m \<le> m' \<Longrightarrow> month_start lp m \<le> month_start lp m'"
  by (rule lift_Suc_mono_le) (auto simp: month_start.simps)

lemma month_length_le: "month_start lp (m + 1) - month_start lp m \<le> 31"
  unfolding month_start.simps by auto

lemma year_of_day_bounds: "year_of_day d = Some y \<Longrightarrow> year_start y \<le> d \<and> d < year_start (y + 1)"
  unfolding year_of_day_def Let_def by (drule find_SomeD) simp

lemma month_of_day_bounds:
  "month_of_day lp r = Some m \<Longrightarrow>
     month_start lp m \<le> r \<and> r < month_start lp (m + 1) \<and> 1 \<le> m \<and> m \<le> 12"
  unfolding month_of_day_def by (drule find_SomeD) auto

lemma date_of_day_Some:
  assumes "date_of_day n = Some (y, m, d)"
  shows "year_of_day n = Some y" "month_of_day (leap y) (n - year_start y) = Some m"
    "int d = n - year_start y - month_start (leap y) m + 1"
proof -
  show y: "year_of_day n = Some y" and m: "month_of_day (leap y) (n - year_start y) = Some m"
    using assms by (auto simp: date_of_day_def split: option.splits)
  show "int d = n - year_start y - month_start (leap y) m + 1"
    using assms y m month_of_day_bounds[OF m] by (auto simp: date_of_day_def)
qed

lemma year_of_day_mono:
  assumes "d \<le> d'" "year_of_day d = Some y" "year_of_day d' = Some y'"
  shows "y \<le> y'"
  using assms(1) year_of_day_bounds[OF assms(2)] year_of_day_bounds[OF assms(3)]
    year_start_mono[of "y' + 1" y] by linarith

lemma month_of_day_mono:
  assumes "r \<le> r'" "month_of_day lp r = Some m" "month_of_day lp r' = Some m'"
  shows "m \<le> m'"
  using assms(1) month_of_day_bounds[OF assms(2)] month_of_day_bounds[OF assms(3)]
    month_start_mono[of "m' + 1" m lp] by linarith

lemma date_of_day_less:
  assumes lt: "n < n'" and d: "date_of_day n = Some t" and d': "date_of_day n' = Some t'"
  shows "t < t'"
proof -
  obtain y m dd y' m' dd' where t: "t = (y, m, dd)" "t' = (y', m', dd')" by (cases t, cases t')
  note D = date_of_day_Some[OF d[unfolded t]] and D' = date_of_day_Some[OF d'[unfolded t]]
  have "y \<le> y'" using year_of_day_mono[OF _ D(1) D'(1)] lt by simp
  moreover have "m \<le> m'" if "y = y'"
    using month_of_day_mono[of "n - year_start y" "n' - year_start y" "leap y"] lt D(2) D'(2) that by simp
  moreover have "dd < dd'" if "y = y'" "m = m'"
    using lt D(3) D'(3) that by simp
  ultimately show ?thesis unfolding t by (auto simp: less_prod_def' le_less)
qed

lemma gregorian_from_nanos:
  "tc_from_nanos gregorian n = Some dt \<longleftrightarrow>
     dt = n \<and> (\<exists>y m d. date_of_day (day_of_nanos n) = Some (y, m, d) \<and> - 9999 \<le> y \<and> y \<le> 9999)"
  by (auto simp: gregorian_def split: option.splits)

lemma date_of_day_epoch: "date_of_day 0 = Some (1970, 1, 1)"
  by code_simp

lemma gregorian_date_law: "date_law gregorian"
  unfolding date_law_def
proof (intro allI impI)
  fix n dt assume "tc_from_nanos gregorian n = Some dt"
  then obtain y m d where dt: "dt = n" and y: "- 9999 \<le> y" "y \<le> 9999"
    and D: "date_of_day (day_of_nanos n) = Some (y, m, d)"
    by (auto simp: gregorian_from_nanos)
  note D' = date_of_day_Some[OF D]
  note M = month_of_day_bounds[OF D'(2)]
  have d: "d \<le> 31" using D'(3) M month_length_le[of "leap y" m] by linarith
  have e: "year_of_day 0 = Some 1970" using date_of_day_Some(1)[OF date_of_day_epoch] .
  have "1970 \<le> y" if "0 \<le> n"
    using year_of_day_mono[OF _ e D'(1)] that by (simp add: day_of_nanos_def)
  with d y M D show "tc_year gregorian dt \<le> 9999 \<and> tc_month gregorian dt \<le> 12 \<and> tc_day gregorian dt \<le> 31 \<and>
    (0 \<le> n \<longrightarrow> 1970 \<le> tc_year gregorian dt) \<and>
    tc_month_try_from gregorian (tc_month gregorian dt) = Some (tc_month gregorian dt)"
    by (simp add: gregorian_def dt)
qed

lemma gregorian_rebuild_law: "rebuild_law gregorian"
  unfolding rebuild_law_def
proof (intro allI impI)
  fix n dt and h m :: nat assume "tc_from_nanos gregorian n = Some dt" and hm: "h < 24" "m < 60"
  then obtain y mo d where dt: "dt = n" and y: "- 9999 \<le> y" "y \<le> 9999"
    and D: "date_of_day (day_of_nanos n) = Some (y, mo, d)"
    by (auto simp: gregorian_from_nanos)
  note D' = date_of_day_Some[OF D]
  note M = month_of_day_bounds[OF D'(2)]
  have "1 \<le> d \<and> int d \<le> month_start (leap y) (mo + 1) - month_start (leap y) mo \<and>
      year_start y + month_start (leap y) mo + int d - 1 = day_of_nanos n"
    using D'(3) M by auto
  then have "tc_from_calendar_date gregorian (tc_year gregorian dt) (tc_month gregorian dt) (tc_day gregorian dt)
      = Some (day_of_nanos n)"
    using y M by (simp add: gregorian_def dt D)
  moreover have "tc_with_hms gregorian (day_of_nanos n) h m 0 =
      Some ((86400 * day_of_nanos n + 3600 * int h + 60 * int m) * 1000000000)"
    using hm by (simp add: gregorian_def)
  moreover have "tc_secs gregorian ((86400 * day_of_nanos n + 3600 * int h + 60 * int m) * 1000000000) =
      86400 * (n div 86400000000000) + 3600 * int h + 60 * int m"
    by (simp add: gregorian_def day_of_nanos_def)
  ultimately show "\<exists>d dt'. tc_from_calendar_date gregorian (tc_year gregorian dt) (tc_month gregorian dt)
       (tc_day gregorian dt) = Some d \<and> tc_with_hms gregorian d h m 0 = Some dt' \<and>
       tc_secs gregorian dt' = 86400 * (n div 86400000000000) + 3600 * int h + 60 * int m"
    by blast
qed

lemma gregorian_order_law: "order_law gregorian"
  unfolding order_law_def
proof (intro allI impI)
  fix n n' dt dt'
  assume le: "n div 86400000000000 \<le> n' div 86400000000000"
    and "tc_from_nanos gregorian n = Some dt" "tc_from_nanos gregorian n' = Some dt'"
  then obtain t t' where d: "dt = n" "dt' = n'"
    "date_of_day (day_of_nanos n) = Some t" "date_of_day (day_of_nanos n') = Some t'"
    by (auto simp: gregorian_from_nanos)
  have "t \<le> t'"
    using le d date_of_day_less[OF _ d(3,4)] by (cases "day_of_nanos n = day_of_nanos n'") (auto simp: day_of_nanos_def)
  then show "(tc_year gregorian dt, tc_month gregorian dt, tc_day gregorian dt)
      \<le> (tc_year gregorian dt', tc_month gregorian dt', tc_day gregorian dt')"
    using d by (simp add: gregorian_def)
qed

lemma gregorian_clock_law: "clock_law gregorian"
  unfolding clock_law_def by (auto simp: gregorian_from_nanos) (simp_all add: gregorian_def)

lemma gregorian_laws: "time_crate_laws gregorian"
  by (simp add: time_crate_laws_def gregorian_clock_law gregorian_date_law gregorian_rebuild_law
      gregorian_order_law)

end
