(* ===== verification/Rotation.thy ===== *)
theory Rotation
  imports Errors Labels TimeCrate
begin

section \<open>Rotation policy and event file names (\<open>src/rotation.rs\<close>)\<close>

text \<open>
  The pure functions that decide when an event file is rotated and that turn a window start and
  an overflow ordinal into a file name and back. \<open>tc\<close> is the \<open>time\<close> crate; \<open>nd\<close> is the regex
  crate's class \<open>\<d>\<close> on one encoded character, which is Unicode's decimal digits.
\<close>

definition MAX_OVERFLOW_ORDINAL :: nat where
  "MAX_OVERFLOW_ORDINAL = 999999"

datatype rotation_policy = TimeWindow duration "nat option"

fun policy_window :: "rotation_policy \<Rightarrow> duration" where
  "policy_window (TimeWindow window max_bytes) = window"

fun policy_max_bytes :: "rotation_policy \<Rightarrow> nat option" where
  "policy_max_bytes (TimeWindow window max_bytes) = max_bytes"

subsection \<open>Windows\<close>

text \<open>
  \<open>(now_ms / w_ms) * w_ms\<close> on \<open>i64\<close>: the division truncates towards zero and panics on a
  zero divisor and on \<open>i64::MIN / -1\<close>.
\<close>

definition floor_to_window_ms :: "int \<Rightarrow> duration \<Rightarrow> int result" where
  "floor_to_window_ms now_ms window =
     (let w_ms = wrap64 (int (as_millis window))
      in if w_ms = 0 then Panic ''attempt to divide by zero''
         else if now_ms = - 9223372036854775808 \<and> w_ms = - 1 then Panic ''attempt to divide with overflow''
         else Ok (wrap64 ((now_ms sdiv w_ms) * w_ms)))"

definition label_for :: "('date, 'dt) time_crate \<Rightarrow> int \<Rightarrow> duration \<Rightarrow> string result" where
  "label_for tc start_ms window =
     rbind (ok_or (Migration ''Invalid timestamp for label generation'') (tc_from_nanos tc (start_ms * 1000000)))
       (\<lambda>dt.
         let date = fmt_pad_int 4 (tc_year tc dt) @ fmt_pad 2 (tc_month tc dt) @ fmt_pad 2 (tc_day tc dt);
             secs = as_secs window
         in if 86400 \<le> secs then Ok date
            else if 3600 \<le> secs then Ok (date @ ''T'' @ fmt_pad 2 (tc_hour tc dt))
            else Ok (date @ ''T'' @ fmt_pad 2 (tc_hour tc dt) @ fmt_pad 2 (tc_minute tc dt)))"

definition generate_partition_name ::
  "('date, 'dt) time_crate \<Rightarrow> int \<Rightarrow> duration \<Rightarrow> nat option \<Rightarrow> string result" where
  "generate_partition_name tc start_ms window ordinal =
     rbind (label_for tc start_ms window)
       (\<lambda>base_label.
         (case ordinal of
            None \<Rightarrow> Ok (''events_'' @ base_label @ ''.db'')
          | Some ordinal \<Rightarrow>
              (if 1 \<le> ordinal \<and> ordinal \<le> MAX_OVERFLOW_ORDINAL
               then Ok (''events_'' @ base_label @ ''_'' @ fmt_pad 6 ordinal @ ''.db'')
               else Err (InvalidPartition (''Invalid overflow ordinal: '' @ fmt_nat ordinal)))))"

subsection \<open>The file name pattern\<close>

text \<open>
  \<open>^events_(\d{8})(?:T(\d{2}|\d{4}))?(?:_(\d{6}))?\.db$\<close>, matched over the bytes of the name one
  encoded character at a time. The two-digit time is tried before the four-digit one, as the
  alternation says; the groups are returned as byte strings.
\<close>

definition utf8_width :: "char \<Rightarrow> nat" where
  "utf8_width c =
     (let b = (of_char c :: nat) in if b < 128 then 1 else if b < 224 then 2 else if b < 240 then 3 else 4)"

fun regex_digits :: "(string \<Rightarrow> bool) \<Rightarrow> nat \<Rightarrow> string \<Rightarrow> (string \<times> string) option" where
  "regex_digits nd 0 s = Some ([], s)"
| "regex_digits nd (Suc n) s =
     (case s of [] \<Rightarrow> None
      | c # cs \<Rightarrow>
          (let ch = take (utf8_width c) s
           in if nd ch
              then (case regex_digits nd n (drop (utf8_width c) s) of
                      None \<Rightarrow> None | Some (ds, r) \<Rightarrow> Some (ch @ ds, r))
              else None))"

definition match_tail :: "(string \<Rightarrow> bool) \<Rightarrow> string \<Rightarrow> string option option" where
  "match_tail nd s =
     (if s = ''.db'' then Some None
      else if prefix ''_'' s then
        (case regex_digits nd 6 (drop 1 s) of None \<Rightarrow> None
         | Some (ord, r) \<Rightarrow> if r = ''.db'' then Some (Some ord) else None)
      else None)"

definition match_timed :: "(string \<Rightarrow> bool) \<Rightarrow> nat \<Rightarrow> string \<Rightarrow> (string option \<times> string option) option" where
  "match_timed nd n s =
     (case regex_digits nd n s of None \<Rightarrow> None
      | Some (t, r) \<Rightarrow> map_option (\<lambda>ord. (Some t, ord)) (match_tail nd r))"

definition match_time :: "(string \<Rightarrow> bool) \<Rightarrow> string \<Rightarrow> (string option \<times> string option) option" where
  "match_time nd s =
     (if prefix ''T'' s then
        (case match_timed nd 2 (drop 1 s) of Some m \<Rightarrow> Some m | None \<Rightarrow> match_timed nd 4 (drop 1 s))
      else map_option (\<lambda>ord. (None, ord)) (match_tail nd s))"

definition partition_regex ::
  "(string \<Rightarrow> bool) \<Rightarrow> string \<Rightarrow> (string \<times> string option \<times> string option) option" where
  "partition_regex nd name =
     (if prefix ''events_'' name then
        (case regex_digits nd 8 (drop 7 name) of None \<Rightarrow> None
         | Some (date, r) \<Rightarrow> map_option (Pair date) (match_time nd r))
      else None)"

subsection \<open>Parsing\<close>

text \<open>\<open>&s[a..b]\<close>: a panic out of range or off a character boundary.\<close>

definition is_char_boundary :: "string \<Rightarrow> nat \<Rightarrow> bool" where
  "is_char_boundary s i \<longleftrightarrow>
     i = 0 \<or> i = length s \<or>
     i < length s \<and> \<not> (128 \<le> (of_char (s ! i) :: nat) \<and> (of_char (s ! i) :: nat) < 192)"

definition str_slice :: "string \<Rightarrow> nat \<Rightarrow> nat \<Rightarrow> string result" where
  "str_slice s a b =
     (if a \<le> b \<and> b \<le> length s \<and> is_char_boundary s a \<and> is_char_boundary s b
      then Ok (drop a (take b s)) else Panic ''byte index is not a char boundary or out of bounds'')"

definition parse_date_components :: "string \<Rightarrow> (int \<times> nat \<times> nat) result" where
  "parse_date_components date_part =
     rbind (str_slice date_part 0 4) (\<lambda>y.
     rbind (ok_or (InvalidPartition ''Invalid year in partition name'') (parse_i32 y)) (\<lambda>year.
     rbind (str_slice date_part 4 6) (\<lambda>m.
     rbind (ok_or (InvalidPartition ''Invalid month in partition name'') (parse_unsigned 255 m)) (\<lambda>month.
     rbind (str_slice date_part 6 8) (\<lambda>d.
     rbind (ok_or (InvalidPartition ''Invalid day in partition name'') (parse_unsigned 255 d)) (\<lambda>day.
     Ok (year, month, day)))))))"

definition parse_time_component :: "string \<Rightarrow> (nat \<times> nat option) result" where
  "parse_time_component time_part =
     (if length time_part = 2 then
        rbind (str_slice time_part 0 2) (\<lambda>h.
        rbind (ok_or (InvalidPartition ''Invalid hour in partition name'') (parse_unsigned 255 h)) (\<lambda>hour.
        Ok (hour, None)))
      else if length time_part = 4 then
        rbind (str_slice time_part 0 2) (\<lambda>h.
        rbind (ok_or (InvalidPartition ''Invalid hour in partition name'') (parse_unsigned 255 h)) (\<lambda>hour.
        rbind (str_slice time_part 2 4) (\<lambda>m.
        rbind (ok_or (InvalidPartition ''Invalid minute in partition name'') (parse_unsigned 255 m)) (\<lambda>minute.
        Ok (hour, Some minute)))))
      else Err (InvalidPartition (''Invalid time format: '' @ time_part)))"

definition create_datetime_with_time ::
  "('date, 'dt) time_crate \<Rightarrow> 'date \<Rightarrow> nat \<Rightarrow> nat option \<Rightarrow> 'dt result" where
  "create_datetime_with_time tc date hour minute =
     ok_or (InvalidPartition ''Invalid time in partition name'')
       (case minute of Some m \<Rightarrow> tc_with_hms tc date hour m 0 | None \<Rightarrow> tc_with_hms tc date hour 0 0)"

definition create_datetime ::
  "('date, 'dt) time_crate \<Rightarrow> int \<Rightarrow> nat \<Rightarrow> nat \<Rightarrow> string option \<Rightarrow> 'dt result" where
  "create_datetime tc year month day time_part =
     rbind (ok_or (InvalidPartition ''Invalid month in partition name'') (tc_month_try_from tc month)) (\<lambda>mon.
     rbind (ok_or (InvalidPartition ''Invalid date in partition name'') (tc_from_calendar_date tc year mon day)) (\<lambda>date.
     (case time_part of
        Some time \<Rightarrow> rbind (parse_time_component time) (\<lambda>(hour, minute). create_datetime_with_time tc date hour minute)
      | None \<Rightarrow> create_datetime_with_time tc date 0 None)))"

definition parse_partition_name ::
  "(string \<Rightarrow> bool) \<Rightarrow> ('date, 'dt) time_crate \<Rightarrow> string \<Rightarrow> (int \<times> nat option) result" where
  "parse_partition_name nd tc name =
     rbind (ok_or (InvalidPartition (''Invalid partition name: '' @ name)) (partition_regex nd name))
       (\<lambda>(date_part, time_part, ord_part).
     rbind (transpose_res (map_option
         (\<lambda>v. ok_or (InvalidPartition (''Invalid overflow ordinal in '' @ name)) (parse_unsigned 4294967295 v)) ord_part))
       (\<lambda>ordinal.
     if ordinal = Some 0 then Err (InvalidPartition (''Invalid overflow ordinal in '' @ name))
     else
       rbind (parse_date_components date_part) (\<lambda>(year, month, day).
       rbind (create_datetime tc year month day time_part) (\<lambda>dt.
       Ok (wrap64 (tc_secs tc dt * 1000), ordinal)))))"

subsection \<open>Ordinals and the rotation decision\<close>

definition get_next_ordinal :: "nat option \<Rightarrow> nat option" where
  "get_next_ordinal current_ordinal =
     (case current_ordinal of
        None \<Rightarrow> Some 1
      | Some ordinal \<Rightarrow> if ordinal < MAX_OVERFLOW_ORDINAL then Some (ordinal + 1) else None)"

definition should_rotate_by_size :: "rotation_policy \<Rightarrow> nat \<Rightarrow> string \<Rightarrow> bool result" where
  "should_rotate_by_size rotation current_file_size current_name =
     (case policy_max_bytes rotation of
        None \<Rightarrow> Ok False
      | Some max_bytes \<Rightarrow> if current_file_size < max_bytes then Ok False else Ok True)"

text \<open>The wall clock reading, in seconds, is the argument \<open>now_secs\<close>.\<close>

definition should_rotate :: "int \<Rightarrow> string \<Rightarrow> rotation_policy \<Rightarrow> nat \<Rightarrow> int \<Rightarrow> bool result" where
  "should_rotate now_secs current_name rotation current_file_size current_start_ms =
     (let now_ms = wrap64 (now_secs * 1000)
      in rbind (floor_to_window_ms now_ms (policy_window rotation)) (\<lambda>window_start_ms.
         if window_start_ms \<noteq> current_start_ms then Ok True
         else should_rotate_by_size rotation current_file_size current_name))"

end
