(* ===== verification/RotationLaws.thy ===== *)
theory RotationLaws
  imports Rotation
begin

section \<open>Properties of window starts and event file names\<close>

text \<open>
  Window starts are aligned lower bounds of the clock; names parse back to the window start and
  the ordinal they were generated from; and names sort in the order of time, which is what the
  catalog's and the rebuild's tie-break on names relies on. \<open>window_exact\<close> is the condition on the
  rotation window under which a label loses nothing.
\<close>

definition label_granule :: "duration \<Rightarrow> nat" where
  "label_granule w =
     (if 86400 \<le> as_secs w then 86400000 else if 3600 \<le> as_secs w then 3600000 else 60000)"

definition window_ok :: "duration \<Rightarrow> bool" where
  "window_ok w \<longleftrightarrow> 0 < as_millis w \<and> as_millis w < 9223372036854775808"

definition window_exact :: "duration \<Rightarrow> bool" where
  "window_exact w \<longleftrightarrow> window_ok w \<and> label_granule w dvd as_millis w"

definition regex_digit_law :: "(string \<Rightarrow> bool) \<Rightarrow> bool" where
  "regex_digit_law nd \<longleftrightarrow> (\<forall>c. (of_char c :: nat) < 128 \<longrightarrow> nd [c] = is_ascii_digit c)"

subsection \<open>Window starts\<close>

lemma sdiv_nonneg: "0 \<le> a \<Longrightarrow> 0 < b \<Longrightarrow> a sdiv b = (a::int) div b"
  by (auto simp: signed_divide_int_def sgn_if)

lemma floor_to_window_nonneg:
  assumes "0 \<le> now" "in_i64 now" "window_ok w"
  shows "floor_to_window_ms now w = Ok (now div int (as_millis w) * int (as_millis w))"
proof -
  have m: "0 < int (as_millis w)" "in_i64 (int (as_millis w))"
    using assms(3) by (auto simp: window_ok_def in_i64_def)
  have "now div int (as_millis w) * int (as_millis w) \<le> now"
    using m(1) by (simp add: minus_mod_eq_div_mult [symmetric])
  moreover have "0 \<le> now div int (as_millis w) * int (as_millis w)"
    using assms(1) m(1) by (simp add: pos_imp_zdiv_nonneg_iff)
  ultimately have "in_i64 (now div int (as_millis w) * int (as_millis w))"
    using assms(2) by (simp add: in_i64_def)
  with m assms(1) show ?thesis
    by (simp add: floor_to_window_ms_def Let_def sdiv_nonneg)
qed

lemma floor_to_window_Ok_bounds:
  assumes "0 \<le> now" "in_i64 now" "window_ok w" "floor_to_window_ms now w = Ok s"
  shows "int (as_millis w) dvd s" "0 \<le> s" "s \<le> now" "now < s + int (as_millis w)" "in_i64 s"
proof -
  let ?m = "int (as_millis w)"
  have m: "0 < ?m" using assms(3) by (simp add: window_ok_def)
  have s: "s = now div ?m * ?m" using floor_to_window_nonneg[OF assms(1-3)] assms(4) by simp
  show "?m dvd s" and "0 \<le> s" using s m assms(1) by (simp_all add: pos_imp_zdiv_nonneg_iff)
  have "s + now mod ?m = now" using s by simp
  then show "s \<le> now" and "now < s + ?m"
    using m pos_mod_sign[OF m, of now] pos_mod_bound[OF m, of now] by linarith+
  with \<open>0 \<le> s\<close> assms(2) show "in_i64 s" by (simp add: in_i64_def)
qed

subsection \<open>Labels\<close>

definition label_suffix :: "('date, 'dt) time_crate \<Rightarrow> duration \<Rightarrow> 'dt \<Rightarrow> string" where
  "label_suffix tc w dt =
     (if 86400 \<le> as_secs w then []
      else if 3600 \<le> as_secs w then ''T'' @ fixw 2 (tc_hour tc dt)
      else ''T'' @ fixw 2 (tc_hour tc dt) @ fixw 2 (tc_minute tc dt))"

definition label_date :: "('date, 'dt) time_crate \<Rightarrow> 'dt \<Rightarrow> string" where
  "label_date tc dt = fixw 4 (nat (tc_year tc dt)) @ fixw 2 (tc_month tc dt) @ fixw 2 (tc_day tc dt)"

lemma time_fields:
  assumes "time_crate_laws tc" "tc_from_nanos tc n = Some dt" "0 \<le> n"
  shows "1970 \<le> tc_year tc dt" "tc_year tc dt \<le> 9999" "tc_month tc dt < 100" "tc_day tc dt < 100"
    "tc_hour tc dt < 24" "tc_minute tc dt < 60"
    "tc_month_try_from tc (tc_month tc dt) = Some (tc_month tc dt)"
proof -
  have d: "1970 \<le> tc_year tc dt \<and> tc_year tc dt \<le> 9999 \<and> tc_month tc dt \<le> 12 \<and> tc_day tc dt \<le> 31 \<and>
      tc_month_try_from tc (tc_month tc dt) = Some (tc_month tc dt)"
    using assms unfolding time_crate_laws_def date_law_def by blast
  then show "1970 \<le> tc_year tc dt" "tc_year tc dt \<le> 9999" "tc_month tc dt < 100" "tc_day tc dt < 100"
    "tc_month_try_from tc (tc_month tc dt) = Some (tc_month tc dt)" by auto
  have "int (tc_hour tc dt) = n div 3600000000000 mod 24 \<and> int (tc_minute tc dt) = n div 60000000000 mod 60"
    using assms unfolding time_crate_laws_def clock_law_def by blast
  moreover have "n div 3600000000000 mod 24 < 24" "n div 60000000000 mod 60 < 60" by simp_all
  ultimately show "tc_hour tc dt < 24" "tc_minute tc dt < 60" by linarith+
qed

lemma fmt_pad_2: "n < 100 \<Longrightarrow> fmt_pad 2 n = fixw 2 n"
  by (rule fmt_pad_fixw) simp_all

lemma fmt_pad_6: "n \<le> MAX_OVERFLOW_ORDINAL \<Longrightarrow> fmt_pad 6 n = fixw 6 n"
  by (rule fmt_pad_fixw) (simp_all add: MAX_OVERFLOW_ORDINAL_def)

lemma fmt_pad_int_4: "0 \<le> y \<Longrightarrow> y \<le> 9999 \<Longrightarrow> fmt_pad_int 4 y = fixw 4 (nat y)"
  by (simp add: fmt_pad_int_def fmt_pad_fixw)

lemma label_for_Ok:
  assumes "time_crate_laws tc" "0 \<le> s" "label_for tc s w = Ok l"
  obtains dt where "tc_from_nanos tc (s * 1000000) = Some dt" "l = label_date tc dt @ label_suffix tc w dt"
proof -
  obtain dt where dt: "tc_from_nanos tc (s * 1000000) = Some dt"
    using assms(3) by (auto simp: label_for_def res_simps)
  note F = time_fields[OF assms(1) dt]
  have "l = label_date tc dt @ label_suffix tc w dt"
    using assms F by (auto simp: label_for_def dt ok_or_def Let_def label_date_def label_suffix_def
        fmt_pad_int_4 fmt_pad_2 split: if_splits)
  with dt show ?thesis by (rule that)
qed

definition ordinal_suffix :: "nat option \<Rightarrow> string" where
  "ordinal_suffix ord = (case ord of None \<Rightarrow> ''.db'' | Some k \<Rightarrow> ''_'' @ fixw 6 k @ ''.db'')"

lemma generate_Ok:
  assumes "time_crate_laws tc" "0 \<le> s" "generate_partition_name tc s w ord = Ok name"
  obtains dt where "tc_from_nanos tc (s * 1000000) = Some dt"
    "name = ''events_'' @ label_date tc dt @ label_suffix tc w dt @ ordinal_suffix ord"
    "\<forall>k. ord = Some k \<longrightarrow> 1 \<le> k \<and> k \<le> MAX_OVERFLOW_ORDINAL"
proof -
  obtain l where l: "label_for tc s w = Ok l"
    using assms(3) by (auto simp: generate_partition_name_def res_simps)
  have name: "name = ''events_'' @ l @ ordinal_suffix ord"
    and ord: "\<forall>k. ord = Some k \<longrightarrow> 1 \<le> k \<and> k \<le> MAX_OVERFLOW_ORDINAL"
    using assms(3) l by (cases ord; auto simp: generate_partition_name_def ordinal_suffix_def fmt_pad_6
        split: if_splits)+
  from label_for_Ok[OF assms(1,2) l] name ord show ?thesis
    by (metis append.assoc that)
qed

subsection \<open>The round trip\<close>

lemma digit_char_ascii: "c \<in> digit_char ` {..<10} \<Longrightarrow> is_ascii_digit c \<and> (of_char c :: nat) < 128"
  by (auto simp: is_ascii_digit_def of_char_digit_char)

lemma regex_digits_append:
  assumes "regex_digit_law nd"
  shows "set ds \<subseteq> digit_char ` {..<10} \<Longrightarrow> length ds = n \<Longrightarrow> regex_digits nd n (ds @ r) = Some (ds, r)"
proof (induction n arbitrary: ds)
  case (Suc n)
  then obtain c cs where ds: "ds = c # cs" by (cases ds) auto
  with Suc.prems digit_char_ascii[of c] have c: "utf8_width c = 1" "nd [c]"
    using assms by (auto simp: utf8_width_def regex_digit_law_def)
  from Suc ds have "regex_digits nd n (cs @ r) = Some (cs, r)" by simp
  with c ds show ?case by simp
qed simp

lemma regex_digits_fixw: "regex_digit_law nd \<Longrightarrow> regex_digits nd w (fixw w n @ r) = Some (fixw w n, r)"
  by (rule regex_digits_append) (auto dest: subsetD[OF fixw_digits])

lemma match_tail_suffix:
  "regex_digit_law nd \<Longrightarrow> match_tail nd (ordinal_suffix ord) = Some (map_option (fixw 6) ord)"
  by (cases ord) (simp_all add: match_tail_def ordinal_suffix_def regex_digits_fixw)

lemma fixw_2_Cons: "\<exists>d r. fixw 2 n = digit_char d # r \<and> d < 10"
proof -
  have "fixw 2 n = [digit_char (n div 10 mod 10), digit_char (n mod 10)]"
    by (simp add: numeral_2_eq_2)
  moreover have "n div 10 mod 10 < 10" by simp
  ultimately show ?thesis by blast
qed

lemma match_tail_digit: "d < 10 \<Longrightarrow> match_tail nd (digit_char d # r) = None"
  by (auto simp: match_tail_def digit_char_def dest!: arg_cong[where f = "of_char :: char \<Rightarrow> nat"])

lemma match_time_suffix:
  assumes "regex_digit_law nd"
  shows "match_time nd (label_suffix tc w dt @ ordinal_suffix ord) =
    Some (if 86400 \<le> as_secs w then None
          else if 3600 \<le> as_secs w then Some (fixw 2 (tc_hour tc dt))
          else Some (fixw 2 (tc_hour tc dt) @ fixw 2 (tc_minute tc dt)), map_option (fixw 6) ord)"
proof -
  have no_T: "\<not> prefix ''T'' (ordinal_suffix ord)"
    by (cases ord) (simp_all add: ordinal_suffix_def)
  have two: "match_timed nd 2 (fixw 2 h @ fixw 2 m @ t) = None" for h m t
    using fixw_2_Cons[of m] match_tail_digit[of _ nd]
    by (auto simp: match_timed_def regex_digits_fixw[OF assms])
  have four: "regex_digits nd 4 (fixw 2 h @ fixw 2 m @ t) = Some (fixw 2 h @ fixw 2 m, t)" for h m t
    using regex_digits_append[OF assms, of "fixw 2 h @ fixw 2 m" 4 t] fixw_digits[of 2] by simp
  show ?thesis
    using no_T two
    by (auto simp: match_time_def label_suffix_def match_timed_def regex_digits_fixw[OF assms]
        match_tail_suffix[OF assms] four)
qed

lemma partition_regex_name:
  assumes "regex_digit_law nd"
  shows "partition_regex nd (''events_'' @ label_date tc dt @ label_suffix tc w dt @ ordinal_suffix ord) =
    Some (label_date tc dt,
          if 86400 \<le> as_secs w then None
          else if 3600 \<le> as_secs w then Some (fixw 2 (tc_hour tc dt))
          else Some (fixw 2 (tc_hour tc dt) @ fixw 2 (tc_minute tc dt)), map_option (fixw 6) ord)"
proof -
  have "regex_digits nd 8 (label_date tc dt @ t) = Some (label_date tc dt, t)" for t
    by (rule regex_digits_append[OF assms]) (use fixw_digits in \<open>auto simp: label_date_def\<close>)
  then show ?thesis by (simp add: partition_regex_def match_time_suffix[OF assms])
qed

text \<open>Slicing a string of ASCII digits at any position in range never panics.\<close>

lemma char_boundary_digits: "set s \<subseteq> digit_char ` {..<10} \<Longrightarrow> i \<le> length s \<Longrightarrow> is_char_boundary s i"
  using digit_char_ascii by (force simp: is_char_boundary_def le_less dest: nth_mem)

lemma str_slice_digits:
  "set s \<subseteq> digit_char ` {..<10} \<Longrightarrow> a \<le> b \<Longrightarrow> b \<le> length s \<Longrightarrow> str_slice s a b = Ok (drop a (take b s))"
  by (simp add: str_slice_def char_boundary_digits)

lemma set_fixw_append: "set (fixw a m @ fixw b n) \<subseteq> digit_char ` {..<10}"
  using fixw_digits[of a m] fixw_digits[of b n] by simp

lemma parse_date_label:
  assumes "time_crate_laws tc" "tc_from_nanos tc n = Some dt" "0 \<le> n"
  shows "parse_date_components (label_date tc dt) = Ok (tc_year tc dt, tc_month tc dt, tc_day tc dt)"
proof -
  note F = time_fields[OF assms]
  have d: "set (label_date tc dt) \<subseteq> digit_char ` {..<10}" "length (label_date tc dt) = 8"
    using fixw_digits by (auto simp: label_date_def)
  have "parse_i32 (fixw 4 (nat (tc_year tc dt))) = Some (tc_year tc dt)"
    using parse_i32_fixw[of 4 "nat (tc_year tc dt)"] F by simp
  moreover have "parse_unsigned 255 (fixw 2 (tc_month tc dt)) = Some (tc_month tc dt)"
    "parse_unsigned 255 (fixw 2 (tc_day tc dt)) = Some (tc_day tc dt)"
    using F by (auto intro: parse_unsigned_fixw)
  ultimately show ?thesis
    by (simp add: parse_date_components_def str_slice_digits[OF d(1)] d(2) ok_or_def)
      (simp add: label_date_def ok_or_def)
qed

lemma parse_time_2: "h < 24 \<Longrightarrow> parse_time_component (fixw 2 h) = Ok (h, None)"
  using parse_unsigned_fixw[of 2 h 255]
  by (simp add: parse_time_component_def str_slice_digits[OF fixw_digits] ok_or_def)

lemma parse_time_4:
  "h < 24 \<Longrightarrow> m < 60 \<Longrightarrow> parse_time_component (fixw 2 h @ fixw 2 m) = Ok (h, Some m)"
  using parse_unsigned_fixw[of 2 h 255] parse_unsigned_fixw[of 2 m 255]
  by (simp add: parse_time_component_def str_slice_digits[OF set_fixw_append] ok_or_def)

text \<open>The time that a label keeps of a time stamp: its day, its hour or its minute.\<close>

lemma create_datetime_label:
  assumes "time_crate_laws tc" "tc_from_nanos tc n = Some dt" "0 \<le> n"
  obtains dt' where
    "create_datetime tc (tc_year tc dt) (tc_month tc dt) (tc_day tc dt)
       (if 86400 \<le> as_secs w then None
        else if 3600 \<le> as_secs w then Some (fixw 2 (tc_hour tc dt))
        else Some (fixw 2 (tc_hour tc dt) @ fixw 2 (tc_minute tc dt))) = Ok dt'"
    "tc_secs tc dt' =
       86400 * (n div 86400000000000) +
       (if 86400 \<le> as_secs w then 0 else 3600 * int (tc_hour tc dt)) +
       (if 3600 \<le> as_secs w then 0 else 60 * int (tc_minute tc dt))"
proof -
  note F = time_fields[OF assms]
  let ?h = "if 86400 \<le> as_secs w then 0 else tc_hour tc dt"
  let ?m = "if 3600 \<le> as_secs w then 0 else tc_minute tc dt"
  obtain d dt' where
    "tc_from_calendar_date tc (tc_year tc dt) (tc_month tc dt) (tc_day tc dt) = Some d"
    "tc_with_hms tc d ?h ?m 0 = Some dt'"
    "tc_secs tc dt' = 86400 * (n div 86400000000000) + 3600 * int ?h + 60 * int ?m"
  proof -
    have "?h < 24" "?m < 60" using F by simp_all
    with assms(1,2) that show ?thesis unfolding time_crate_laws_def rebuild_law_def by blast
  qed
  with F show ?thesis
    by (intro that[of dt'])
      (auto simp: create_datetime_def create_datetime_with_time_def ok_or_def parse_time_2 parse_time_4
        split: if_splits)
qed

text \<open>The start of the day, hour or minute that the label of a time stamp shows.\<close>

definition label_start :: "duration \<Rightarrow> int \<Rightarrow> int" where
  "label_start w s = int (label_granule w) * (s div int (label_granule w))"

lemma granule_pos: "0 < int (label_granule w)"
  by (simp add: label_granule_def)

lemma label_start_le: "label_start w s \<le> s"
  using mult_div_mod_eq[of "int (label_granule w)" s] pos_mod_sign[OF granule_pos, of s w]
  unfolding label_start_def by linarith

lemma label_start_nonneg: "0 \<le> s \<Longrightarrow> 0 \<le> label_start w s"
  using granule_pos[of w] by (simp add: label_start_def pos_imp_zdiv_nonneg_iff)

lemma label_start_fixed: "label_start w s = s \<longleftrightarrow> int (label_granule w) dvd s"
  by (auto simp: label_start_def) (metis dvd_triv_left)

lemma millis_div:
  fixes s :: int
  shows "s * 1000000 div 86400000000000 = s div 86400000" "s * 1000000 div 3600000000000 = s div 3600000"
    "s * 1000000 div 60000000000 = s div 60000"
  using div_mult_mult2[of "1000000::int" s 86400000] div_mult_mult2[of "1000000::int" s 3600000]
    div_mult_mult2[of "1000000::int" s 60000] by simp_all

lemma div_nested:
  fixes s :: int
  shows "s div 86400000 = s div 3600000 div 24" "s div 86400000 = s div 60000 div 60 div 24" "s div 3600000 = s div 60000 div 60"
  using zdiv_zmult2_eq[of 24 s 3600000] zdiv_zmult2_eq[of 60 s 60000] by simp_all

lemma granule_value:
  fixes s :: int
  shows "(86400 * (s * 1000000 div 86400000000000) +
       (if 86400 \<le> as_secs w then 0 else 3600 * (s * 1000000 div 3600000000000 mod 24)) +
       (if 3600 \<le> as_secs w then 0 else 60 * (s * 1000000 div 60000000000 mod 60))) * 1000 = label_start w s"
proof -
  have hour: "86400 * (k div 24) + 3600 * (k mod 24) = 3600 * k" for k :: int
    using mult_div_mod_eq[of 24 k] by linarith
  have minute: "3600 * (k div 60) + 60 * (k mod 60) = 60 * k" for k :: int
    using mult_div_mod_eq[of 60 k] by linarith
  consider "86400 \<le> as_secs w" | "3600 \<le> as_secs w" "\<not> 86400 \<le> as_secs w" | "\<not> 3600 \<le> as_secs w" by linarith
  then show ?thesis
  proof cases
    case 1
    then show ?thesis by (simp add: millis_div label_start_def label_granule_def)
  next
    case 2
    with hour[of "s div 3600000"] show ?thesis
      by (simp add: millis_div label_start_def label_granule_def div_nested(1))
  next
    case 3
    with hour[of "s div 60000 div 60"] minute[of "s div 60000"] show ?thesis
      by (simp add: millis_div label_start_def label_granule_def div_nested(2,3))
  qed
qed

lemma label_start_millis: "label_start w s div 1000 * 1000 = label_start w s"
  unfolding granule_value[symmetric] by simp

lemma generate_parse:
  assumes L: "time_crate_laws tc" and R: "regex_digit_law nd"
    and s: "0 \<le> s" "in_i64 s"
    and g: "generate_partition_name tc s w ord = Ok name"
  shows "parse_partition_name nd tc name = Ok (label_start w s, ord)"
proof -
  obtain dt where dt: "tc_from_nanos tc (s * 1000000) = Some dt"
    and name: "name = ''events_'' @ label_date tc dt @ label_suffix tc w dt @ ordinal_suffix ord"
    and ord: "\<forall>k. ord = Some k \<longrightarrow> 1 \<le> k \<and> k \<le> MAX_OVERFLOW_ORDINAL"
    using generate_Ok[OF L s(1) g] by blast
  have s6: "0 \<le> s * 1000000" using s(1) by simp
  obtain dt' where dt': "create_datetime tc (tc_year tc dt) (tc_month tc dt) (tc_day tc dt)
       (if 86400 \<le> as_secs w then None
        else if 3600 \<le> as_secs w then Some (fixw 2 (tc_hour tc dt))
        else Some (fixw 2 (tc_hour tc dt) @ fixw 2 (tc_minute tc dt))) = Ok dt'"
    and secs: "tc_secs tc dt' = 86400 * (s * 1000000 div 86400000000000) +
       (if 86400 \<le> as_secs w then 0 else 3600 * int (tc_hour tc dt)) +
       (if 3600 \<le> as_secs w then 0 else 60 * int (tc_minute tc dt))"
    using create_datetime_label[OF L dt s6] by blast
  have hm: "int (tc_hour tc dt) = s * 1000000 div 3600000000000 mod 24"
    "int (tc_minute tc dt) = s * 1000000 div 60000000000 mod 60"
    using L dt unfolding time_crate_laws_def clock_law_def by blast+
  have "tc_secs tc dt' * 1000 = label_start w s"
    unfolding secs hm by (rule granule_value)
  moreover have "in_i64 (label_start w s)"
    using s label_start_le[of w s] label_start_nonneg[OF s(1), of w] by (simp add: in_i64_def)
  moreover have "transpose_res (map_option
       (\<lambda>v. ok_or e (parse_unsigned 4294967295 v)) (map_option (fixw 6) ord)) = Ok ord" for e :: es_error
    using ord parse_unsigned_fixw[of 6] by (cases ord) (auto simp: ok_or_def MAX_OVERFLOW_ORDINAL_def)
  moreover have "ord \<noteq> Some 0" using ord by auto
  ultimately show ?thesis
    using partition_regex_name[OF R, of tc dt w ord, folded name]
    by (simp add: parse_partition_name_def parse_date_label[OF L dt s6] dt')
qed

lemma generate_parse_aligned:
  assumes "time_crate_laws tc" "regex_digit_law nd" "0 \<le> s" "in_i64 s" "int (label_granule w) dvd s"
    and "generate_partition_name tc s w ord = Ok name"
  shows "parse_partition_name nd tc name = Ok (s, ord)"
  using generate_parse[OF assms(1-4,6)] assms(5) label_start_fixed[of w s] by simp

subsection \<open>Names sort by time\<close>

fun ordinal_less :: "nat option \<Rightarrow> nat option \<Rightarrow> bool" where
  "ordinal_less None (Some k) = True"
| "ordinal_less (Some j) (Some k) = (j < k)"
| "ordinal_less _ None = False"

lemma date_strict:
  assumes L: "time_crate_laws tc" and dt: "tc_from_nanos tc n = Some dt" "tc_from_nanos tc n' = Some dt'"
    and lt: "n div 86400000000000 < n' div 86400000000000"
  shows "(tc_year tc dt, tc_month tc dt, tc_day tc dt) < (tc_year tc dt', tc_month tc dt', tc_day tc dt')"
proof -
  have "(tc_year tc dt, tc_month tc dt, tc_day tc dt) \<le> (tc_year tc dt', tc_month tc dt', tc_day tc dt')"
    using L lt dt unfolding time_crate_laws_def order_law_def by (meson less_imp_le)
  moreover have "(tc_year tc dt, tc_month tc dt, tc_day tc dt) \<noteq> (tc_year tc dt', tc_month tc dt', tc_day tc dt')"
  proof
    assume eq: "(tc_year tc dt, tc_month tc dt, tc_day tc dt) = (tc_year tc dt', tc_month tc dt', tc_day tc dt')"
    have reb: "\<exists>d e. tc_from_calendar_date tc (tc_year tc t) (tc_month tc t) (tc_day tc t) = Some d \<and>
        tc_with_hms tc d 0 0 0 = Some e \<and> tc_secs tc e = 86400 * (k div 86400000000000)"
      if "tc_from_nanos tc k = Some t" for k t
      using L that unfolding time_crate_laws_def rebuild_law_def
      by (metis (no_types, lifting) add.right_neutral mult_zero_right of_nat_0 zero_less_numeral)
    show False using reb[OF dt(1)] reb[OF dt(2)] eq lt by auto
  qed
  ultimately show ?thesis by (simp add: order_less_le)
qed

lemma date_same:
  assumes "time_crate_laws tc" "tc_from_nanos tc n = Some dt" "tc_from_nanos tc n' = Some dt'"
    "n div 86400000000000 = n' div 86400000000000"
  shows "label_date tc dt = label_date tc dt'"
proof -
  have "(tc_year tc dt, tc_month tc dt, tc_day tc dt) = (tc_year tc dt', tc_month tc dt', tc_day tc dt')"
    using assms unfolding time_crate_laws_def order_law_def by (metis order_antisym order_refl)
  then show ?thesis by (simp add: label_date_def)
qed

lemma label_date_less:
  assumes "time_crate_laws tc" "tc_from_nanos tc n = Some dt" "tc_from_nanos tc n' = Some dt'"
    "0 \<le> n" "n div 86400000000000 < n' div 86400000000000"
  shows "label_date tc dt < label_date tc dt'"
proof -
  have "0 \<le> n div 86400000000000" using assms(4) by (simp add: pos_imp_zdiv_nonneg_iff)
  with assms(5) have "0 \<le> n' div 86400000000000" by linarith
  then have n': "0 \<le> n'" by (simp add: pos_imp_zdiv_nonneg_iff)
  note F = time_fields[OF assms(1,2,4)] and F' = time_fields[OF assms(1,3) n']
  have y: "nat (tc_year tc dt) < 10 ^ 4" "nat (tc_year tc dt') < 10 ^ 4" using F F' by simp_all
  have m: "tc_month tc dt < 10 ^ 2" "tc_month tc dt' < 10 ^ 2" "tc_day tc dt < 10 ^ 2" "tc_day tc dt' < 10 ^ 2"
    using F F' by simp_all
  have "nat (tc_year tc dt) < nat (tc_year tc dt') \<or> nat (tc_year tc dt) = nat (tc_year tc dt') \<and>
      (tc_month tc dt < tc_month tc dt' \<or> tc_month tc dt = tc_month tc dt' \<and> tc_day tc dt < tc_day tc dt')"
    using date_strict[OF assms(1-3,5)] F(1) F'(1) by auto
  then show ?thesis
    by (auto simp: label_date_def append_less_iff fixw_less_iff[OF y] fixw_less_iff[OF m(1,2)]
        fixw_less_iff[OF m(3,4)])
qed

lemma hour_minute_less:
  fixes h m h' m' :: nat
  assumes "m < 60" "m' < 60" "60 * int h + int m < 60 * int h' + int m'"
  shows "h < h' \<or> h = h' \<and> m < m'"
  using assms by linarith

lemma label_suffix_less:
  assumes L: "time_crate_laws tc" and dt: "tc_from_nanos tc (s * 1000000) = Some dt"
    "tc_from_nanos tc (s' * 1000000) = Some dt'" and nn: "0 \<le> s" "0 \<le> s'"
    and day: "s * 1000000 div 86400000000000 = s' * 1000000 div 86400000000000" and lt: "label_start w s < label_start w s'"
  shows "label_suffix tc w dt < label_suffix tc w dt'"
proof -
  have F: "tc_hour tc dt < 24" "tc_minute tc dt < 60" "tc_hour tc dt' < 24" "tc_minute tc dt' < 60"
    using time_fields(5,6)[OF L dt(1)] time_fields(5,6)[OF L dt(2)] nn by auto
  have hm: "int (tc_hour tc dt) = s * 1000000 div 3600000000000 mod 24"
    "int (tc_minute tc dt) = s * 1000000 div 60000000000 mod 60"
    "int (tc_hour tc dt') = s' * 1000000 div 3600000000000 mod 24"
    "int (tc_minute tc dt') = s' * 1000000 div 60000000000 mod 60"
    using L dt unfolding time_crate_laws_def clock_law_def by blast+
  from lt have "(86400 * (s * 1000000 div 86400000000000) + (if 86400 \<le> as_secs w then 0 else 3600 * int (tc_hour tc dt)) +
      (if 3600 \<le> as_secs w then 0 else 60 * int (tc_minute tc dt))) * 1000
    < (86400 * (s' * 1000000 div 86400000000000) + (if 86400 \<le> as_secs w then 0 else 3600 * int (tc_hour tc dt')) +
      (if 3600 \<le> as_secs w then 0 else 60 * int (tc_minute tc dt'))) * 1000"
    by (simp only: granule_value hm)
  then have less: "(if 86400 \<le> as_secs w then 0 else 3600 * int (tc_hour tc dt)) +
      (if 3600 \<le> as_secs w then 0 else 60 * int (tc_minute tc dt))
    < (if 86400 \<le> as_secs w then 0 else 3600 * int (tc_hour tc dt')) +
      (if 3600 \<le> as_secs w then 0 else 60 * int (tc_minute tc dt'))"
    unfolding day mult_less_cancel_right_pos[OF zero_less_numeral] by simp
  have f: "fixw 2 a < fixw 2 b \<longleftrightarrow> a < b" "fixw 2 a = fixw 2 b \<longleftrightarrow> a = b" if "a < 60" "b < 60" for a b
    using fixw_less_iff[of a 2 b] fixw_inj[of a 2 b] that by auto
  consider (day) "86400 \<le> as_secs w" | (hour) "3600 \<le> as_secs w" "\<not> 86400 \<le> as_secs w"
    | (minute) "\<not> 3600 \<le> as_secs w" by linarith
  then show ?thesis
  proof cases
    case day
    with less show ?thesis by simp
  next
    case hour
    with less F show ?thesis by (simp add: label_suffix_def f)
  next
    case minute
    then have "\<not> 86400 \<le> as_secs w" by simp
    with minute less hour_minute_less[OF F(2,4), of "tc_hour tc dt" "tc_hour tc dt'"] F show ?thesis
      by (auto simp: label_suffix_def append_less_iff f)
  qed
qed

lemma ordinal_suffix_less:
  assumes "ordinal_less a b" "\<forall>k. a = Some k \<longrightarrow> k \<le> MAX_OVERFLOW_ORDINAL" "\<forall>k. b = Some k \<longrightarrow> k \<le> MAX_OVERFLOW_ORDINAL"
  shows "ordinal_suffix a < ordinal_suffix b"
proof (cases a)
  case None
  with assms(1) show ?thesis by (cases b) (simp_all add: ordinal_suffix_def)
next
  case (Some j)
  with assms(1) obtain k where k: "b = Some k" "j < k" by (cases b) auto
  with Some assms(2,3) fixw_less_iff[of j 6 k] show ?thesis
    by (simp add: ordinal_suffix_def append_less_iff MAX_OVERFLOW_ORDINAL_def)
qed

lemma label_start_div: "label_start w s < label_start w s' \<longleftrightarrow> s div int (label_granule w) < s' div int (label_granule w)"
  "label_start w s = label_start w s' \<longleftrightarrow> s div int (label_granule w) = s' div int (label_granule w)"
  using granule_pos[of w] by (simp_all add: label_start_def mult_less_cancel_left_pos)

lemma label_suffix_same:
  assumes "clock_law tc" "tc_from_nanos tc (s * 1000000) = Some dt" "tc_from_nanos tc (s' * 1000000) = Some dt'"
    and "label_start w s = label_start w s'"
  shows "label_suffix tc w dt = label_suffix tc w dt'"
proof -
  have hm: "int (tc_hour tc dt) = s div 3600000 mod 24" "int (tc_minute tc dt) = s div 60000 mod 60"
    "int (tc_hour tc dt') = s' div 3600000 mod 24" "int (tc_minute tc dt') = s' div 60000 mod 60"
    using assms(1-3) unfolding clock_law_def millis_div[symmetric] by blast+
  have d: "s div int (label_granule w) = s' div int (label_granule w)" using assms(4) by (simp add: label_start_div)
  consider "86400 \<le> as_secs w" | "3600 \<le> as_secs w" "\<not> 86400 \<le> as_secs w" | "\<not> 3600 \<le> as_secs w" by linarith
  then show ?thesis
  proof cases
    case 2
    with d have "s div 3600000 = s' div 3600000" by (simp add: label_granule_def)
    then have "int (tc_hour tc dt) = int (tc_hour tc dt')" by (simp only: hm)
    with 2 show ?thesis by (simp add: label_suffix_def)
  next
    case 3
    with d have "s div 60000 = s' div 60000" by (simp add: label_granule_def)
    then have "int (tc_hour tc dt) = int (tc_hour tc dt')" "int (tc_minute tc dt) = int (tc_minute tc dt')"
      by (simp_all only: hm div_nested(3))
    then show ?thesis by (simp add: label_suffix_def)
  qed (simp add: label_suffix_def)
qed

lemma label_start_day:
  assumes "label_start w s = label_start w s'"
  shows "s * 1000000 div 86400000000000 = s' * 1000000 div 86400000000000"
proof -
  have d: "s div int (label_granule w) = s' div int (label_granule w)" using assms by (simp add: label_start_div)
  consider "86400 \<le> as_secs w" | "3600 \<le> as_secs w" "\<not> 86400 \<le> as_secs w" | "\<not> 3600 \<le> as_secs w" by linarith
  then have "s div 86400000 = s' div 86400000"
  proof cases
    case 2
    with d show ?thesis unfolding div_nested(1) by (simp add: label_granule_def)
  next
    case 3
    with d show ?thesis unfolding div_nested(2) by (simp add: label_granule_def)
  qed (use d in \<open>simp add: label_granule_def\<close>)
  then show ?thesis by (simp add: millis_div)
qed

text \<open>The order of two names is that of their label starts, then of their ordinals.\<close>

definition label_before :: "duration \<Rightarrow> int \<Rightarrow> nat option \<Rightarrow> int \<Rightarrow> nat option \<Rightarrow> bool" where
  "label_before w s ord s' ord' \<longleftrightarrow>
     label_start w s < label_start w s' \<or> label_start w s = label_start w s' \<and> ordinal_less ord ord'"

lemma names_before:
  assumes L: "time_crate_laws tc" and nn: "0 \<le> s" "0 \<le> s'"
    and n: "generate_partition_name tc s w ord = Ok name" "generate_partition_name tc s' w ord' = Ok name'"
  shows "label_before w s ord s' ord' \<Longrightarrow> name < name'"
    and "label_start w s = label_start w s' \<Longrightarrow> ord = ord' \<Longrightarrow> name = name'"
proof -
  obtain dt where dt: "tc_from_nanos tc (s * 1000000) = Some dt"
    and name: "name = ''events_'' @ label_date tc dt @ label_suffix tc w dt @ ordinal_suffix ord"
    and ord: "\<forall>k. ord = Some k \<longrightarrow> 1 \<le> k \<and> k \<le> MAX_OVERFLOW_ORDINAL"
    using generate_Ok[OF L nn(1) n(1)] by blast
  obtain dt' where dt': "tc_from_nanos tc (s' * 1000000) = Some dt'"
    and name': "name' = ''events_'' @ label_date tc dt' @ label_suffix tc w dt' @ ordinal_suffix ord'"
    and ord': "\<forall>k. ord' = Some k \<longrightarrow> 1 \<le> k \<and> k \<le> MAX_OVERFLOW_ORDINAL"
    using generate_Ok[OF L nn(2) n(2)] by blast
  have len: "length (label_date tc dt) = length (label_date tc dt')"
    "length (label_suffix tc w dt) = length (label_suffix tc w dt')"
    by (simp_all add: label_date_def label_suffix_def)
  have same: "label_date tc dt = label_date tc dt'" "label_suffix tc w dt = label_suffix tc w dt'"
    if "label_start w s = label_start w s'"
    using date_same[OF L dt dt' label_start_day[OF that]] label_suffix_same[OF _ dt dt' that] L
    by (simp_all add: time_crate_laws_def)
  then show "label_start w s = label_start w s' \<Longrightarrow> ord = ord' \<Longrightarrow> name = name'"
    unfolding name name' by simp
  show "name < name'" if lt: "label_before w s ord s' ord'"
  proof (cases "label_start w s < label_start w s'")
    case True
    then have "s < s'" using label_start_div(1) zdiv_mono1[OF _ granule_pos] by (meson leI leD)
    then have "s * 1000000 div 86400000000000 \<le> s' * 1000000 div 86400000000000"
      by (intro zdiv_mono1) simp_all
    then consider "s * 1000000 div 86400000000000 < s' * 1000000 div 86400000000000"
      | "s * 1000000 div 86400000000000 = s' * 1000000 div 86400000000000" by linarith
    then show ?thesis
    proof cases
      case 1
      with label_date_less[OF L dt dt'] nn show ?thesis
        unfolding name name' by (simp add: append_less_iff len)
    next
      case 2
      with date_same[OF L dt dt'] label_suffix_less[OF L dt dt' nn _ True] show ?thesis
        unfolding name name' by (simp add: append_less_iff len)
    qed
  next
    case False
    with lt same have "label_date tc dt = label_date tc dt'" "label_suffix tc w dt = label_suffix tc w dt'"
      "ordinal_less ord ord'" by (auto simp: label_before_def)
    with ordinal_suffix_less[of ord ord'] ord ord' show ?thesis
      unfolding name name' by (simp add: append_less_iff)
  qed
qed

lemma names_less:
  assumes "time_crate_laws tc" "0 \<le> s" "0 \<le> s'"
    and "int (label_granule w) dvd s" "int (label_granule w) dvd s'"
    and "generate_partition_name tc s w ord = Ok name" "generate_partition_name tc s' w ord' = Ok name'"
    and "s < s' \<or> s = s' \<and> ordinal_less ord ord'"
  shows "name < name'"
  using names_before(1)[OF assms(1-3,6,7)] assms(4,5,8) by (simp add: label_before_def label_start_fixed[THEN iffD2])

subsection \<open>What the parser accepts\<close>

lemma prefix_drop: "prefix p s \<Longrightarrow> s = p @ drop (length p) s"
  by (auto simp: prefix_def)

lemma regex_digits_split: "regex_digits nd n s = Some (ds, r) \<Longrightarrow> s = ds @ r"
proof (induction n arbitrary: s ds)
  case (Suc n)
  then show ?case
    by (cases s) (fastforce simp: Let_def split: if_splits option.splits
        dest: arg_cong[where f = "\<lambda>t. take (utf8_width _) _ @ t"])+
qed simp

lemma match_tail_split: "match_tail nd s = Some ord \<Longrightarrow> \<exists>t. s = t @ ''.db''"
  by (fastforce simp: match_tail_def dest!: regex_digits_split prefix_drop split: if_splits option.splits)

lemma match_timed_split: "match_timed nd n s = Some g \<Longrightarrow> \<exists>t. s = t @ ''.db''"
  by (fastforce simp: match_timed_def dest!: regex_digits_split match_tail_split split: option.splits)

lemma match_time_split: "match_time nd s = Some g \<Longrightarrow> \<exists>t. s = t @ ''.db''"
  by (fastforce simp: match_time_def dest!: match_tail_split match_timed_split prefix_drop
      split: if_splits option.splits)

lemma partition_regex_split:
  assumes "partition_regex nd s = Some g"
  shows "\<exists>t. s = ''events_'' @ t @ ''.db''"
proof -
  obtain d r g' where "prefix ''events_'' s" and d: "regex_digits nd 8 (drop 7 s) = Some (d, r)"
    and g: "match_time nd r = Some g'"
    using assms by (auto simp: partition_regex_def split: if_splits option.splits)
  then obtain u where u: "s = ''events_'' @ u" by (auto simp: prefix_def)
  then have "u = d @ r" using regex_digits_split[OF d] by simp
  with match_time_split[OF g] u show ?thesis by (metis append.assoc)
qed

lemma parse_dec_digits: "parse_dec acc s = Some n \<Longrightarrow> c \<in> set s \<Longrightarrow> is_ascii_digit c"
  by (induction s arbitrary: acc) (auto simp: digit_val_def is_ascii_digit_def split: option.splits if_splits)

lemma parse_dec_bound: "parse_dec acc s = Some n \<Longrightarrow> n < (acc + 1) * 10 ^ length s"
proof (induction s arbitrary: acc)
  case (Cons c cs)
  then obtain d where d: "digit_val c = Some d" and "parse_dec (10 * acc + d) cs = Some n"
    by (auto split: option.splits)
  with Cons.IH have "n < (10 * acc + d + 1) * 10 ^ length cs" by simp
  also have "\<dots> \<le> (10 * acc + 10) * 10 ^ length cs"
    using d by (intro mult_right_mono) (auto simp: digit_val_def split: if_splits)
  finally show ?case by (simp add: algebra_simps)
qed simp

lemma regex_digits_ascii:
  "regex_digits nd n s = Some (ds, r) \<Longrightarrow> \<forall>c \<in> set ds. (of_char c :: nat) < 128 \<Longrightarrow> length ds = n \<and> (\<forall>c \<in> set ds. nd [c])"
proof (induction n arbitrary: s ds)
  case (Suc n)
  then obtain c cs ds' where s: "s = c # cs" and ds: "ds = take (utf8_width c) (c # cs) @ ds'"
    and nd: "nd (take (utf8_width c) (c # cs))"
    and r: "regex_digits nd n (drop (utf8_width c) (c # cs)) = Some (ds', r)"
    by (auto simp: Let_def split: list.splits if_splits option.splits)
  have "utf8_width c \<noteq> 0" by (simp add: utf8_width_def Let_def)
  with ds Suc.prems(2) have "(of_char c :: nat) < 128" by (cases "utf8_width c") auto
  then have "utf8_width c = 1" by (simp add: utf8_width_def)
  with Suc.IH[OF r] ds nd Suc.prems(2) show ?case by simp
qed simp

lemma match_tail_ordinal:
  "match_tail nd s = Some (Some v) \<Longrightarrow> \<exists>s' r. regex_digits nd 6 s' = Some (v, r)"
  by (fastforce simp: match_tail_def split: if_splits option.splits)

lemma match_time_ordinal:
  "match_time nd s = Some (t, Some v) \<Longrightarrow> \<exists>s' r. regex_digits nd 6 s' = Some (v, r)"
  by (auto simp: match_time_def match_timed_def dest: match_tail_ordinal split: if_splits option.splits)

lemma parse_ordinal_bound:
  assumes nd: "regex_digit_law nd" and r: "regex_digits nd 6 s = Some (v, r)"
    and p: "parse_unsigned mx v = Some k"
  shows "k \<le> MAX_OVERFLOW_ORDINAL"
proof -
  obtain c cs where v: "v = c # cs" using p by (cases v) (simp_all add: parse_unsigned_def)
  let ?ds = "if c = CHR ''+'' \<and> cs \<noteq> [] then cs else v"
  have k: "parse_dec 0 ?ds = Some k"
    using p v by (auto simp: parse_unsigned_def split: option.splits if_splits)
  have "is_ascii_digit b \<or> b = CHR ''+''" if "b \<in> set v" for b
    using parse_dec_digits[OF k] that v by (auto split: if_splits)
  then have "\<forall>b \<in> set v. (of_char b :: nat) < 128" by (fastforce simp: is_ascii_digit_def)
  then have "length v = 6" using regex_digits_ascii[OF r] by blast
  then have "length ?ds \<le> 6" using v by auto
  then have "(10::nat) ^ length ?ds \<le> 10 ^ 6" by (intro power_increasing) simp_all
  with parse_dec_bound[OF k] show ?thesis by (simp add: MAX_OVERFLOW_ORDINAL_def)
qed

subsection \<open>Properties\<close>

text \<open>A digit class for witnesses: the ASCII digits and the three-byte Devanagari digits.\<close>

definition sample_digits :: "string \<Rightarrow> bool" where
  "sample_digits s \<longleftrightarrow>
     (length s = 1 \<and> is_ascii_digit (hd s)) \<or>
     (length s = 3 \<and> take 2 s = [CHR 0xE0, CHR 0xA5] \<and> 166 \<le> (of_char (s ! 2) :: nat) \<and> (of_char (s ! 2) :: nat) \<le> 175)"

lemma sample_digit_law: "regex_digit_law sample_digits"
  by (simp add: regex_digit_law_def sample_digits_def)

lemma window_exact_hour: "window_exact (from_secs 3600)"
  by (simp add: window_exact_def window_ok_def label_granule_def)

text \<open>
  For a clock at or after the epoch and a window of at least a millisecond, the window start
  exists, is a multiple of the window, is the last such multiple not after the clock, and is its
  own window start.
\<close>

theorem floor_to_window_correct:
  assumes "0 \<le> now" "in_i64 now" "window_ok w"
  shows "\<exists>s. floor_to_window_ms now w = Ok s \<and> int (as_millis w) dvd s \<and> 0 \<le> s \<and> s \<le> now \<and>
    now < s + int (as_millis w) \<and> floor_to_window_ms s w = Ok s"
proof -
  obtain s where s: "floor_to_window_ms now w = Ok s" using floor_to_window_nonneg[OF assms] by blast
  note B = floor_to_window_Ok_bounds[OF assms s]
  have "floor_to_window_ms s w = Ok s"
    using floor_to_window_nonneg[OF B(2,5) assms(3)] B(1) by simp
  with s B show ?thesis by blast
qed

theorem floor_to_window_correct_witness:
  "\<exists>s. floor_to_window_ms 1727884801234 (from_secs 86400) = Ok s \<and>
     int (as_millis (from_secs 86400)) dvd s \<and> 0 \<le> s \<and> s \<le> 1727884801234 \<and>
     1727884801234 < s + int (as_millis (from_secs 86400)) \<and> floor_to_window_ms s (from_secs 86400) = Ok s"
  by (rule floor_to_window_correct) (simp_all add: in_i64_def window_ok_def)

text \<open>
  C34: what an event file name keeps. For every window, the name generated for a start and an
  ordinal parses back to the ordinal and to the start of the day, hour or minute that its label
  shows (which of them depends on the window's length); that is the given start itself exactly
  when the start is a whole day, hour or minute, so a reopened store finds its active window
  when the window is a multiple of its label, and only then in general.
\<close>

theorem partition_name_roundtrip:
  assumes "time_crate_laws tc" "regex_digit_law nd" "0 \<le> s" "in_i64 s" "generate_partition_name tc s w ord = Ok name"
  shows "parse_partition_name nd tc name = Ok (label_start w s, ord) \<and>
    (label_start w s = s \<longleftrightarrow> int (label_granule w) dvd s)"
  using generate_parse[OF assms] label_start_fixed by blast

theorem partition_name_roundtrip_witness:
  "parse_partition_name sample_digits gregorian ''events_20241002T16_000027.db'' = Ok (1727884800000, Some 27) \<and>
   parse_partition_name sample_digits gregorian ''events_20241002T04.db'' = Ok (1727841600000, None) \<and>
   floor_to_window_ms 1727845000000 (from_secs 5400) = Ok 1727843400000"
proof -
  have gen: "generate_partition_name gregorian 1727884800000 (from_secs 3600) (Some 27) = Ok ''events_20241002T16_000027.db''"
    "generate_partition_name gregorian 1727843400000 (from_secs 5400) None = Ok ''events_20241002T04.db''"
    "floor_to_window_ms 1727845000000 (from_secs 5400) = Ok 1727843400000"
    "label_start (from_secs 3600) 1727884800000 = 1727884800000" "label_start (from_secs 5400) 1727843400000 = 1727841600000"
    by code_simp+
  note R = partition_name_roundtrip[OF gregorian_laws sample_digit_law]
  from R[OF _ _ gen(1)] R[OF _ _ gen(2)] gen(3-5) show ?thesis by (simp add: in_i64_def)
qed

text \<open>
  C35: names sort by the time they show. For every window, two generated names compare, in the
  byte order that the catalog queries and the rebuild use as their tie-break, as the label starts
  and then the overflow ordinals compare; they are equal exactly when both agree. So a name is
  never reused by a rotation into a later label, or into the same one with a later ordinal; two
  windows within one label (windows shorter than a minute, or not a multiple of their label) share
  their name.
\<close>

theorem partition_names_chronological:
  assumes "time_crate_laws tc" "0 \<le> s" "0 \<le> s'"
    and "generate_partition_name tc s w ord = Ok name" "generate_partition_name tc s' w ord' = Ok name'"
  shows "(name < name' \<longleftrightarrow> label_start w s < label_start w s' \<or> label_start w s = label_start w s' \<and> ordinal_less ord ord') \<and>
    (name = name' \<longleftrightarrow> label_start w s = label_start w s' \<and> ord = ord')"
proof -
  note N = names_before[OF assms] names_before[OF assms(1,3,2,5,4)]
  have total: "ordinal_less ord ord' \<or> ord = ord' \<or> ordinal_less ord' ord"
    by (cases ord; cases ord') (auto simp: not_less_iff_gr_or_eq)
  have irrefl: "\<not> ordinal_less a a" and asym: "ordinal_less a b \<Longrightarrow> \<not> ordinal_less b a" for a b
    by (cases a; cases b; simp)+
  consider (Less) "label_before w s ord s' ord'" | (Same) "label_start w s = label_start w s'" "ord = ord'"
    | (Greater) "label_before w s' ord' s ord"
    using total unfolding label_before_def by (meson linorder_neqE_linordered_idom)
  then show ?thesis
  proof cases
    case Less
    with N(1) have "name < name'" by blast
    with Less irrefl show ?thesis by (auto simp: label_before_def)
  next
    case Same
    with N(2) have "name = name'" by blast
    with Same irrefl show ?thesis by simp
  next
    case Greater
    with N(3) have "name' < name" by blast
    with Greater irrefl asym show ?thesis by (auto simp: label_before_def)
  qed
qed

theorem partition_names_chronological_witness:
  "''events_20241002T16_000027.db'' < ''events_20241002T17.db''"
proof -
  have gen: "generate_partition_name gregorian 1727884800000 (from_secs 3600) (Some 27) = Ok ''events_20241002T16_000027.db''"
    "generate_partition_name gregorian 1727888400000 (from_secs 3600) None = Ok ''events_20241002T17.db''"
    "label_start (from_secs 3600) 1727884800000 = 1727884800000" "label_start (from_secs 3600) 1727888400000 = 1727888400000"
    by code_simp+
  from partition_names_chronological[OF gregorian_laws _ _ gen(1,2)] gen(3,4) show ?thesis by simp
qed

text \<open>
  What the parser accepts is an event file name. Whatever digit characters the regex class
  admits beyond ASCII, a name that parses starts with \<open>events_\<close>, ends with \<open>.db\<close>, and its
  ordinal, if any, lies in \<open>1..=999999\<close>; in particular ordinal zero is refused.
\<close>

theorem parse_partition_name_sound:
  assumes "regex_digit_law nd" "parse_partition_name nd tc name = Ok (start, ord)"
  shows "(\<exists>body. name = ''events_'' @ body @ ''.db'') \<and>
    (case ord of None \<Rightarrow> True | Some k \<Rightarrow> 1 \<le> k \<and> k \<le> MAX_OVERFLOW_ORDINAL)"
proof -
  obtain d t v where re: "partition_regex nd name = Some (d, t, v)"
    and tr: "transpose_res (map_option (\<lambda>v. ok_or (InvalidPartition (''Invalid overflow ordinal in '' @ name))
         (parse_unsigned 4294967295 v)) v) = Ok ord" and nz: "ord \<noteq> Some 0"
    using assms(2) by (auto simp: parse_partition_name_def res_simps split: if_splits)
  have "1 \<le> k \<and> k \<le> MAX_OVERFLOW_ORDINAL" if k: "ord = Some k" for k
  proof -
    obtain u where u: "v = Some u" "parse_unsigned 4294967295 u = Some k"
      using tr k by (cases v) (auto simp: res_simps)
    then obtain s r where "regex_digits nd 6 s = Some (u, r)"
      using re by (auto simp: partition_regex_def split: if_splits option.splits dest!: match_time_ordinal)
    with parse_ordinal_bound[OF assms(1)] u k nz show ?thesis by (cases k) auto
  qed
  with partition_regex_split[OF re] show ?thesis by (cases ord) auto
qed

theorem parse_partition_name_sound_witness:
  "(\<exists>body. ''events_20241002_000027.db'' = ''events_'' @ body @ ''.db'') \<and>
   (case Some 27 of None \<Rightarrow> True | Some k \<Rightarrow> 1 \<le> k \<and> k \<le> MAX_OVERFLOW_ORDINAL)"
proof (rule parse_partition_name_sound[OF sample_digit_law])
  show "parse_partition_name sample_digits gregorian ''events_20241002_000027.db'' = Ok (1727827200000, Some 27)"
    by code_simp
qed

text \<open>
  C40: the parser can panic. The pattern's digit class is Unicode's, but the captured date is then
  sliced at byte offsets: a name whose date is written with three-byte digits passes the pattern
  and panics in \<open>parse_date_components\<close> instead of being refused as an invalid partition.
\<close>

theorem parse_partition_name_panics:
  assumes "nd [CHR 0xE0, CHR 0xA5, CHR 0xA6]"
  shows "\<exists>m. parse_partition_name nd tc
    (''events_'' @ concat (replicate 8 [CHR 0xE0, CHR 0xA5, CHR 0xA6]) @ ''.db'') = Panic m"
proof -
  let ?d = "concat (replicate 8 [CHR 0xE0, CHR 0xA5, CHR 0xA6])"
  have "regex_digits nd n (concat (replicate n [CHR 0xE0, CHR 0xA5, CHR 0xA6]) @ r) =
      Some (concat (replicate n [CHR 0xE0, CHR 0xA5, CHR 0xA6]), r)" for n r
    using assms by (induction n) (simp_all add: utf8_width_def)
  from this[of 8 "''.db''"]
  have "partition_regex nd (''events_'' @ ?d @ ''.db'') = Some (?d, None, None)"
    by (simp add: partition_regex_def match_time_def match_tail_def del: concat.simps)
  moreover have "\<exists>m. parse_date_components ?d = Panic m"
  proof -
    have "?d ! 4 = CHR 0xA5" "length ?d = 24" by (simp_all add: eval_nat_numeral)
    then have "\<not> is_char_boundary ?d 4" by (simp add: is_char_boundary_def)
    then show ?thesis by (simp add: parse_date_components_def str_slice_def)
  qed
  ultimately show ?thesis by (auto simp: parse_partition_name_def)
qed

theorem parse_partition_name_panics_witness:
  "\<exists>m. parse_partition_name sample_digits gregorian
    (''events_'' @ concat (replicate 8 [CHR 0xE0, CHR 0xA5, CHR 0xA6]) @ ''.db'') = Panic m"
  by (rule parse_partition_name_panics) (simp add: sample_digits_def)

text \<open>
  A window below one millisecond panics. Nothing validates the rotation window of a policy,
  and the window start of any clock reading divides by its milliseconds.
\<close>

theorem zero_window_panics:
  assumes "as_millis (policy_window policy) = 0"
  shows "\<exists>m. should_rotate now_secs name policy fsize start = Panic m"
  using assms by (simp add: should_rotate_def floor_to_window_ms_def Let_def wrap64_def)

theorem zero_window_panics_witness:
  "\<exists>m. should_rotate 1727884801 ''events_20241002.db'' (TimeWindow (from_secs 0) None) 0 0 = Panic m"
  by (rule zero_window_panics) simp

text \<open>
  A window shorter than a minute gives two different window starts the same file name, so the
  rotation between them reuses the file that is already active.
\<close>

theorem short_windows_share_name:
  "generate_partition_name gregorian 1727872200000 (from_secs 30) None = Ok ''events_20241002T1230.db'' \<and>
   generate_partition_name gregorian 1727872230000 (from_secs 30) None = Ok ''events_20241002T1230.db'' \<and>
   floor_to_window_ms 1727872200000 (from_secs 30) = Ok 1727872200000 \<and>
   floor_to_window_ms 1727872230000 (from_secs 30) = Ok 1727872230000"
  by code_simp

text \<open>
  The rotation decision. With a usable window and a clock after the epoch, a rotation is due
  exactly when the clock's window is not the active file's window or the file has reached the
  configured size.
\<close>

theorem should_rotate_correct:
  assumes "0 \<le> now_secs" "in_i64 (now_secs * 1000)" "window_ok (policy_window policy)"
  shows "should_rotate now_secs name policy fsize start =
    Ok (\<not> (int (as_millis (policy_window policy)) dvd start \<and> start \<le> now_secs * 1000 \<and>
            now_secs * 1000 < start + int (as_millis (policy_window policy))) \<or>
        (case policy_max_bytes policy of None \<Rightarrow> False | Some mx \<Rightarrow> mx \<le> fsize))"
proof -
  let ?m = "int (as_millis (policy_window policy))" and ?now = "now_secs * 1000"
  have m: "0 < ?m" using assms(3) by (simp add: window_ok_def)
  have fl: "floor_to_window_ms ?now (policy_window policy) = Ok (?now div ?m * ?m)"
    using assms by (intro floor_to_window_nonneg) simp_all
  have "?now div ?m * ?m = start \<longleftrightarrow> ?m dvd start \<and> start \<le> ?now \<and> ?now < start + ?m"
  proof
    assume "?now div ?m * ?m = start"
    moreover have "?now div ?m * ?m + ?now mod ?m = ?now" by simp
    ultimately show "?m dvd start \<and> start \<le> ?now \<and> ?now < start + ?m"
      using pos_mod_sign[OF m, of ?now] pos_mod_bound[OF m, of ?now]
      by (metis add_le_cancel_left add_less_cancel_left add.right_neutral dvd_triv_right)
  next
    assume a: "?m dvd start \<and> start \<le> ?now \<and> ?now < start + ?m"
    then obtain k where k: "start = ?m * k" by blast
    have "?now div ?m = k"
      by (rule int_div_pos_eq[of _ _ _ "?now - start"]) (use a k in auto)
    with k show "?now div ?m * ?m = start" by simp
  qed
  then show ?thesis
    using assms(2) by (auto simp: should_rotate_def should_rotate_by_size_def fl split: option.splits)
qed

theorem should_rotate_correct_witness:
  "should_rotate 1727884801 ''events_20241002T16.db'' (TimeWindow (from_secs 3600) (Some 100)) 99 1727884800000 = Ok False"
  using should_rotate_correct[of 1727884801 "TimeWindow (from_secs 3600) (Some 100)"
      "''events_20241002T16.db''" 99 1727884800000]
  by (simp add: in_i64_def window_ok_def)

end
