(* ===== verification/Sql.thy ===== *)
theory Sql
  imports Errors
begin

section \<open>Rows, tables and transactions\<close>

text \<open>
  What the crate uses of its database: the values of a result row and the two checked column
  accessors, a table as the list of its rows, the effect of \<open>INSERT .. ON CONFLICT DO UPDATE\<close> on
  a table with a primary key, and the transaction state of a pooled connection. The database
  engine (turso) itself is third-party: the texts of its errors are the parameter \<open>turso_msgs\<close>,
  and every call that can fail takes its outcome from a fault function of the environment.
\<close>

datatype sql_value = Null | Integer int | Real | Text string | Blob

type_synonym sql_row = "sql_value list"

record turso_msgs =
  bad_column :: "nat \<Rightarrow> string"
  unique_violation :: "string \<Rightarrow> string"
  no_such_table :: "string \<Rightarrow> string"
  nested_transaction :: string
  table_exists :: "string \<Rightarrow> string"
  database_busy :: string

text \<open>Sample texts for witnesses.\<close>

definition quiet_msgs :: turso_msgs where
  "quiet_msgs =
     \<lparr>bad_column = (\<lambda>i. ''bad column''), unique_violation = (\<lambda>c. ''UNIQUE constraint failed: '' @ c),
      no_such_table = (\<lambda>t. ''no such table: '' @ t), nested_transaction = ''nested transaction'',
      table_exists = (\<lambda>t. ''table '' @ t @ '' already exists''), database_busy = ''database is locked''\<rparr>"

text \<open>The error, if any, that the environment makes a call report.\<close>

type_synonym 'c faults = "'c \<Rightarrow> es_error option"

fun as_text :: "sql_value \<Rightarrow> string option" where
  "as_text (Text s) = Some s"
| "as_text _ = None"

fun as_integer :: "sql_value \<Rightarrow> int option" where
  "as_integer (Integer i) = Some i"
| "as_integer _ = None"

definition get_value :: "turso_msgs \<Rightarrow> sql_row \<Rightarrow> nat \<Rightarrow> sql_value result" where
  "get_value tm row i = (if i < length row then Ok (row ! i) else Err (Db (bad_column tm i)))"

definition get_text_safe :: "turso_msgs \<Rightarrow> sql_row \<Rightarrow> nat \<Rightarrow> string result" where
  "get_text_safe tm row index =
     rbind (get_value tm row index) (\<lambda>v.
       ok_or (Migration (''Expected text value at column '' @ fmt_nat index)) (as_text v))"

definition get_integer_safe :: "turso_msgs \<Rightarrow> sql_row \<Rightarrow> nat \<Rightarrow> int result" where
  "get_integer_safe tm row index =
     rbind (get_value tm row index) (\<lambda>v.
       ok_or (Migration (''Expected integer value at column '' @ fmt_nat index)) (as_integer v))"

definition optional_text :: "turso_msgs \<Rightarrow> sql_row \<Rightarrow> nat \<Rightarrow> string option result" where
  "optional_text tm row index = rbind (get_value tm row index) (\<lambda>v. Ok (as_text v))"

definition opt_text :: "string option \<Rightarrow> sql_value" where
  "opt_text v = (case v of None \<Rightarrow> Null | Some s \<Rightarrow> Text s)"

definition opt_integer :: "int option \<Rightarrow> sql_value" where
  "opt_integer v = (case v of None \<Rightarrow> Null | Some i \<Rightarrow> Integer i)"

lemma as_text_opt_text [simp]: "as_text (opt_text v) = v"
  by (cases v) (simp_all add: opt_text_def)

lemma as_integer_opt_integer [simp]: "as_integer (opt_integer v) = v"
  by (cases v) (simp_all add: opt_integer_def)

lemma get_value_in [simp]: "i < length row \<Longrightarrow> get_value tm row i = Ok (row ! i)"
  by (simp add: get_value_def)

lemmas column_defs = get_text_safe_def get_integer_safe_def optional_text_def

subsection \<open>Tables with a primary key\<close>

text \<open>\<open>INSERT .. ON CONFLICT(key) DO UPDATE SET\<close> of every other column.\<close>

definition upsert_by :: "('r \<Rightarrow> 'k) \<Rightarrow> 'r \<Rightarrow> 'r list \<Rightarrow> 'r list" where
  "upsert_by key r t =
     (if key r \<in> key ` set t then map (\<lambda>x. if key x = key r then r else x) t else t @ [r])"

definition find_by :: "('r \<Rightarrow> 'k) \<Rightarrow> 'k \<Rightarrow> 'r list \<Rightarrow> 'r option" where
  "find_by key k t = List.find (\<lambda>x. key x = k) t"

text \<open>
  The contract of such a table: storing a row keeps the key unique, makes the row the one under
  its key, and leaves every other row alone.
\<close>

locale keyed_table =
  fixes key :: "'r \<Rightarrow> 'k"
    and put :: "'r \<Rightarrow> 'r list \<Rightarrow> 'r list"
  assumes put_rows: "distinct (map key t) \<Longrightarrow> set (put r t) = insert r {x \<in> set t. key x \<noteq> key r}"
    and put_distinct: "distinct (map key t) \<Longrightarrow> distinct (map key (put r t))"
begin

lemma find_iff: "distinct (map key t) \<Longrightarrow> find_by key k t = Some x \<longleftrightarrow> x \<in> set t \<and> key x = k"
  by (induction t) (auto simp: find_by_def image_iff)

lemma find_None: "find_by key k t = None \<longleftrightarrow> k \<notin> key ` set t"
  by (auto simp: find_by_def find_None_iff)

lemma find_put_same: "distinct (map key t) \<Longrightarrow> find_by key (key r) (put r t) = Some r"
  by (simp add: find_iff put_distinct put_rows)

lemma find_put_other:
  assumes "distinct (map key t)" "k \<noteq> key r"
  shows "find_by key k (put r t) = find_by key k t"
proof (cases "find_by key k t")
  case None
  with assms have "k \<notin> key ` set (put r t)" by (auto simp: find_None put_rows)
  then have "find_by key k (put r t) = None" by (simp only: find_None not_False_eq_True)
  with None show ?thesis by simp
next
  case (Some x)
  with find_iff[OF assms(1)] have "x \<in> set t" "key x = k" by auto
  with assms put_rows[OF assms(1)] find_iff[OF put_distinct[OF assms(1)]]
  have "find_by key k (put r t) = Some x" by auto
  with Some show ?thesis by simp
qed

end

lemma set_upsert_by:
  "set (upsert_by key r t) = insert r {x \<in> set t. key x \<noteq> key r}"
  by (auto simp: upsert_by_def image_iff)

lemma map_key_upsert_by:
  "map key (upsert_by key r t) = (if key r \<in> key ` set t then map key t else map key t @ [key r])"
  by (auto simp: upsert_by_def)

lemma keyed_table_upsert: "keyed_table key (upsert_by key)"
  by unfold_locales (auto simp: set_upsert_by map_key_upsert_by)

subsection \<open>Transactions\<close>

text \<open>
  A database as its one pooled connection sees it: the committed tables, and the working copy of
  an open transaction. Statements outside a transaction commit by themselves.
\<close>

record 't db =
  committed :: 't
  pending :: "'t option"

definition db_view :: "'t db \<Rightarrow> 't" where
  "db_view d = (case pending d of None \<Rightarrow> committed d | Some t \<Rightarrow> t)"

definition db_put :: "'t \<Rightarrow> 't db \<Rightarrow> 't db" where
  "db_put t d = (case pending d of None \<Rightarrow> d\<lparr>committed := t\<rparr> | Some _ \<Rightarrow> d\<lparr>pending := Some t\<rparr>)"

definition db_begin :: "turso_msgs \<Rightarrow> es_error option \<Rightarrow> 't db \<Rightarrow> unit result \<times> 't db" where
  "db_begin tm flt d =
     (case flt of
        Some e \<Rightarrow> (Err e, d)
      | None \<Rightarrow>
          (case pending d of
             Some _ \<Rightarrow> (Err (Db (nested_transaction tm)), d)
           | None \<Rightarrow> (Ok (), d\<lparr>pending := Some (committed d)\<rparr>)))"

definition db_commit :: "es_error option \<Rightarrow> 't db \<Rightarrow> unit result \<times> 't db" where
  "db_commit flt d =
     (case flt of Some e \<Rightarrow> (Err e, d) | None \<Rightarrow> (Ok (), \<lparr>committed = db_view d, pending = None\<rparr>))"

text \<open>\<open>let _ = conn.execute("ROLLBACK", ())\<close>: the outcome is ignored, the fault is not.\<close>

definition db_rollback :: "es_error option \<Rightarrow> 't db \<Rightarrow> 't db" where
  "db_rollback flt d = (case flt of Some e \<Rightarrow> d | None \<Rightarrow> d\<lparr>pending := None\<rparr>)"

definition idle :: "'t db \<Rightarrow> bool" where
  "idle d \<longleftrightarrow> pending d = None"

definition fresh_db :: "'t \<Rightarrow> 't db" where
  "fresh_db t = \<lparr>committed = t, pending = None\<rparr>"

lemma idle_simps [simp]:
  "idle (fresh_db t)" "idle d \<Longrightarrow> db_view d = committed d" "idle d \<Longrightarrow> db_put t d = d\<lparr>committed := t\<rparr>"
  by (simp_all add: idle_def fresh_db_def db_view_def db_put_def)

lemma idle_committed_update [simp]: "idle (d\<lparr>committed := t\<rparr>) = idle d"
  by (simp add: idle_def)

lemma committed_fresh_db [simp]: "committed (fresh_db t) = t"
  by (simp add: fresh_db_def)

end
