(* ===== verification/Catalog.thy ===== *)
theory Catalog
  imports Sql
begin

section \<open>The catalog of event file ranges (\<open>src/catalog.rs\<close>)\<close>

text \<open>
  The table \<open>event_file_ranges\<close> of a partition store's \<open>catalog.db\<close> and the statements that read
  and write it. A \<open>range_row\<close> is a row of the table; the code's \<open>EventFileRange\<close> is decoded from
  the columns in the order of the SELECT. \<open>cat_call\<close> names the calls that can report an error.
\<close>

record event_file_range =
  rng_name :: string
  rng_path :: string
  rng_first :: int
  rng_last :: "int option"
  rng_sealed :: bool

record range_row =
  col_name :: string
  col_path :: string
  col_first :: int
  col_last :: "int option"
  col_sealed :: int

type_synonym catalog = "range_row list db"

datatype cat_call =
    CatConnect | CatExecute | CatBegin | CatDelete | CatInsert nat | CatCommit | CatRollback | CatQuery | CatRows

definition range_to_row :: "event_file_range \<Rightarrow> range_row" where
  "range_to_row rg =
     \<lparr>col_name = rng_name rg, col_path = rng_path rg, col_first = rng_first rg,
      col_last = rng_last rg, col_sealed = (if rng_sealed rg then 1 else 0)\<rparr>"

subsection \<open>Writing\<close>

definition create_event_file_range ::
  "cat_call faults \<Rightarrow> event_file_range \<Rightarrow> catalog \<Rightarrow> unit result \<times> catalog" where
  "create_event_file_range flt rg cat =
     (case flt CatConnect of Some e \<Rightarrow> (Err e, cat)
      | None \<Rightarrow>
          (case flt CatExecute of Some e \<Rightarrow> (Err e, cat)
           | None \<Rightarrow> (Ok (), db_put (upsert_by col_name (range_to_row rg) (db_view cat)) cat)))"

definition seal_rows :: "string \<Rightarrow> int \<Rightarrow> range_row list \<Rightarrow> range_row list" where
  "seal_rows name last_version t =
     map (\<lambda>r. if col_name r = name then r\<lparr>col_sealed := 1, col_last := Some last_version\<rparr> else r) t"

definition seal_event_file_range ::
  "cat_call faults \<Rightarrow> string \<Rightarrow> int \<Rightarrow> catalog \<Rightarrow> unit result \<times> catalog" where
  "seal_event_file_range flt name last_version cat =
     (case flt CatConnect of Some e \<Rightarrow> (Err e, cat)
      | None \<Rightarrow>
          (case flt CatExecute of Some e \<Rightarrow> (Err e, cat)
           | None \<Rightarrow> (Ok (), db_put (seal_rows name last_version (db_view cat)) cat)))"

text \<open>The INSERT loop of \<open>replace_event_file_ranges\<close>: the primary key rejects a repeated name.\<close>

fun insert_ranges ::
  "turso_msgs \<Rightarrow> cat_call faults \<Rightarrow> nat \<Rightarrow> event_file_range list \<Rightarrow> range_row list \<Rightarrow> range_row list result" where
  "insert_ranges tm flt i [] t = Ok t"
| "insert_ranges tm flt i (rg # ranges) t =
     (case flt (CatInsert i) of Some e \<Rightarrow> Err e
      | None \<Rightarrow>
          if rng_name rg \<in> col_name ` set t
          then Err (Db (unique_violation tm ''event_file_ranges.name''))
          else insert_ranges tm flt (i + 1) ranges (t @ [range_to_row rg]))"

definition replace_event_file_ranges ::
  "turso_msgs \<Rightarrow> cat_call faults \<Rightarrow> event_file_range list \<Rightarrow> catalog \<Rightarrow> unit result \<times> catalog" where
  "replace_event_file_ranges tm flt ranges cat =
     (case flt CatConnect of Some e \<Rightarrow> (Err e, cat)
      | None \<Rightarrow>
      (case db_begin tm (flt CatBegin) cat of
         (Err e, cat) \<Rightarrow> (Err e, cat)
       | (Panic m, cat) \<Rightarrow> (Panic m, cat)
       | (Ok _, cat) \<Rightarrow>
      (case flt CatDelete of
         Some e \<Rightarrow> (Err e, db_rollback (flt CatRollback) cat)
       | None \<Rightarrow>
      (case insert_ranges tm flt 0 ranges [] of
         Err e \<Rightarrow> (Err e, db_rollback (flt CatRollback) cat)
       | Panic m \<Rightarrow> (Panic m, cat)
       | Ok t \<Rightarrow>
      (case db_commit (flt CatCommit) (db_put t cat) of
         (Err e, cat) \<Rightarrow> (Err e, db_rollback (flt CatRollback) cat)
       | (r, cat) \<Rightarrow> (r, cat))))))"

subsection \<open>Reading\<close>

definition range_columns :: "range_row \<Rightarrow> sql_row" where
  "range_columns r =
     [Text (col_name r), Text (col_path r), Integer (col_first r), opt_integer (col_last r), Integer (col_sealed r)]"

definition get_optional_integer :: "turso_msgs \<Rightarrow> sql_row \<Rightarrow> nat \<Rightarrow> int option result" where
  "get_optional_integer tm row index = rbind (get_value tm row index) (\<lambda>v. Ok (as_integer v))"

definition row_to_event_file_range :: "turso_msgs \<Rightarrow> sql_row \<Rightarrow> event_file_range result" where
  "row_to_event_file_range tm row =
     rbind (get_text_safe tm row 0) (\<lambda>name.
     rbind (get_text_safe tm row 1) (\<lambda>path.
     rbind (get_integer_safe tm row 2) (\<lambda>first_version.
     rbind (get_optional_integer tm row 3) (\<lambda>last_version.
     rbind (get_integer_safe tm row 4) (\<lambda>sealed.
     Ok \<lparr>rng_name = name, rng_path = path, rng_first = first_version, rng_last = last_version,
         rng_sealed = (sealed = 1)\<rparr>)))))"

definition collect_event_file_ranges_from_rows ::
  "turso_msgs \<Rightarrow> cat_call faults \<Rightarrow> sql_row list \<Rightarrow> event_file_range list result" where
  "collect_event_file_ranges_from_rows tm flt rows =
     (case flt CatRows of Some e \<Rightarrow> Err e | None \<Rightarrow> res_map (row_to_event_file_range tm) rows)"

definition order_rows :: "range_row list \<Rightarrow> range_row list" where
  "order_rows t = sort_key (\<lambda>r. (col_first r, col_name r)) t"

definition get_all_event_file_ranges ::
  "turso_msgs \<Rightarrow> cat_call faults \<Rightarrow> catalog \<Rightarrow> event_file_range list result" where
  "get_all_event_file_ranges tm flt cat =
     (case flt CatConnect of Some e \<Rightarrow> Err e
      | None \<Rightarrow>
      (case flt CatQuery of Some e \<Rightarrow> Err e
       | None \<Rightarrow>
           collect_event_file_ranges_from_rows tm flt (map range_columns (order_rows (db_view cat)))))"

definition get_event_file_ranges_after_version ::
  "turso_msgs \<Rightarrow> cat_call faults \<Rightarrow> int \<Rightarrow> catalog \<Rightarrow> event_file_range list result" where
  "get_event_file_ranges_after_version tm flt version cat =
     (case flt CatConnect of Some e \<Rightarrow> Err e
      | None \<Rightarrow>
      (case flt CatQuery of Some e \<Rightarrow> Err e
       | None \<Rightarrow>
           collect_event_file_ranges_from_rows tm flt
             (map range_columns (order_rows
               (filter (\<lambda>r. case col_last r of None \<Rightarrow> True | Some l \<Rightarrow> version < l) (db_view cat))))))"

subsection \<open>The table as a keyed table of ranges\<close>

definition row_to_range :: "range_row \<Rightarrow> event_file_range" where
  "row_to_range r =
     \<lparr>rng_name = col_name r, rng_path = col_path r, rng_first = col_first r, rng_last = col_last r,
      rng_sealed = (col_sealed r = 1)\<rparr>"

interpretation range_table: keyed_table col_name "upsert_by col_name"
  by (rule keyed_table_upsert)

lemma row_to_range_to_row [simp]: "row_to_range (range_to_row rg) = rg"
  by (simp add: row_to_range_def range_to_row_def)

lemma row_of_columns [simp]: "row_to_event_file_range tm (range_columns r) = Ok (row_to_range r)"
  by (simp add: row_to_event_file_range_def range_columns_def column_defs get_optional_integer_def
      row_to_range_def)

interpretation range_codec: codec "\<lambda>rg. range_columns (range_to_row rg)" "row_to_event_file_range tm" "\<lambda>_. True"
  for tm by unfold_locales simp

lemma collect_ranges:
  "flt CatRows = None \<Longrightarrow> collect_event_file_ranges_from_rows tm flt (map range_columns t) = Ok (map row_to_range t)"
proof -
  have "res_map (row_to_event_file_range tm) (map range_columns t) = Ok (map row_to_range t)"
    by (induction t) simp_all
  then show "flt CatRows = None \<Longrightarrow> ?thesis" by (simp add: collect_event_file_ranges_from_rows_def)
qed

definition cat_ranges :: "catalog \<Rightarrow> event_file_range list" where
  "cat_ranges cat = map row_to_range (order_rows (db_view cat))"

lemma get_all_Ok:
  "(\<And>c. flt c = None) \<Longrightarrow> get_all_event_file_ranges tm flt cat = Ok (cat_ranges cat)"
  by (simp add: get_all_event_file_ranges_def collect_ranges cat_ranges_def)

lemma order_rows_filter: "order_rows (filter P t) = filter P (order_rows t)"
  unfolding order_rows_def by (rule filter_sort [symmetric])

lemma get_after_Ok:
  "(\<And>c. flt c = None) \<Longrightarrow> get_event_file_ranges_after_version tm flt v cat =
     Ok (filter (\<lambda>r. case rng_last r of None \<Rightarrow> True | Some l \<Rightarrow> v < l) (cat_ranges cat))"
  by (simp add: get_event_file_ranges_after_version_def collect_ranges cat_ranges_def order_rows_filter
      filter_map comp_def row_to_range_def)

lemma insert_ranges_spec:
  "insert_ranges tm flt i ranges t = Ok t' \<Longrightarrow>
     t' = t @ map range_to_row ranges \<and> (distinct (map col_name t) \<longrightarrow> distinct (map col_name t'))"
  by (induction ranges arbitrary: i t)
    (fastforce simp: range_to_row_def split: option.splits if_splits)+

lemma insert_ranges_Ok:
  "(\<And>c. flt c = None) \<Longrightarrow> distinct (map col_name t @ map rng_name ranges) \<Longrightarrow>
     insert_ranges tm flt i ranges t = Ok (t @ map range_to_row ranges)"
proof (induction ranges arbitrary: i t)
  case (Cons r rs)
  then have "distinct (map col_name (t @ [range_to_row r]) @ map rng_name rs)"
    by (auto simp: range_to_row_def)
  with Cons show ?case by (auto simp: image_iff)
qed simp

end
