(* ===== verification/EventTypes.thy ===== *)
theory EventTypes
  imports Actor Labels Sql TimeCrate
begin

section \<open>Events, versions and their stored rows (\<open>src/event_stream.rs\<close>)\<close>

text \<open>
  The public types of the event stream, the checks on them, and the translation of an event
  between its envelope and its row of the table \<open>events\<close>. The JSON values, UUIDs and time stamps
  belong to third-party crates: they are type variables, and \<open>text_crates\<close> is the record of the
  functions of serde_json and uuid that the code calls on them.
\<close>

record ('j, 'u) text_crates =
  json_to_string :: "'j \<Rightarrow> (string, string) res"
  json_from_str :: "string \<Rightarrow> (string, 'j) res"
  uuid_to_string :: "'u \<Rightarrow> string"
  uuid_parse_str :: "string \<Rightarrow> (string, 'u) res"

text \<open>A UUID's text parses back; a payload is readable when its JSON text parses back.\<close>

definition uuid_law :: "('j, 'u) text_crates \<Rightarrow> bool" where
  "uuid_law cr \<longleftrightarrow> (\<forall>u. uuid_parse_str cr (uuid_to_string cr u) = Ok u)"

definition readable :: "('j, 'u) text_crates \<Rightarrow> 'j \<Rightarrow> bool" where
  "readable cr j \<longleftrightarrow> (case json_to_string cr j of Ok s \<Rightarrow> json_from_str cr s = Ok j | _ \<Rightarrow> False)"

definition MAX_READ_LIMIT :: nat where
  "MAX_READ_LIMIT = 10000"

definition MAX_PAYLOAD_BYTES :: nat where
  "MAX_PAYLOAD_BYTES = 1024 * 1024"

subsection \<open>Versions\<close>

datatype event_stream_version = EventStreamVersion (version_get: int)

instantiation event_stream_version :: linorder
begin
definition less_eq_event_stream_version :: "event_stream_version \<Rightarrow> event_stream_version \<Rightarrow> bool" where
  "less_eq_event_stream_version a b \<longleftrightarrow> version_get a \<le> version_get b"
definition less_event_stream_version :: "event_stream_version \<Rightarrow> event_stream_version \<Rightarrow> bool" where
  "less_event_stream_version a b \<longleftrightarrow> version_get a < version_get b"
instance
  by standard (auto simp: less_eq_event_stream_version_def less_event_stream_version_def
      intro: event_stream_version.expand)
end

lemmas version_order_simps = less_eq_event_stream_version_def less_event_stream_version_def

definition version_start :: event_stream_version where
  "version_start = EventStreamVersion 0"

definition version_new :: "int \<Rightarrow> event_stream_version result" where
  "version_new v =
     (if v \<le> 0 then Err (InvalidVersion (''event stream versions must be positive, got '' @ fmt_int v))
      else Ok (EventStreamVersion v))"

definition is_start :: "event_stream_version \<Rightarrow> bool" where
  "is_start v \<longleftrightarrow> version_get v = 0"

definition version_display :: "event_stream_version \<Rightarrow> string" where
  "version_display v = fmt_int (version_get v)"

interpretation version_codec: codec version_get version_new "\<lambda>v. 0 < version_get v"
  by unfold_locales (auto simp: version_new_def)

lemma version_new_Ok [res_simps]: "version_new v = Ok x \<longleftrightarrow> 0 < v \<and> x = EventStreamVersion v"
  by (auto simp: version_new_def)

subsection \<open>Events\<close>

datatype 'u workflow_ref = WorkflowNone | StartsThisWorkflow | Continues 'u

record ('j, 'u) new_event =
  ne_type :: string
  ne_payload :: 'j
  ne_workflow_kind :: "string option"
  ne_workflow :: "'u workflow_ref"
  ne_request_id :: "string option"
  ne_actor_id :: string
  ne_actor_type :: actor_type

record ('j, 'u, 'dt) envelope =
  env_id :: 'u
  env_type :: string
  env_payload :: 'j
  env_version :: event_stream_version
  env_created_at :: 'dt
  env_sequence :: int
  env_workflow_kind :: "string option"
  env_workflow_started_by :: "'u option"
  env_trace_id :: "string option"
  env_span_id :: "string option"
  env_request_id :: "string option"
  env_actor_id :: string
  env_actor_type :: actor_type

datatype expected_version = NoStream | AnyVersion | Exact event_stream_version

record ('j, 'u, 'dt) append_result =
  res_first_version :: event_stream_version
  res_last_version :: event_stream_version
  res_events :: "('j, 'u, 'dt) envelope list"

subsection \<open>Checks\<close>

definition validate_workflow :: "('j, 'u) new_event \<Rightarrow> unit result" where
  "validate_workflow event =
     (case (ne_workflow event, ne_workflow_kind event) of
        (WorkflowNone, None) \<Rightarrow> Ok ()
      | (WorkflowNone, Some _) \<Rightarrow>
          Err (InvalidWorkflowMetadata ''workflow_kind must be None when workflow is None'')
      | (_, Some kind) \<Rightarrow> validate_safe_label ''workflow_kind'' kind
      | (_, None) \<Rightarrow> Err (InvalidWorkflowMetadata ''workflow_kind is required when workflow is set''))"

fun validate_events :: "('j, 'u) text_crates \<Rightarrow> nat \<Rightarrow> ('j, 'u) new_event list \<Rightarrow> unit result" where
  "validate_events cr max_payload_bytes [] = Ok ()"
| "validate_events cr max_payload_bytes (event # events) =
     rbind (map_err Serde (json_to_string cr (ne_payload event))) (\<lambda>payload_str.
     if max_payload_bytes < length payload_str
     then Err (PayloadTooLarge (length payload_str) max_payload_bytes)
     else rbind (validate_workflow event) (\<lambda>_. validate_events cr max_payload_bytes events))"

definition validate_read_limit :: "nat \<Rightarrow> unit result" where
  "validate_read_limit limit =
     (if limit = 0 \<or> MAX_READ_LIMIT < limit then Err (InvalidReadLimit limit MAX_READ_LIMIT) else Ok ())"

definition validate_expected_version_against :: "expected_version \<Rightarrow> int \<Rightarrow> int result" where
  "validate_expected_version_against expected current_version =
     (case expected of
        NoStream \<Rightarrow>
          (if current_version \<noteq> 0 then Err (IncorrectEventVersion 0 current_version) else Ok current_version)
      | Exact version \<Rightarrow>
          (if is_start version
           then Err (InvalidVersion ''ExpectedVersion::Exact cannot use EventStreamVersion::start()'')
           else if version_get version \<noteq> current_version
           then Err (IncorrectEventVersion (version_get version) current_version)
           else Ok current_version)
      | AnyVersion \<Rightarrow> Ok current_version)"

subsection \<open>Rows\<close>

text \<open>A row of the table \<open>events\<close>; the columns are the SELECT list of both queries.\<close>

record event_row =
  ev_id :: string
  ev_type :: string
  ev_payload :: string
  ev_version :: int
  ev_created_at :: int
  ev_sequence :: int
  ev_workflow_kind :: "string option"
  ev_workflow_started_by :: "string option"
  ev_trace_id :: "string option"
  ev_span_id :: "string option"
  ev_request_id :: "string option"
  ev_actor_id :: string
  ev_actor_type :: string

definition event_columns :: "event_row \<Rightarrow> sql_row" where
  "event_columns r =
     [Text (ev_id r), Text (ev_type r), Text (ev_payload r), Integer (ev_version r),
      Integer (ev_created_at r), Integer (ev_sequence r), opt_text (ev_workflow_kind r),
      opt_text (ev_workflow_started_by r), opt_text (ev_trace_id r), opt_text (ev_span_id r),
      opt_text (ev_request_id r), Text (ev_actor_id r), Text (ev_actor_type r)]"

text \<open>The parameters of the INSERT statement, with the payload serialised.\<close>

definition row_of_envelope ::
  "('j, 'u) text_crates \<Rightarrow> ('date, 'dt) time_crate \<Rightarrow> ('j, 'u, 'dt) envelope \<Rightarrow> event_row result" where
  "row_of_envelope cr tc e =
     rbind (map_err Serde (json_to_string cr (env_payload e))) (\<lambda>payload.
     Ok \<lparr>ev_id = uuid_to_string cr (env_id e), ev_type = env_type e, ev_payload = payload,
         ev_version = version_get (env_version e),
         ev_created_at = wrap64 (tc_nanos tc (env_created_at e) sdiv 1000000),
         ev_sequence = env_sequence e, ev_workflow_kind = env_workflow_kind e,
         ev_workflow_started_by = map_option (uuid_to_string cr) (env_workflow_started_by e),
         ev_trace_id = env_trace_id e, ev_span_id = env_span_id e, ev_request_id = env_request_id e,
         ev_actor_id = env_actor_id e, ev_actor_type = as_str (env_actor_type e)\<rparr>)"

definition event_from_row ::
  "turso_msgs \<Rightarrow> ('j, 'u) text_crates \<Rightarrow> ('date, 'dt) time_crate \<Rightarrow> sql_row \<Rightarrow> ('j, 'u, 'dt) envelope result" where
  "event_from_row tm cr tc row =
     rbind (get_text_safe tm row 0) (\<lambda>id_text.
     rbind (map_err Uuid (uuid_parse_str cr id_text)) (\<lambda>id.
     rbind (get_text_safe tm row 2) (\<lambda>payload_text.
     rbind (map_err Serde (json_from_str cr payload_text)) (\<lambda>payload.
     rbind (get_integer_safe tm row 4) (\<lambda>created_at_ms.
     rbind (optional_text tm row 7) (\<lambda>started_text.
     rbind (transpose_res (map_option (\<lambda>v. map_err Uuid (uuid_parse_str cr v)) started_text)) (\<lambda>started.
     rbind (get_text_safe tm row 12) (\<lambda>actor_type_str.
     rbind (map_err (\<lambda>e. Migration (''Invalid actor_type '' @ [CHR 0x27] @ actor_type_str @ [CHR 0x27] @ '': '' @ parse_error_display e))
              (actor_from_str actor_type_str)) (\<lambda>actor_type.
     rbind (get_text_safe tm row 1) (\<lambda>type.
     rbind (get_integer_safe tm row 3) (\<lambda>version_int.
     rbind (version_new version_int) (\<lambda>version.
     rbind (ok_or (Time (tc_range_error tc)) (tc_from_nanos tc (created_at_ms * 1000000))) (\<lambda>created_at.
     rbind (get_integer_safe tm row 5) (\<lambda>sequence.
     rbind (optional_text tm row 6) (\<lambda>workflow_kind.
     rbind (optional_text tm row 8) (\<lambda>trace_id.
     rbind (optional_text tm row 9) (\<lambda>span_id.
     rbind (optional_text tm row 10) (\<lambda>request_id.
     rbind (get_text_safe tm row 11) (\<lambda>actor_id.
     Ok \<lparr>env_id = id, env_type = type, env_payload = payload, env_version = version,
         env_created_at = created_at, env_sequence = sequence, env_workflow_kind = workflow_kind,
         env_workflow_started_by = started, env_trace_id = trace_id, env_span_id = span_id,
         env_request_id = request_id, env_actor_id = actor_id, env_actor_type = actor_type\<rparr>)))))))))))))))))))"

subsection \<open>Properties\<close>

lemma validate_read_limit_Ok [res_simps]:
  "validate_read_limit n = Ok u \<longleftrightarrow> 1 \<le> n \<and> n \<le> MAX_READ_LIMIT"
  by (auto simp: validate_read_limit_def)

lemma validate_expected_Ok:
  "validate_expected_version_against ex cur = Ok v \<longleftrightarrow>
     v = cur \<and> (case ex of NoStream \<Rightarrow> cur = 0 | AnyVersion \<Rightarrow> True
              | Exact w \<Rightarrow> version_get w \<noteq> 0 \<and> version_get w = cur)"
  by (auto simp: validate_expected_version_against_def is_start_def split: expected_version.splits)

definition workflow_shape :: "('j, 'u) new_event \<Rightarrow> bool" where
  "workflow_shape e =
     (case ne_workflow_kind e of
        None \<Rightarrow> ne_workflow e = WorkflowNone
      | Some kind \<Rightarrow> ne_workflow e \<noteq> WorkflowNone \<and> safe_label kind)"

lemma validate_workflow_Ok: "validate_workflow e = Ok u \<longleftrightarrow> workflow_shape e"
  by (auto simp: validate_workflow_def workflow_shape_def validate_safe_label_Ok
      split: workflow_ref.splits option.splits)

text \<open>
  The append's input check. It accepts a list of events exactly when every payload serialises
  to at most the limit and every event has a workflow kind if and only if it belongs to a
  workflow, the kind being a safe label.
\<close>

theorem validate_events_correct:
  "validate_events cr mx es = Ok () \<longleftrightarrow>
     list_all (\<lambda>e. (case json_to_string cr (ne_payload e) of Ok s \<Rightarrow> length s \<le> mx | _ \<Rightarrow> False) \<and>
       workflow_shape e) es"
  by (induction es)
    (auto simp: res_simps validate_workflow_Ok not_less split: res.splits if_splits)

text \<open>
  The optimistic concurrency check. \<open>NoStream\<close> passes only on an empty stream, \<open>Exact\<close> only
  at the current version and never with the start sentinel, \<open>Any\<close> always; a mismatch reports the
  expected and the actual version.
\<close>

theorem validate_expected_version_correct:
  "(validate_expected_version_against ex cur = Ok v \<longleftrightarrow>
      v = cur \<and> (ex = AnyVersion \<or> (ex = NoStream \<and> cur = 0) \<or>
        (cur \<noteq> 0 \<and> ex = Exact (EventStreamVersion cur)))) \<and>
   (validate_expected_version_against ex cur = Err (IncorrectEventVersion e a) \<longleftrightarrow>
      a = cur \<and> e \<noteq> cur \<and> ((ex = NoStream \<and> e = 0) \<or> (e \<noteq> 0 \<and> ex = Exact (EventStreamVersion e))))"
  by (cases ex; cases "case ex of Exact w \<Rightarrow> w | _ \<Rightarrow> version_start")
    (auto simp: validate_expected_version_against_def is_start_def version_start_def)

definition storable :: "('j, 'u) text_crates \<Rightarrow> ('date, 'dt) time_crate \<Rightarrow> ('j, 'u, 'dt) envelope \<Rightarrow> bool" where
  "storable cr tc e \<longleftrightarrow>
     readable cr (env_payload e) \<and> 0 < version_get (env_version e) \<and>
     (let ms = tc_nanos tc (env_created_at e) div 1000000
      in in_i64 ms \<and> tc_from_nanos tc (ms * 1000000) = Some (env_created_at e))"

lemma sdiv_ms: "(ms * 1000000) sdiv 1000000 = (ms::int)"
  by (simp add: signed_divide_int_def abs_mult sgn_mult mult_sgn_abs)

lemma row_decodes:
  assumes "uuid_law cr" "time_crate_laws tc" "storable cr tc e" "row_of_envelope cr tc e = Ok r"
  shows "event_from_row tm cr tc (event_columns r) = Ok e"
proof -
  obtain s where s: "json_to_string cr (env_payload e) = Ok s" "json_from_str cr s = Ok (env_payload e)"
    using assms(3) by (auto simp: storable_def readable_def split: res.splits)
  define ms where "ms = tc_nanos tc (env_created_at e) div 1000000"
  have ms: "in_i64 ms" "tc_from_nanos tc (ms * 1000000) = Some (env_created_at e)"
    using assms(3) by (auto simp: storable_def Let_def ms_def)
  then have "tc_nanos tc (env_created_at e) = ms * 1000000"
    using assms(2) unfolding time_crate_laws_def clock_law_def by blast
  with ms have created: "wrap64 (tc_nanos tc (env_created_at e) sdiv 1000000) = ms"
    by (simp add: sdiv_ms)
  have "transpose_res (map_option (\<lambda>v. map_err Uuid (uuid_parse_str cr v))
      (map_option (uuid_to_string cr) x)) = Ok x" for x
    using assms(1) by (cases x) (auto simp: uuid_law_def)
  moreover have "version_new (version_get (env_version e)) = Ok (env_version e)"
    using assms(3) by (intro version_codec.dec_enc) (simp add: storable_def)
  ultimately show ?thesis
    using assms(1,4) s ms(2) created
    by (auto simp: row_of_envelope_def event_from_row_def event_columns_def column_defs uuid_law_def
        actor_text.dec_enc)
qed

text \<open>
  C36: what an append stores a read returns. The row written for an envelope decodes, column by
  column, to the same envelope, for a payload whose JSON text parses back and a time stamp of
  whole milliseconds, which is what an append uses.
\<close>

theorem event_row_roundtrip:
  assumes "uuid_law cr" "time_crate_laws tc" "storable cr tc e" "row_of_envelope cr tc e = Ok r"
  shows "event_from_row tm cr tc (event_columns r) = Ok e"
  by (rule row_decodes[OF assms])

text \<open>Sample text crates for witnesses: JSON texts and UUIDs stand for themselves.\<close>

definition sample_crates :: "(string, string) text_crates" where
  "sample_crates = \<lparr>json_to_string = Ok, json_from_str = Ok, uuid_to_string = (\<lambda>u. u), uuid_parse_str = Ok\<rparr>"

definition sample_envelope :: "(string, string, int) envelope" where
  "sample_envelope =
     \<lparr>env_id = ''id-1'', env_type = ''UserCreated'', env_payload = ''{}'', env_version = EventStreamVersion 1,
      env_created_at = 1727884801234000000, env_sequence = 1, env_workflow_kind = Some ''signup'',
      env_workflow_started_by = Some ''id-1'', env_trace_id = None, env_span_id = None,
      env_request_id = Some ''req'', env_actor_id = ''user_1'', env_actor_type = ApiKey\<rparr>"

theorem event_row_roundtrip_witness:
  "\<exists>r. row_of_envelope sample_crates gregorian sample_envelope = Ok r \<and>
     event_from_row quiet_msgs sample_crates gregorian (event_columns r) = Ok sample_envelope"
proof -
  have u: "uuid_law sample_crates" by (simp add: uuid_law_def sample_crates_def)
  have st: "storable sample_crates gregorian sample_envelope" by code_simp
  obtain r where r: "row_of_envelope sample_crates gregorian sample_envelope = Ok r"
    by (simp add: row_of_envelope_def sample_crates_def)
  from event_row_roundtrip[OF u gregorian_laws st r] r show ?thesis by blast
qed

end
