(* ===== verification/MigrationRun.thy ===== *)
theory MigrationRun
  imports Sql
begin

section \<open>Schema migrations (\<open>src/migration.rs\<close>)\<close>

text \<open>
  The runner that brings a database's schema up to date. A database is its table \<open>_migrations\<close>
  (\<open>None\<close> before it is created) and the tables the migrations themselves create. The SHA-256 hex
  digest of a migration's SQL (\<open>digest\<close>) and the execution of its statements (\<open>batch\<close>) are
  parameters: the first is a third-party crate, the second the database engine, which returns its
  outcome and the tables it leaves, a batch that fails half-way included.
\<close>

record 'sql migration =
  mg_name :: string
  mg_sql :: 'sql

record mig_row =
  mr_name :: string
  mr_checksum :: string
  mr_applied_at :: int

record 'd schema_db =
  migrations_table :: "mig_row list option"
  tables :: 'd

datatype mig_call = MigEnsure | MigLoad | MigRecord nat

type_synonym 'sql runner = "'sql migration list"

definition runner_new :: "'sql runner" where
  "runner_new = []"

definition with_migration :: "'sql migration \<Rightarrow> 'sql runner \<Rightarrow> 'sql runner" where
  "with_migration m r = r @ [m]"

definition ensure_migrations_table ::
  "mig_call faults \<Rightarrow> 'd schema_db \<Rightarrow> unit result \<times> 'd schema_db" where
  "ensure_migrations_table flt s =
     (case flt MigEnsure of
        Some e \<Rightarrow> (Err e, s)
      | None \<Rightarrow> (Ok (), s\<lparr>migrations_table :=
          Some (case migrations_table s of None \<Rightarrow> [] | Some t \<Rightarrow> t)\<rparr>))"

definition parse_migration_row :: "turso_msgs \<Rightarrow> sql_row \<Rightarrow> (string \<times> string) result" where
  "parse_migration_row tm row =
     rbind (get_value tm row 0) (\<lambda>v.
     rbind (ok_or (Migration ''Expected text value for migration name'') (as_text v)) (\<lambda>name.
     rbind (get_value tm row 1) (\<lambda>v.
     rbind (ok_or (Migration ''Expected text value for migration checksum'') (as_text v)) (\<lambda>checksum.
     Ok (name, checksum)))))"

text \<open>The rows in the order of their id; a later row of the same name overwrites an earlier one.\<close>

fun collect_applied ::
  "turso_msgs \<Rightarrow> sql_row list \<Rightarrow> (string \<rightharpoonup> string) \<Rightarrow> (string \<rightharpoonup> string) result" where
  "collect_applied tm [] applied = Ok applied"
| "collect_applied tm (row # rows) applied =
     rbind (parse_migration_row tm row) (\<lambda>(name, checksum).
     collect_applied tm rows (applied(name \<mapsto> checksum)))"

definition load_applied_migrations ::
  "turso_msgs \<Rightarrow> mig_call faults \<Rightarrow> 'd schema_db \<Rightarrow> (string \<rightharpoonup> string) result" where
  "load_applied_migrations tm flt s =
     (case flt MigLoad of
        Some e \<Rightarrow> Err e
      | None \<Rightarrow>
          (case migrations_table s of
             None \<Rightarrow> Err (Db (no_such_table tm ''_migrations''))
           | Some t \<Rightarrow> collect_applied tm (map (\<lambda>r. [Text (mr_name r), Text (mr_checksum r)]) t) Map.empty))"

definition verify_migration_checksum :: "'sql migration \<Rightarrow> string \<Rightarrow> string \<Rightarrow> unit result" where
  "verify_migration_checksum m applied_checksum expected_checksum =
     (if applied_checksum \<noteq> expected_checksum
      then Err (Migration (''Migration '' @ mg_name m @ '' has changed checksum. Expected: '' @
             expected_checksum @ '', Applied: '' @ applied_checksum))
      else Ok ())"

text \<open>
  The batch and the INSERT of its record are two separate statements; \<open>now\<close> is the wall clock.
\<close>

definition apply_migration ::
  "turso_msgs \<Rightarrow> ('sql \<Rightarrow> 'd \<Rightarrow> unit result \<times> 'd) \<Rightarrow> mig_call faults \<Rightarrow> nat \<Rightarrow> int \<Rightarrow> 'sql migration \<Rightarrow> string
     \<Rightarrow> 'd schema_db \<Rightarrow> unit result \<times> 'd schema_db" where
  "apply_migration tm batch flt i now m checksum s =
     (case batch (mg_sql m) (tables s) of
        (Err e, t) \<Rightarrow> (Err e, s\<lparr>tables := t\<rparr>)
      | (Panic p, t) \<Rightarrow> (Panic p, s\<lparr>tables := t\<rparr>)
      | (Ok _, t) \<Rightarrow>
      (let s = s\<lparr>tables := t\<rparr> in
       case flt (MigRecord i) of
         Some e \<Rightarrow> (Err e, s)
       | None \<Rightarrow>
      (case migrations_table s of
         None \<Rightarrow> (Err (Db (no_such_table tm ''_migrations'')), s)
       | Some rows \<Rightarrow>
           if mg_name m \<in> mr_name ` set rows
           then (Err (Db (unique_violation tm ''_migrations.name'')), s)
           else (Ok (), s\<lparr>migrations_table :=
                   Some (rows @ [\<lparr>mr_name = mg_name m, mr_checksum = checksum, mr_applied_at = now\<rparr>])\<rparr>))))"

fun run_pending_migrations ::
  "turso_msgs \<Rightarrow> ('sql \<Rightarrow> string) \<Rightarrow> ('sql \<Rightarrow> 'd \<Rightarrow> unit result \<times> 'd) \<Rightarrow> mig_call faults \<Rightarrow> int \<Rightarrow> (string \<rightharpoonup> string) \<Rightarrow> nat
     \<Rightarrow> 'sql migration list \<Rightarrow> 'd schema_db \<Rightarrow> unit result \<times> 'd schema_db" where
  "run_pending_migrations tm digest batch flt now applied i [] s = (Ok (), s)"
| "run_pending_migrations tm digest batch flt now applied i (m # ms) s =
     (case applied (mg_name m) of
        Some applied_checksum \<Rightarrow>
          (case verify_migration_checksum m applied_checksum (digest (mg_sql m)) of
             Ok _ \<Rightarrow> run_pending_migrations tm digest batch flt now applied (i + 1) ms s
           | r \<Rightarrow> (r, s))
      | None \<Rightarrow>
          (case apply_migration tm batch flt i now m (digest (mg_sql m)) s of
             (Ok _, s) \<Rightarrow> run_pending_migrations tm digest batch flt now applied (i + 1) ms s
           | (r, s) \<Rightarrow> (r, s)))"

definition run_migrations ::
  "turso_msgs \<Rightarrow> ('sql \<Rightarrow> string) \<Rightarrow> ('sql \<Rightarrow> 'd \<Rightarrow> unit result \<times> 'd) \<Rightarrow> mig_call faults \<Rightarrow> int \<Rightarrow> 'sql runner
     \<Rightarrow> 'd schema_db \<Rightarrow> unit result \<times> 'd schema_db" where
  "run_migrations tm digest batch flt now r s =
     (case ensure_migrations_table flt s of
        (Ok _, s) \<Rightarrow>
          (case load_applied_migrations tm flt s of
             Ok applied \<Rightarrow> run_pending_migrations tm digest batch flt now applied 0 r s
           | Err e \<Rightarrow> (Err e, s)
           | Panic p \<Rightarrow> (Panic p, s))
      | (r, s) \<Rightarrow> (r, s))"

subsection \<open>The migrations of the crate\<close>

text \<open>The SQL texts of the two schemas: that of an event file and that of the catalog.\<close>

datatype event_file_sql = EventFileSchema

datatype catalog_sql = CatalogSchema

definition partition_migrations :: "event_file_sql runner" where
  "partition_migrations =
     with_migration \<lparr>mg_name = ''001_event_file_schema'', mg_sql = EventFileSchema\<rparr> runner_new"

definition catalog_migrations :: "catalog_sql runner" where
  "catalog_migrations =
     with_migration \<lparr>mg_name = ''001_catalog_schema'', mg_sql = CatalogSchema\<rparr> runner_new"

subsection \<open>What is recorded\<close>

definition applied_map :: "'d schema_db \<Rightarrow> string \<rightharpoonup> string" where
  "applied_map s =
     (case migrations_table s of None \<Rightarrow> Map.empty
      | Some t \<Rightarrow> map_of (rev (map (\<lambda>r. (mr_name r, mr_checksum r)) t)))"

lemma collect_applied_rows:
  "collect_applied tm (map (\<lambda>r. [Text (mr_name r), Text (mr_checksum r)]) t) m =
     Ok (m ++ map_of (rev (map (\<lambda>r. (mr_name r, mr_checksum r)) t)))"
  by (induction t arbitrary: m) (simp_all add: parse_migration_row_def)

lemma load_applied_Ok:
  "flt MigLoad = None \<Longrightarrow> migrations_table s = Some t \<Longrightarrow> load_applied_migrations tm flt s = Ok (applied_map s)"
  by (simp add: load_applied_migrations_def collect_applied_rows applied_map_def)

definition up_to_date :: "('sql \<Rightarrow> string) \<Rightarrow> 'sql runner \<Rightarrow> 'd schema_db \<Rightarrow> bool" where
  "up_to_date digest r s \<longleftrightarrow>
     migrations_table s \<noteq> None \<and> list_all (\<lambda>m. applied_map s (mg_name m) = Some (digest (mg_sql m))) r"

lemma run_pending_applied:
  "list_all (\<lambda>m. applied (mg_name m) = Some (digest (mg_sql m))) ms \<Longrightarrow>
     run_pending_migrations tm digest batch flt now applied i ms s = (Ok (), s)"
  by (induction ms arbitrary: i) (auto simp: verify_migration_checksum_def)

lemma run_pending_append:
  "list_all (\<lambda>m. applied (mg_name m) = Some (digest (mg_sql m))) r \<Longrightarrow>
     run_pending_migrations tm digest batch flt now applied i (r @ ms) s =
     run_pending_migrations tm digest batch flt now applied (i + length r) ms s"
  by (induction r arbitrary: i) (auto simp: verify_migration_checksum_def)

lemma apply_migration_Ok:
  assumes "apply_migration tm batch flt i now m c s = (Ok u, s')"
  obtains rows t where "migrations_table s = Some rows" "batch (mg_sql m) (tables s) = (Ok (), t)"
    "mg_name m \<notin> mr_name ` set rows"
    "s' = \<lparr>migrations_table = Some (rows @ [\<lparr>mr_name = mg_name m, mr_checksum = c, mr_applied_at = now\<rparr>]), tables = t\<rparr>"
proof -
  from assms obtain rows t where *: "migrations_table s = Some rows" "batch (mg_sql m) (tables s) = (Ok (), t)"
    "mg_name m \<notin> mr_name ` set rows"
    "s' = s\<lparr>tables := t, migrations_table := Some (rows @ [\<lparr>mr_name = mg_name m, mr_checksum = c, mr_applied_at = now\<rparr>])\<rparr>"
    by (auto simp: apply_migration_def Let_def split: prod.splits option.splits res.splits if_splits)
  then have "s' = \<lparr>migrations_table = Some (rows @ [\<lparr>mr_name = mg_name m, mr_checksum = c, mr_applied_at = now\<rparr>]), tables = t\<rparr>"
    by (cases s) simp
  with * that show ?thesis by blast
qed

lemma applied_map_snoc:
  "applied_map \<lparr>migrations_table = Some (rows @ [\<lparr>mr_name = n, mr_checksum = c, mr_applied_at = now\<rparr>]), tables = t\<rparr> =
     (applied_map \<lparr>migrations_table = Some rows, tables = t'\<rparr>)(n \<mapsto> c)"
  by (simp add: applied_map_def)

lemma applied_map_tables: "applied_map (s\<lparr>tables := t\<rparr>) = applied_map s"
  by (simp add: applied_map_def)

lemma run_pending_up_to_date:
  assumes "run_pending_migrations tm digest batch flt now applied i ms s = (Ok u, s')"
    and "migrations_table s \<noteq> None" and "applied \<subseteq>\<^sub>m applied_map s"
  shows "migrations_table s' \<noteq> None \<and> applied_map s \<subseteq>\<^sub>m applied_map s' \<and>
    (\<forall>m \<in> set ms. applied_map s' (mg_name m) = Some (digest (mg_sql m)))"
  using assms
proof (induction ms arbitrary: i s)
  case (Cons m ms)
  show ?case
  proof (cases "applied (mg_name m)")
    case None
    then obtain s1 where ap: "apply_migration tm batch flt i now m (digest (mg_sql m)) s = (Ok (), s1)"
      and run: "run_pending_migrations tm digest batch flt now applied (i + 1) ms s1 = (Ok u, s')"
      using Cons.prems(1) by (auto split: prod.splits res.splits)
    obtain rows t where rows: "migrations_table s = Some rows" and fresh: "mg_name m \<notin> mr_name ` set rows"
      and s1: "s1 = \<lparr>migrations_table = Some (rows @ [\<lparr>mr_name = mg_name m, mr_checksum = digest (mg_sql m), mr_applied_at = now\<rparr>]), tables = t\<rparr>"
      by (rule apply_migration_Ok[OF ap])
    have map1: "applied_map s1 = (applied_map s)(mg_name m \<mapsto> digest (mg_sql m))"
      by (simp add: s1 applied_map_def rows)
    have "applied_map s (mg_name m) = None"
      using fresh by (auto simp: applied_map_def rows map_of_eq_None_iff)
    then have le: "applied_map s \<subseteq>\<^sub>m applied_map s1" by (auto simp: map1 map_le_def)
    with Cons.prems(3) have "applied \<subseteq>\<^sub>m applied_map s1" by (rule map_le_trans)
    with Cons.IH[OF run] have "migrations_table s' \<noteq> None \<and> applied_map s1 \<subseteq>\<^sub>m applied_map s' \<and>
      (\<forall>m \<in> set ms. applied_map s' (mg_name m) = Some (digest (mg_sql m)))"
      by (simp add: s1)
    with le map1 show ?thesis
      by (auto simp: map_le_def dom_def intro: map_le_trans)
  next
    case (Some c)
    then have c: "c = digest (mg_sql m)"
      and run: "run_pending_migrations tm digest batch flt now applied (i + 1) ms s = (Ok u, s')"
      using Cons.prems(1) by (auto simp: verify_migration_checksum_def split: if_splits)
    with Cons.IH[OF run Cons.prems(2,3)] Some Cons.prems(3) show ?thesis
      by (auto simp: map_le_def dom_def)
  qed
qed simp

text \<open>
  C37: a successful run leaves the schema up to date, and running the same migrations again is a
  no-op: it succeeds, executes no statement of any migration and changes nothing, whatever the
  engine would do with the statements.
\<close>

theorem run_migrations_idempotent:
  assumes "run_migrations tm digest batch flt now r s = (Ok (), s')"
    and "\<And>c. flt' c = None"
  shows "up_to_date digest r s' \<and> run_migrations tm digest batch' flt' now' r s' = (Ok (), s')"
proof -
  obtain s1 applied where s1: "ensure_migrations_table flt s = (Ok (), s1)"
    and applied: "load_applied_migrations tm flt s1 = Ok applied"
    and run: "run_pending_migrations tm digest batch flt now applied 0 r s1 = (Ok (), s')"
    using assms(1) by (auto simp: run_migrations_def split: prod.splits res.splits)
  have t1: "migrations_table s1 \<noteq> None"
    using s1 by (auto simp: ensure_migrations_table_def split: option.splits)
  then have "applied = applied_map s1"
    using applied by (auto simp: load_applied_migrations_def collect_applied_rows applied_map_def split: option.splits)
  with run_pending_up_to_date[OF run t1]
  have up: "up_to_date digest r s'" by (simp add: up_to_date_def list_all_iff)
  then obtain t where t: "migrations_table s' = Some t" by (auto simp: up_to_date_def)
  then have "ensure_migrations_table flt' s' = (Ok (), s')"
    using assms(2) by (cases s') (simp add: ensure_migrations_table_def)
  moreover have "load_applied_migrations tm flt' s' = Ok (applied_map s')"
    using assms(2) t by (intro load_applied_Ok)
  moreover have "run_pending_migrations tm digest batch' flt' now' (applied_map s') 0 r s' = (Ok (), s')"
    using up by (intro run_pending_applied) (simp add: up_to_date_def)
  ultimately have "run_migrations tm digest batch' flt' now' r s' = (Ok (), s')"
    by (simp add: run_migrations_def)
  with up show ?thesis ..
qed

text \<open>
  C38: an edited migration is refused. When the record of a migration holds another checksum than
  the digest of its SQL text, and those before it are up to date, the run fails with the message
  that names both checksums, changes nothing and does not reach the migrations after it.
\<close>

theorem run_migrations_checksum_guard:
  assumes "migrations_table s = Some rows" "\<And>c. flt c = None"
    and "up_to_date digest r s" "applied_map s (mg_name m) = Some c" "c \<noteq> digest (mg_sql m)"
  shows "run_migrations tm digest batch flt now (r @ m # ms) s =
    (Err (Migration (''Migration '' @ mg_name m @ '' has changed checksum. Expected: '' @
       digest (mg_sql m) @ '', Applied: '' @ c)), s)"
proof -
  have pending: "run_pending_migrations tm digest batch flt now (applied_map s) 0 (r @ m # ms) s =
      run_pending_migrations tm digest batch flt now (applied_map s) (length r) (m # ms) s"
    using run_pending_append[of "applied_map s" digest r tm batch flt now 0 "m # ms" s] assms(3)
    by (simp add: up_to_date_def)
  have "ensure_migrations_table flt s = (Ok (), s)"
    using assms(1,2) by (cases s) (simp add: ensure_migrations_table_def)
  then show ?thesis
    using assms pending by (simp add: run_migrations_def load_applied_Ok verify_migration_checksum_def)
qed

subsection \<open>Witnesses\<close>

definition sample_batch :: "catalog_sql \<Rightarrow> nat \<Rightarrow> unit result \<times> nat" where
  "sample_batch q t = (if t = 0 then (Ok (), 1) else (Err (Db ''table exists''), t))"

definition sample_digest :: "catalog_sql \<Rightarrow> string" where
  "sample_digest q = ''d1''"

definition sample_schema :: "nat schema_db" where
  "sample_schema = \<lparr>migrations_table = Some [\<lparr>mr_name = ''001_catalog_schema'', mr_checksum = ''d1'', mr_applied_at = 5\<rparr>],
     tables = 1\<rparr>"

theorem run_migrations_idempotent_witness:
  "run_migrations quiet_msgs sample_digest sample_batch (\<lambda>_. None) 9 catalog_migrations sample_schema = (Ok (), sample_schema)"
proof -
  have "run_migrations quiet_msgs sample_digest sample_batch (\<lambda>_. None) 5 catalog_migrations
      \<lparr>migrations_table = None, tables = 0\<rparr> = (Ok (), sample_schema)"
    by code_simp
  from run_migrations_idempotent[OF this refl] show ?thesis by blast
qed

theorem run_migrations_checksum_guard_witness:
  "run_migrations quiet_msgs (\<lambda>_. ''d2'') sample_batch (\<lambda>_. None) 9 catalog_migrations sample_schema =
     (Err (Migration ''Migration 001_catalog_schema has changed checksum. Expected: d2, Applied: d1''), sample_schema)"
proof -
  have "run_migrations quiet_msgs (\<lambda>_. ''d2'') sample_batch (\<lambda>_. None) 9
      ([] @ \<lparr>mg_name = ''001_catalog_schema'', mg_sql = CatalogSchema\<rparr> # []) sample_schema =
    (Err (Migration (''Migration '' @ mg_name \<lparr>mg_name = ''001_catalog_schema'', mg_sql = CatalogSchema\<rparr> @
       '' has changed checksum. Expected: '' @ ''d2'' @ '', Applied: '' @ ''d1'')), sample_schema)"
    by (rule run_migrations_checksum_guard)
      (simp_all add: sample_schema_def up_to_date_def applied_map_def)
  then show ?thesis by (simp add: catalog_migrations_def with_migration_def runner_new_def)
qed

end
