(* ===== verification/EventFile.thy ===== *)
theory EventFile
  imports EventTypes MigrationRun
begin

section \<open>One event file: its append head and its transaction (\<open>src/event_stream.rs\<close>)\<close>

text \<open>
  An event file is a database with the tables \<open>events\<close> and \<open>event_file_append_head\<close> and the
  migrations' own table. \<open>file_call\<close> names the database calls made on one connection to it.
  \<open>append_tx\<close> is the part of \<open>append\<close> that runs under the lock on the active file, from
  \<open>BEGIN IMMEDIATE\<close> to the result; \<open>create_partition_db\<close> makes a new file.
\<close>

record head_row =
  hd_version :: int
  hd_last_event_id :: "string option"

record file_tables =
  events_table :: "event_row list option"
  head_table :: "head_row option option"

type_synonym file_schema = "file_tables schema_db"
type_synonym event_file = "file_schema db"

datatype file_call =
    TxBegin | TxCommit | TxRollback | HeadQuery | HeadNext | HeadUpdate | HeadInit | SequenceQuery
  | FirstQuery | InsertEvent nat | EventsQuery | EventsNext

subsection \<open>The append head\<close>

definition head_columns :: "head_row \<Rightarrow> sql_row" where
  "head_columns h = [Integer (hd_version h), opt_text (hd_last_event_id h)]"

definition read_event_file_append_head ::
  "turso_msgs \<Rightarrow> ('j, 'u) text_crates \<Rightarrow> file_call faults \<Rightarrow> file_tables \<Rightarrow> int result" where
  "read_event_file_append_head tm cr flt t =
     (case flt HeadQuery of Some e \<Rightarrow> Err e
      | None \<Rightarrow>
      (case head_table t of None \<Rightarrow> Err (Db (no_such_table tm ''event_file_append_head''))
       | Some singleton \<Rightarrow>
      (case flt HeadNext of Some e \<Rightarrow> Err e
       | None \<Rightarrow>
      (case singleton of None \<Rightarrow> Err (Migration ''event_file_append_head is missing its singleton row'')
       | Some h \<Rightarrow>
           (let row = head_columns h in
            rbind (optional_text tm row 1) (\<lambda>last_id.
            rbind (transpose_res (map_option (\<lambda>s. map_err Uuid (uuid_parse_str cr s)) last_id)) (\<lambda>_.
            get_integer_safe tm row 0)))))))"

definition read_first_event_version ::
  "turso_msgs \<Rightarrow> file_call faults \<Rightarrow> file_tables \<Rightarrow> int option result" where
  "read_first_event_version tm flt t =
     (case flt FirstQuery of Some e \<Rightarrow> Err e
      | None \<Rightarrow>
      (case events_table t of None \<Rightarrow> Err (Db (no_such_table tm ''events''))
       | Some rows \<Rightarrow> Ok (if rows = [] then None else Some (Min (set (map ev_version rows))))))"

text \<open>\<open>UPDATE .. WHERE id = 1 AND ?1 >= current_version\<close>; an update of no row is not an error.\<close>

definition update_event_file_append_head ::
  "turso_msgs \<Rightarrow> file_call faults \<Rightarrow> int \<Rightarrow> string option \<Rightarrow> file_tables \<Rightarrow> file_tables result" where
  "update_event_file_append_head tm flt v last_id t =
     (case flt HeadUpdate of Some e \<Rightarrow> Err e
      | None \<Rightarrow>
      (case head_table t of None \<Rightarrow> Err (Db (no_such_table tm ''event_file_append_head''))
       | Some None \<Rightarrow> Ok t
       | Some (Some h) \<Rightarrow>
           if hd_version h \<le> v
           then Ok (t\<lparr>head_table := Some (Some \<lparr>hd_version = v, hd_last_event_id = last_id\<rparr>)\<rparr>)
           else Ok t))"

definition initialize_event_file_append_head ::
  "turso_msgs \<Rightarrow> file_call faults \<Rightarrow> int \<Rightarrow> string option \<Rightarrow> file_tables \<Rightarrow> file_tables result" where
  "initialize_event_file_append_head tm flt v last_id t =
     (case flt HeadInit of Some e \<Rightarrow> Err e
      | None \<Rightarrow>
      (case head_table t of None \<Rightarrow> Err (Db (no_such_table tm ''event_file_append_head''))
       | Some _ \<Rightarrow> Ok (t\<lparr>head_table := Some (Some \<lparr>hd_version = v, hd_last_event_id = last_id\<rparr>)\<rparr>)))"

subsection \<open>Inserting events\<close>

text \<open>
  What one append takes from outside: the ids \<open>Uuid::new_v4\<close> returns, one per event, and the
  valid trace and span ids of the current span.
\<close>

record 'u append_ids =
  new_id :: "nat \<Rightarrow> 'u"
  trace_id :: "string option"
  span_id :: "string option"

definition envelope_of ::
  "'u append_ids \<Rightarrow> 'dt \<Rightarrow> nat \<Rightarrow> event_stream_version \<Rightarrow> int \<Rightarrow> ('j, 'u) new_event \<Rightarrow> ('j, 'u, 'dt) envelope" where
  "envelope_of ids base_time i version sequence event =
     \<lparr>env_id = new_id ids i, env_type = ne_type event, env_payload = ne_payload event,
      env_version = version, env_created_at = base_time, env_sequence = sequence,
      env_workflow_kind = ne_workflow_kind event,
      env_workflow_started_by =
        (case ne_workflow event of WorkflowNone \<Rightarrow> None | StartsThisWorkflow \<Rightarrow> Some (new_id ids i)
         | Continues started_by \<Rightarrow> Some started_by),
      env_trace_id = trace_id ids, env_span_id = span_id ids, env_request_id = ne_request_id event,
      env_actor_id = ne_actor_id event, env_actor_type = ne_actor_type event\<rparr>"

text \<open>The INSERT: the three unique columns of the table are checked in the order it declares them.\<close>

definition insert_event_row ::
  "turso_msgs \<Rightarrow> file_call faults \<Rightarrow> nat \<Rightarrow> event_row \<Rightarrow> event_row list \<Rightarrow> event_row list result" where
  "insert_event_row tm flt i r rows =
     (case flt (InsertEvent i) of Some e \<Rightarrow> Err e
      | None \<Rightarrow>
          if ev_id r \<in> ev_id ` set rows then Err (Db (unique_violation tm ''events.id''))
          else if ev_version r \<in> ev_version ` set rows then Err (Db (unique_violation tm ''events.version''))
          else if ev_sequence r \<in> ev_sequence ` set rows then Err (Db (unique_violation tm ''events.sequence''))
          else Ok (rows @ [r]))"

fun insert_loop ::
  "turso_msgs \<Rightarrow> ('j, 'u) text_crates \<Rightarrow> ('date, 'dt) time_crate \<Rightarrow> file_call faults \<Rightarrow> 'u append_ids \<Rightarrow> 'dt
     \<Rightarrow> int \<Rightarrow> int \<Rightarrow> nat \<Rightarrow> ('j, 'u) new_event list \<Rightarrow> event_row list
     \<Rightarrow> ('j, 'u, 'dt) envelope list result \<times> event_row list" where
  "insert_loop tm cr tc flt ids base_time cur base_sequence i [] rows = (Ok [], rows)"
| "insert_loop tm cr tc flt ids base_time cur base_sequence i (event # events) rows =
     (case version_new (wrap64 (wrap64 (cur + 1) + wrap64 (int i))) of
        Err e \<Rightarrow> (Err e, rows)
      | Panic m \<Rightarrow> (Panic m, rows)
      | Ok version \<Rightarrow>
      (let sequence = wrap64 (wrap64 (base_sequence + 1) + wrap64 (int i));
           envelope = envelope_of ids base_time i version sequence event
       in case rbind (row_of_envelope cr tc envelope) (\<lambda>r. insert_event_row tm flt i r rows) of
            Err e \<Rightarrow> (Err e, rows)
          | Panic m \<Rightarrow> (Panic m, rows)
          | Ok rows \<Rightarrow>
              sbind (insert_loop tm cr tc flt ids base_time cur base_sequence (i + 1) events rows)
                (\<lambda>envelopes rows. (Ok (envelope # envelopes), rows))))"

text \<open>\<open>SELECT COALESCE(MAX(sequence), 0)\<close>.\<close>

definition max_sequence :: "event_row list \<Rightarrow> int" where
  "max_sequence rows = (if rows = [] then 0 else Max (set (map ev_sequence rows)))"

definition insert_events ::
  "turso_msgs \<Rightarrow> ('j, 'u) text_crates \<Rightarrow> ('date, 'dt) time_crate \<Rightarrow> file_call faults \<Rightarrow> 'u append_ids \<Rightarrow> 'dt
     \<Rightarrow> int \<Rightarrow> ('j, 'u) new_event list \<Rightarrow> file_tables \<Rightarrow> ('j, 'u, 'dt) envelope list result \<times> file_tables" where
  "insert_events tm cr tc flt ids base_time cur events t =
     (case flt SequenceQuery of Some e \<Rightarrow> (Err e, t)
      | None \<Rightarrow>
      (case events_table t of None \<Rightarrow> (Err (Db (no_such_table tm ''events'')), t)
       | Some rows \<Rightarrow>
      (case insert_loop tm cr tc flt ids base_time cur (max_sequence rows) 0 events rows of
         (r, rows) \<Rightarrow> (r, t\<lparr>events_table := Some rows\<rparr>))))"

definition map_uniqueness_to_incorrect_event_version :: "es_error \<Rightarrow> int \<Rightarrow> es_error" where
  "map_uniqueness_to_incorrect_event_version err stale_version =
     (case err of
        Db msg \<Rightarrow>
          (if sublist ''UNIQUE constraint failed'' msg \<and> sublist ''version'' msg
           then IncorrectEventVersion stale_version stale_version else err)
      | _ \<Rightarrow> err)"

subsection \<open>The append transaction\<close>

text \<open>Statements of the transaction work on the tables as the connection sees them.\<close>

definition file_view :: "event_file \<Rightarrow> file_tables" where
  "file_view f = tables (db_view f)"

definition file_put :: "file_tables \<Rightarrow> event_file \<Rightarrow> event_file" where
  "file_put t f = db_put ((db_view f)\<lparr>tables := t\<rparr>) f"

definition append_tx ::
  "turso_msgs \<Rightarrow> ('j, 'u) text_crates \<Rightarrow> ('date, 'dt) time_crate \<Rightarrow> file_call faults \<Rightarrow> 'u append_ids \<Rightarrow> 'dt
     \<Rightarrow> expected_version \<Rightarrow> ('j, 'u) new_event list \<Rightarrow> event_file
     \<Rightarrow> ('j, 'u, 'dt) append_result result \<times> event_file" where
  "append_tx tm cr tc flt ids base_time expected events f =
     sbind (db_begin tm (flt TxBegin) f) (\<lambda>_ f.
     case rbind (read_event_file_append_head tm cr flt (file_view f))
            (validate_expected_version_against expected) of
       Err e \<Rightarrow> (Err e, db_rollback (flt TxRollback) f)
     | Panic m \<Rightarrow> (Panic m, f)
     | Ok cur \<Rightarrow>
     (case insert_events tm cr tc flt ids base_time cur events (file_view f) of
        (Err e, t) \<Rightarrow>
          (Err (map_uniqueness_to_incorrect_event_version e cur), db_rollback (flt TxRollback) (file_put t f))
      | (Panic m, t) \<Rightarrow> (Panic m, file_put t f)
      | (Ok result_events, t) \<Rightarrow>
          if result_events = [] then (Err (Migration ''append result was unexpectedly empty''), file_put t f)
          else
            (let last_event = last result_events in
             case update_event_file_append_head tm flt (version_get (env_version last_event))
                    (Some (uuid_to_string cr (env_id last_event))) t of
               Err e \<Rightarrow> (Err e, db_rollback (flt TxRollback) (file_put t f))
             | Panic m \<Rightarrow> (Panic m, file_put t f)
             | Ok t \<Rightarrow>
                 (case db_commit (flt TxCommit) (file_put t f) of
                    (Err e, f) \<Rightarrow> (Err e, db_rollback (flt TxRollback) f)
                  | (Panic m, f) \<Rightarrow> (Panic m, f)
                  | (Ok _, f) \<Rightarrow>
                      (Ok \<lparr>res_first_version = env_version (hd result_events),
                           res_last_version = env_version last_event, res_events = result_events\<rparr>, f)))))"

subsection \<open>Reading events\<close>

definition collect_events_from_rows ::
  "turso_msgs \<Rightarrow> ('j, 'u) text_crates \<Rightarrow> ('date, 'dt) time_crate \<Rightarrow> file_call faults \<Rightarrow> sql_row list
     \<Rightarrow> ('j, 'u, 'dt) envelope list result" where
  "collect_events_from_rows tm cr tc flt rows =
     (case flt EventsNext of Some e \<Rightarrow> Err e | None \<Rightarrow> res_map (event_from_row tm cr tc) rows)"

text \<open>\<open>SELECT .. WHERE p ORDER BY version LIMIT n\<close>.\<close>

definition select_events :: "(event_row \<Rightarrow> bool) \<Rightarrow> nat \<Rightarrow> event_row list \<Rightarrow> event_row list" where
  "select_events p n rows = take n (sort_key ev_version (filter p rows))"

definition query_events ::
  "turso_msgs \<Rightarrow> ('j, 'u) text_crates \<Rightarrow> ('date, 'dt) time_crate \<Rightarrow> file_call faults \<Rightarrow> (event_row \<Rightarrow> bool) \<Rightarrow> nat
     \<Rightarrow> file_tables \<Rightarrow> ('j, 'u, 'dt) envelope list result" where
  "query_events tm cr tc flt p n t =
     (case flt EventsQuery of Some e \<Rightarrow> Err e
      | None \<Rightarrow>
      (case events_table t of None \<Rightarrow> Err (Db (no_such_table tm ''events''))
       | Some rows \<Rightarrow> collect_events_from_rows tm cr tc flt (map event_columns (select_events p n rows))))"

subsection \<open>Creating an event file\<close>

text \<open>The schema batch: CREATE TABLE events, the indices, CREATE TABLE event_file_append_head.\<close>

definition event_file_batch ::
  "turso_msgs \<Rightarrow> nat faults \<Rightarrow> event_file_sql \<Rightarrow> file_tables \<Rightarrow> unit result \<times> file_tables" where
  "event_file_batch tm flt sql t =
     (case flt 0 of Some e \<Rightarrow> (Err e, t)
      | None \<Rightarrow>
      (if events_table t \<noteq> None then (Err (Db (table_exists tm ''events'')), t)
       else (let t = t\<lparr>events_table := Some []\<rparr> in
      (case flt 1 of Some e \<Rightarrow> (Err e, t)
       | None \<Rightarrow>
      (case flt 2 of Some e \<Rightarrow> (Err e, t)
       | None \<Rightarrow>
           if head_table t \<noteq> None then (Err (Db (table_exists tm ''event_file_append_head'')), t)
           else (Ok (), t\<lparr>head_table := Some None\<rparr>))))))"

definition blank_file :: event_file where
  "blank_file = fresh_db \<lparr>migrations_table = None, tables = \<lparr>events_table = None, head_table = None\<rparr>\<rparr>"

text \<open>What the creation of a file takes from outside.\<close>

datatype open_call = BuildDb | ConfigureDb | ConnectDb

record create_env =
  ce_open :: "open_call faults"
  ce_migrate :: "mig_call faults"
  ce_batch :: "nat faults"
  ce_now :: int
  ce_head :: "file_call faults"

text \<open>
  The new connection's work on the file: the migrations, statement by statement, then the head.
  A transaction left open by the pooled connection holds the file's write lock.
\<close>

definition setup_file ::
  "turso_msgs \<Rightarrow> (event_file_sql \<Rightarrow> string) \<Rightarrow> create_env \<Rightarrow> int \<Rightarrow> string option \<Rightarrow> event_file
     \<Rightarrow> unit result \<times> event_file" where
  "setup_file tm digest ce v last_id f =
     (if pending f \<noteq> None then (Err (Db (database_busy tm)), f)
      else
        (case run_migrations tm digest (event_file_batch tm (ce_batch ce)) (ce_migrate ce) (ce_now ce)
                partition_migrations (committed f) of
           (Err e, s) \<Rightarrow> (Err e, fresh_db s)
         | (Panic m, s) \<Rightarrow> (Panic m, fresh_db s)
         | (Ok _, s) \<Rightarrow>
             (case initialize_event_file_append_head tm (ce_head ce) v last_id (tables s) of
                Err e \<Rightarrow> (Err e, fresh_db s)
              | Panic m \<Rightarrow> (Panic m, fresh_db s)
              | Ok t \<Rightarrow> (Ok (), fresh_db (s\<lparr>tables := t\<rparr>)))))"

end
