(* ===== verification/EventStream.thy ===== *)
theory EventStream
  imports EventFile Rotation Catalog "HOL-Library.AList"
begin

section \<open>The event stream (\<open>src/event_stream.rs\<close>)\<close>

text \<open>
  A stream is one partition directory: the catalog, the event files by name and the active
  partition, which \<open>EventStreamInner\<close> keeps under a lock. Every operation that takes the lock is
  one transition from stream to stream here; what it takes from outside in one call (clock
  readings, the file's size, generated ids, errors of the calls it makes) is an environment
  record. \<open>stream_context\<close> holds what a stream never changes: the third-party crates and the policy.
\<close>

record ('j, 'u, 'date, 'dt) stream_context =
  cx_msgs :: turso_msgs
  cx_text :: "('j, 'u) text_crates"
  cx_time :: "('date, 'dt) time_crate"
  cx_digits :: "string \<Rightarrow> bool"
  cx_file_digest :: "event_file_sql \<Rightarrow> string"
  cx_catalog_digest :: "catalog_sql \<Rightarrow> string"
  cx_path_debug :: "string \<Rightarrow> string"
  cx_rotation :: rotation_policy

abbreviation cx_window :: "('j, 'u, 'date, 'dt) stream_context \<Rightarrow> duration" where
  "cx_window cx \<equiv> policy_window (cx_rotation cx)"

type_synonym event_files = "(string \<times> event_file) list"

record active_partition =
  act_name :: string
  act_start_ms :: int
  act_ordinal :: "nat option"

record stream =
  st_catalog :: catalog
  st_catalog_migrations :: "mig_row list option"
  st_files :: event_files
  st_active :: active_partition

text \<open>\<open>(now_utc().unix_timestamp_nanos() / 1_000_000) as i64\<close>.\<close>

definition clock_ms :: "int \<Rightarrow> int" where
  "clock_ms nanos = wrap64 (nanos sdiv 1000000)"

subsection \<open>Files\<close>

text \<open>A pooled connection: the pool refuses a file that is not there.\<close>

definition get_connection ::
  "('j, 'u, 'date, 'dt) stream_context \<Rightarrow> es_error option \<Rightarrow> event_files \<Rightarrow> string \<Rightarrow> event_file result" where
  "get_connection cx flt files name =
     (case map_of files name of
        None \<Rightarrow> Err (InvalidPath (''Database file does not exist: '' @ cx_path_debug cx name))
      | Some f \<Rightarrow> (case flt of Some e \<Rightarrow> Err e | None \<Rightarrow> Ok f))"

text \<open>Opening a database creates the file when it is missing.\<close>

definition file_of :: "event_files \<Rightarrow> string \<Rightarrow> event_file" where
  "file_of files name = (case map_of files name of None \<Rightarrow> blank_file | Some f \<Rightarrow> f)"

definition open_partition_db ::
  "open_call faults \<Rightarrow> string \<Rightarrow> event_files \<Rightarrow> unit result \<times> event_files" where
  "open_partition_db flt name files =
     (case flt BuildDb of Some e \<Rightarrow> (Err e, files)
      | None \<Rightarrow>
      (let files = AList.update name (file_of files name) files in
       case flt ConfigureDb of Some e \<Rightarrow> (Err e, files) | None \<Rightarrow> (Ok (), files)))"

definition create_partition_db ::
  "('j, 'u, 'date, 'dt) stream_context \<Rightarrow> create_env \<Rightarrow> string \<Rightarrow> int \<Rightarrow> string option \<Rightarrow> event_files
     \<Rightarrow> unit result \<times> event_files" where
  "create_partition_db cx ce name current_version last_id files =
     sbind (open_partition_db (ce_open ce) name files) (\<lambda>_ files.
     case ce_open ce ConnectDb of Some e \<Rightarrow> (Err e, files)
     | None \<Rightarrow>
         (case setup_file (cx_msgs cx) (cx_file_digest cx) ce current_version last_id (file_of files name) of
            (r, f) \<Rightarrow> (r, AList.update name f files)))"

text \<open>An operation on one part of the stream.\<close>

definition on_catalog :: "(catalog \<Rightarrow> 'a result \<times> catalog) \<Rightarrow> stream \<Rightarrow> 'a result \<times> stream" where
  "on_catalog f s = (case f (st_catalog s) of (r, cat) \<Rightarrow> (r, s\<lparr>st_catalog := cat\<rparr>))"

definition on_files :: "(event_files \<Rightarrow> 'a result \<times> event_files) \<Rightarrow> stream \<Rightarrow> 'a result \<times> stream" where
  "on_files f s = (case f (st_files s) of (r, files) \<Rightarrow> (r, s\<lparr>st_files := files\<rparr>))"

subsection \<open>Rotation\<close>

definition determine_new_partition_info ::
  "('j, 'u, 'date, 'dt) stream_context \<Rightarrow> int \<Rightarrow> nat option \<Rightarrow> int \<Rightarrow> (string \<times> int \<times> nat option) result" where
  "determine_new_partition_info cx current_start_ms current_ordinal now_ms =
     rbind (floor_to_window_ms now_ms (cx_window cx)) (\<lambda>new_start_ms.
     if new_start_ms = current_start_ms then
       rbind (ok_or (RotationOrdinalExhausted MAX_OVERFLOW_ORDINAL) (get_next_ordinal current_ordinal)) (\<lambda>ordinal.
       rbind (generate_partition_name (cx_time cx) new_start_ms (cx_window cx) (Some ordinal)) (\<lambda>new_name.
       Ok (new_name, new_start_ms, Some ordinal)))
     else
       rbind (generate_partition_name (cx_time cx) new_start_ms (cx_window cx) None) (\<lambda>new_name.
       Ok (new_name, new_start_ms, None)))"

record rotation_env =
  re_conn :: "es_error option"
  re_head :: "file_call faults"
  re_seal :: "cat_call faults"
  re_file :: create_env
  re_range :: "cat_call faults"

definition unsealed_range :: "string \<Rightarrow> int \<Rightarrow> event_file_range" where
  "unsealed_range name first_version =
     \<lparr>rng_name = name, rng_path = name, rng_first = first_version, rng_last = None, rng_sealed = False\<rparr>"

lemma unsealed_range_fields [simp]:
  "rng_name (unsealed_range n v) = n" "rng_path (unsealed_range n v) = n" "rng_first (unsealed_range n v) = v"
  "rng_sealed (unsealed_range n v) = False" "rng_last (unsealed_range n v) = None"
  by (simp_all add: unsealed_range_def)

definition rotate_partition ::
  "('j, 'u, 'date, 'dt) stream_context \<Rightarrow> rotation_env \<Rightarrow> int \<Rightarrow> stream \<Rightarrow> unit result \<times> stream" where
  "rotate_partition cx re now_ms s =
     sbind (determine_new_partition_info cx (act_start_ms (st_active s)) (act_ordinal (st_active s)) now_ms, s)
       (\<lambda>(new_name, new_start_ms, new_ordinal) s.
     sbind (rbind (get_connection cx (re_conn re) (st_files s) (act_name (st_active s)))
              (\<lambda>f. read_event_file_append_head (cx_msgs cx) (cx_text cx) (re_head re) (file_view f)), s)
       (\<lambda>head_version s.
     sbind (on_catalog (seal_event_file_range (re_seal re) (act_name (st_active s)) head_version) s) (\<lambda>_ s.
     sbind (on_files (create_partition_db cx (re_file re) new_name head_version None) s) (\<lambda>_ s.
     sbind (on_catalog (create_event_file_range (re_range re) (unsealed_range new_name (wrap64 (head_version + 1)))) s)
       (\<lambda>_ s.
     (Ok (), s\<lparr>st_active := \<lparr>act_name = new_name, act_start_ms = new_start_ms, act_ordinal = new_ordinal\<rparr>\<rparr>))))))"

text \<open>
  What \<open>maybe_rotate\<close> reads: the size of the active file (\<open>None\<close> when the metadata call fails),
  the clock of \<open>should_rotate\<close>, and the clock read once the rotation is decided.
\<close>

record probe_env =
  pr_size :: "nat option"
  pr_secs :: int
  pr_nanos :: int
  pr_rotation :: rotation_env

definition maybe_rotate ::
  "('j, 'u, 'date, 'dt) stream_context \<Rightarrow> probe_env \<Rightarrow> stream \<Rightarrow> unit result \<times> stream" where
  "maybe_rotate cx pr s =
     (let file_size = (case pr_size pr of None \<Rightarrow> 0 | Some n \<Rightarrow> n) in
      sbind (should_rotate (pr_secs pr) (act_name (st_active s)) (cx_rotation cx) file_size (act_start_ms (st_active s)), s)
        (\<lambda>rotate s.
      if \<not> rotate then (Ok (), s) else rotate_partition cx (pr_rotation pr) (clock_ms (pr_nanos pr)) s))"

text \<open>The loop of \<open>rotate_until_current_window\<close>; \<open>rots i\<close> is the environment of its \<open>i\<close>-th rotation.\<close>

definition in_window :: "('j, 'u, 'date, 'dt) stream_context \<Rightarrow> int \<Rightarrow> stream \<Rightarrow> bool" where
  "in_window cx now_ms s \<longleftrightarrow> floor_to_window_ms now_ms (cx_window cx) = Ok (act_start_ms (st_active s))"

lemma rotate_partition_in_window:
  "rotate_partition cx re now_ms s = (Ok u, s') \<Longrightarrow> in_window cx now_ms s'"
  by (auto simp: rotate_partition_def res_simps in_window_def determine_new_partition_info_def
      split: if_splits)

function rotate_until_current_window ::
  "('j, 'u, 'date, 'dt) stream_context \<Rightarrow> (nat \<Rightarrow> rotation_env) \<Rightarrow> int \<Rightarrow> nat \<Rightarrow> stream \<Rightarrow> unit result \<times> stream" where
  "rotate_until_current_window cx rots now_ms i s =
     sbind (floor_to_window_ms now_ms (cx_window cx), s) (\<lambda>floored s.
     if floored = act_start_ms (st_active s) then (Ok (), s)
     else
       (case rotate_partition cx (rots i) now_ms s of
          (Ok _, s') \<Rightarrow> rotate_until_current_window cx rots now_ms (i + 1) s'
        | (Err e, s') \<Rightarrow> (Err e, s')
        | (Panic m, s') \<Rightarrow> (Panic m, s')))"
  by pat_completeness auto

text \<open>A rotation puts the active partition into the window of its clock, so the loop rotates once.\<close>

termination
  by (relation "measure (\<lambda>(cx, rots, now_ms, i, s). if in_window cx now_ms s then 0 else 1)")
    (auto dest!: rotate_partition_in_window[OF sym] simp: in_window_def split: if_splits)

declare rotate_until_current_window.simps [simp del]

subsection \<open>Appending\<close>

record 'u append_env =
  ae_probe :: probe_env
  ae_nanos :: int
  ae_rotations :: "nat \<Rightarrow> rotation_env"
  ae_conn :: "es_error option"
  ae_tx :: "file_call faults"
  ae_ids :: "'u append_ids"

definition append_active ::
  "('j, 'u, 'date, 'dt) stream_context \<Rightarrow> 'u append_env \<Rightarrow> 'dt \<Rightarrow> expected_version \<Rightarrow> ('j, 'u) new_event list
     \<Rightarrow> stream \<Rightarrow> ('j, 'u, 'dt) append_result result \<times> stream" where
  "append_active cx env base_time expected events s =
     sbind (get_connection cx (ae_conn env) (st_files s) (act_name (st_active s)), s) (\<lambda>f s.
     case append_tx (cx_msgs cx) (cx_text cx) (cx_time cx) (ae_tx env) (ae_ids env) base_time expected events f of
       (r, f) \<Rightarrow> (r, s\<lparr>st_files := AList.update (act_name (st_active s)) f (st_files s)\<rparr>))"

text \<open>The empty append answers before any check of the events; the rotation has happened by then.\<close>

definition append_events ::
  "('j, 'u, 'date, 'dt) stream_context \<Rightarrow> 'u append_env \<Rightarrow> expected_version \<Rightarrow> ('j, 'u) new_event list
     \<Rightarrow> stream \<Rightarrow> ('j, 'u, 'dt) append_result result \<times> stream" where
  "append_events cx env expected events s =
     sbind (maybe_rotate cx (ae_probe env) s) (\<lambda>_ s.
     if events = [] then
       (Ok \<lparr>res_first_version = version_start, res_last_version = version_start, res_events = []\<rparr>, s)
     else
       sbind (validate_events (cx_text cx) MAX_PAYLOAD_BYTES events, s) (\<lambda>_ s.
       (let now_ms = clock_ms (ae_nanos env) in
        sbind (ok_or (Time (tc_range_error (cx_time cx))) (tc_from_nanos (cx_time cx) (now_ms * 1000000)), s)
          (\<lambda>base_time s.
        sbind (rotate_until_current_window cx (ae_rotations env) now_ms 0 s) (\<lambda>_ s.
        append_active cx env base_time expected events s)))))"

subsection \<open>Reading\<close>

text \<open>One read: the catalog query, then one pooled connection and one query per event file.\<close>

record read_env =
  rd_catalog :: "cat_call faults"
  rd_conn :: "nat \<Rightarrow> es_error option"
  rd_file :: "nat \<Rightarrow> file_call faults"

fun load_ranges ::
  "('j, 'u, 'date, 'dt) stream_context \<Rightarrow> read_env \<Rightarrow> (event_row \<Rightarrow> bool) \<Rightarrow> nat \<Rightarrow> event_files \<Rightarrow> nat
     \<Rightarrow> event_file_range list \<Rightarrow> ('j, 'u, 'dt) envelope list \<Rightarrow> ('j, 'u, 'dt) envelope list result" where
  "load_ranges cx rd p limit files i [] events = Ok events"
| "load_ranges cx rd p limit files i (rng # ranges) events =
     (let remaining = limit - length events in
      if remaining = 0 then Ok events
      else
        rbind (get_connection cx (rd_conn rd i) files (rng_path rng)) (\<lambda>f.
        rbind (query_events (cx_msgs cx) (cx_text cx) (cx_time cx) (rd_file rd i) p remaining (file_view f))
          (\<lambda>partition_events.
        load_ranges cx rd p limit files (i + 1) ranges (events @ partition_events))))"

definition load_events ::
  "('j, 'u, 'date, 'dt) stream_context \<Rightarrow> read_env \<Rightarrow> (event_row \<Rightarrow> bool) \<Rightarrow> int \<Rightarrow> nat \<Rightarrow> stream
     \<Rightarrow> ('j, 'u, 'dt) envelope list result" where
  "load_events cx rd p cursor limit s =
     rbind (validate_read_limit limit) (\<lambda>_.
     rbind (get_event_file_ranges_after_version (cx_msgs cx) (rd_catalog rd) cursor (st_catalog s)) (\<lambda>ranges.
     rbind (load_ranges cx rd p limit (st_files s) 0 ranges []) (\<lambda>events.
     Ok (take limit (sort_key env_version events)))))"

definition after_version :: "int \<Rightarrow> event_row \<Rightarrow> bool" where
  "after_version cursor r \<longleftrightarrow> cursor < ev_version r"

definition load_after_version ::
  "('j, 'u, 'date, 'dt) stream_context \<Rightarrow> read_env \<Rightarrow> event_stream_version \<Rightarrow> nat \<Rightarrow> stream
     \<Rightarrow> ('j, 'u, 'dt) envelope list result" where
  "load_after_version cx rd cursor limit s =
     load_events cx rd (after_version (version_get cursor)) (version_get cursor) limit s"

definition of_workflow :: "('j, 'u) text_crates \<Rightarrow> 'u \<Rightarrow> event_row \<Rightarrow> bool" where
  "of_workflow cr w r \<longleftrightarrow> ev_workflow_started_by r = Some (uuid_to_string cr w)"

definition load_workflow_after_version ::
  "('j, 'u, 'date, 'dt) stream_context \<Rightarrow> read_env \<Rightarrow> 'u \<Rightarrow> event_stream_version \<Rightarrow> nat \<Rightarrow> stream
     \<Rightarrow> ('j, 'u, 'dt) envelope list result" where
  "load_workflow_after_version cx rd w cursor limit s =
     load_events cx rd (\<lambda>r. of_workflow (cx_text cx) w r \<and> after_version (version_get cursor) r)
       (version_get cursor) limit s"

definition current_version ::
  "('j, 'u, 'date, 'dt) stream_context \<Rightarrow> es_error option \<Rightarrow> file_call faults \<Rightarrow> stream
     \<Rightarrow> event_stream_version result" where
  "current_version cx conn flt s =
     rbind (get_connection cx conn (st_files s) (act_name (st_active s))) (\<lambda>f.
     rbind (read_event_file_append_head (cx_msgs cx) (cx_text cx) flt (file_view f)) (\<lambda>head_version.
     if head_version = 0 then Ok version_start else version_new head_version))"

end
