(* ===== verification/EventFileLaws.thy ===== *)
theory EventFileLaws
  imports EventFile
begin

section \<open>Properties of one event file\<close>

text \<open>
  \<open>file_content\<close> abstracts the tables of a usable event file to its rows and its head version.
  The lemmas give the effect of every operation in these terms: a committed append adds exactly
  the rows of the envelopes it returns, any other outcome leaves the file as it was.
\<close>

definition file_content :: "('j, 'u) text_crates \<Rightarrow> file_tables \<Rightarrow> (event_row list \<times> int) option" where
  "file_content cr t =
     (case (events_table t, head_table t) of
        (Some rows, Some (Some h)) \<Rightarrow>
          (if pred_option (\<lambda>s. is_Ok (uuid_parse_str cr s)) (hd_last_event_id h)
           then Some (rows, hd_version h) else None)
      | _ \<Rightarrow> None)"

lemma file_content_Some:
  "file_content cr t = Some (rows, v) \<longleftrightarrow>
     (\<exists>h. events_table t = Some rows \<and> head_table t = Some (Some h) \<and> hd_version h = v \<and>
        pred_option (\<lambda>s. is_Ok (uuid_parse_str cr s)) (hd_last_event_id h))"
  by (auto simp: file_content_def split: option.splits)

lemma is_OkE: "is_Ok r \<Longrightarrow> (\<And>x. r = Ok x \<Longrightarrow> P) \<Longrightarrow> P"
  by (cases r) auto

lemma read_head_Ok:
  assumes "file_content cr t = Some (rows, v)" "flt HeadQuery = None" "flt HeadNext = None"
  shows "read_event_file_append_head tm cr flt t = Ok v"
proof -
  obtain h where h: "head_table t = Some (Some h)" "hd_version h = v"
    "pred_option (\<lambda>s. is_Ok (uuid_parse_str cr s)) (hd_last_event_id h)"
    using assms(1) by (auto simp: file_content_Some)
  then show ?thesis using assms(2,3)
    by (cases "hd_last_event_id h")
      (auto simp: read_event_file_append_head_def Let_def head_columns_def column_defs elim: is_OkE)
qed

lemma read_head_unique:
  assumes "file_content cr t = Some (rows, v)" "read_event_file_append_head tm cr flt t = Ok v'"
  shows "v' = v"
proof -
  have "flt HeadQuery = None" "flt HeadNext = None"
    using assms(2) by (auto simp: read_event_file_append_head_def split: option.splits)
  with read_head_Ok[OF assms(1)] assms(2) show ?thesis by simp
qed

subsection \<open>The insert loop\<close>

text \<open>The envelopes an append gives its events: consecutive versions and sequences.\<close>

fun envelopes_from ::
  "'u append_ids \<Rightarrow> 'dt \<Rightarrow> int \<Rightarrow> int \<Rightarrow> nat \<Rightarrow> ('j, 'u) new_event list \<Rightarrow> ('j, 'u, 'dt) envelope list" where
  "envelopes_from ids base_time cur seq i [] = []"
| "envelopes_from ids base_time cur seq i (e # es) =
     envelope_of ids base_time i (EventStreamVersion (cur + 1 + int i)) (seq + 1 + int i) e #
     envelopes_from ids base_time cur seq (i + 1) es"

lemma length_envelopes_from [simp]: "length (envelopes_from ids bt cur sq i es) = length es"
  by (induction es arbitrary: i) auto

lemma envelopes_from_Nil_iff [simp]: "envelopes_from ids bt cur sq i es = [] \<longleftrightarrow> es = []"
  by (cases es) auto

lemma envelope_of_fields [simp]:
  "env_version (envelope_of ids bt i v sq e) = v" "env_sequence (envelope_of ids bt i v sq e) = sq"
  "env_id (envelope_of ids bt i v sq e) = new_id ids i"
  "env_created_at (envelope_of ids bt i v sq e) = bt"
  "env_payload (envelope_of ids bt i v sq e) = ne_payload e"
  by (simp_all add: envelope_of_def)

lemma upto_Cons_next: "a \<le> b \<Longrightarrow> b' = b \<Longrightarrow> a' = a + 1 \<Longrightarrow> a # [a'..b'] = [a..b :: int]"
  by (simp add: upto_rec1)

lemma versions_envelopes_from:
  "map (version_get \<circ> env_version) (envelopes_from ids bt cur sq i es) =
     [cur + 1 + int i .. cur + int i + int (length es)]"
  by (induction es arbitrary: i) (simp_all, rule upto_Cons_next, simp_all)

lemma sequences_envelopes_from:
  "map env_sequence (envelopes_from ids bt cur sq i es) = [sq + 1 + int i .. sq + int i + int (length es)]"
  by (induction es arbitrary: i) (simp_all, rule upto_Cons_next, simp_all)

lemma row_of_envelope_fields:
  assumes "row_of_envelope cr tc e = Ok r"
  shows "ev_id r = uuid_to_string cr (env_id e)" "ev_version r = version_get (env_version e)"
    "ev_sequence r = env_sequence e"
    "ev_workflow_started_by r = map_option (uuid_to_string cr) (env_workflow_started_by e)"
  using assms by (auto simp: row_of_envelope_def res_simps)

lemma rows_of_envelopes:
  assumes "res_map (row_of_envelope cr tc) es = Ok rs"
  shows "map ev_version rs = map (version_get \<circ> env_version) es" "map ev_sequence rs = map env_sequence es"
    "map ev_id rs = map (uuid_to_string cr \<circ> env_id) es"
  using assms by (induction es arbitrary: rs) (auto simp: res_simps row_of_envelope_fields)

lemma insert_event_row_Ok:
  "insert_event_row tm flt i r rows = Ok rows' \<longleftrightarrow>
     flt (InsertEvent i) = None \<and> rows' = rows @ [r] \<and> ev_id r \<notin> ev_id ` set rows \<and>
     ev_version r \<notin> ev_version ` set rows \<and> ev_sequence r \<notin> ev_sequence ` set rows"
  by (auto simp: insert_event_row_def split: option.splits)

lemma wrap_next:
  assumes "0 \<le> cur" "in_i64 (cur + int i)" "0 < wrap64 (wrap64 (cur + 1) + wrap64 (int i))"
  shows "wrap64 (wrap64 (cur + 1) + wrap64 (int i)) = cur + 1 + int i \<and> in_i64 (cur + 1 + int i)"
proof -
  have i: "in_i64 (int i)" using assms(1,2) by (simp add: in_i64_def)
  have "wrap64 (wrap64 (cur + 1) + int i) = wrap64 (cur + int i + 1)"
    by (simp add: wrap64_def) (metis (no_types, opaque_lifting) add.assoc add.commute mod_add_left_eq)
  with assms i wrap64_succ_pos[OF assms(2)] show ?thesis by (simp add: add.commute add.left_commute)
qed

lemma wrap_in_range:
  assumes "0 \<le> sq" "in_i64 (sq + 1 + int i)"
  shows "wrap64 (wrap64 (sq + 1) + wrap64 (int i)) = sq + 1 + int i"
proof -
  have "in_i64 (int i)" "in_i64 (sq + 1)" using assms by (simp_all add: in_i64_def)
  with assms(2) show ?thesis by simp
qed

lemma insert_loop_Ok:
  assumes "insert_loop tm cr tc flt ids bt cur sq i es rows = (Ok envs, rows')"
    and "0 \<le> sq" "sq \<le> cur" "in_i64 (cur + int i)"
  shows "envs = envelopes_from ids bt cur sq i es \<and> in_i64 (cur + int i + int (length es)) \<and>
    (\<exists>new. res_map (row_of_envelope cr tc) envs = Ok new \<and> rows' = rows @ new)"
  using assms
proof (induction es arbitrary: i rows envs)
  case (Cons e es)
  let ?v = "wrap64 (wrap64 (cur + 1) + wrap64 (int i))"
  have pos: "0 < ?v" using Cons.prems(1) by (auto simp: version_new_def split: if_splits)
  have nn: "0 \<le> cur" using Cons.prems(2,3) by simp
  note W = wrap_next[OF nn Cons.prems(4) pos]
  have sq: "wrap64 (wrap64 (sq + 1) + wrap64 (int i)) = sq + 1 + int i"
    using W Cons.prems(2,3) by (intro wrap_in_range) (auto simp: in_i64_def)
  define env where "env = envelope_of ids bt i (EventStreamVersion (cur + 1 + int i)) (sq + 1 + int i) e"
  obtain r envs1 where r: "row_of_envelope cr tc env = Ok r"
    and rec: "insert_loop tm cr tc flt ids bt cur sq (i + 1) es (rows @ [r]) = (Ok envs1, rows')"
    and envs: "envs = env # envs1"
    using Cons.prems(1) W sq pos
    by (auto simp: version_new_def env_def res_simps insert_event_row_Ok Let_def split: res.splits prod.splits)
  have "in_i64 (cur + int (i + 1))" using W by (simp add: algebra_simps)
  from Cons.IH[OF rec Cons.prems(2,3) this] r envs show ?case
    by (auto simp: env_def algebra_simps)
qed auto

lemma insert_loop_succeeds:
  assumes "\<And>c. flt c = None" "0 \<le> sq" "sq \<le> cur" "in_i64 (cur + int i + int (length es))"
    and "list_all (\<lambda>e. is_Ok (json_to_string cr (ne_payload e))) es"
    and "inj (uuid_to_string cr)" "inj (new_id ids)"
    and "\<And>k. i \<le> k \<Longrightarrow> uuid_to_string cr (new_id ids k) \<notin> ev_id ` set rows"
    and "\<And>v. v \<in> ev_version ` set rows \<Longrightarrow> v \<le> cur + int i"
    and "\<And>v. v \<in> ev_sequence ` set rows \<Longrightarrow> v \<le> sq + int i"
  shows "is_Ok (fst (insert_loop tm cr tc flt ids bt cur sq i es rows))"
  using assms(4,5,8-)
proof (induction es arbitrary: i rows)
  case (Cons e es)
  let ?e = "envelope_of ids bt i (EventStreamVersion (cur + 1 + int i)) (sq + 1 + int i) e"
  have rng: "in_i64 (cur + 1 + int i)" "in_i64 (sq + 1 + int i)" "in_i64 (cur + 1)" "in_i64 (int i)"
    using Cons.prems(1) assms(2,3) by (auto simp: in_i64_def)
  have v: "wrap64 (wrap64 (cur + 1) + wrap64 (int i)) = cur + 1 + int i" using rng by simp
  have sq: "wrap64 (wrap64 (sq + 1) + wrap64 (int i)) = sq + 1 + int i"
    using rng assms(2) by (intro wrap_in_range)
  obtain r where r: "row_of_envelope cr tc ?e = Ok r"
    using Cons.prems(2) by (auto simp: row_of_envelope_def elim!: is_OkE)
  have fields: "ev_id r = uuid_to_string cr (new_id ids i)" "ev_version r = cur + 1 + int i"
    "ev_sequence r = sq + 1 + int i"
    using row_of_envelope_fields[OF r] by simp_all
  have ins: "insert_event_row tm flt i r rows = Ok (rows @ [r])"
    using assms(1) fields Cons.prems(3)[of i] Cons.prems(4)[of "ev_version r"] Cons.prems(5)[of "ev_sequence r"]
    by (auto simp: insert_event_row_Ok)
  have ids: "uuid_to_string cr (new_id ids k) \<noteq> uuid_to_string cr (new_id ids i)" if "i + 1 \<le> k" for k
    using that assms(6,7) by (auto dest!: injD)
  have "is_Ok (fst (insert_loop tm cr tc flt ids bt cur sq (i + 1) es (rows @ [r])))"
  proof (rule Cons.IH)
    show "uuid_to_string cr (new_id ids k) \<notin> ev_id ` set (rows @ [r])" if "i + 1 \<le> k" for k
      using that ids[OF that] Cons.prems(3)[of k] fields by auto
    show "v \<le> cur + int (i + 1)" if "v \<in> ev_version ` set (rows @ [r])" for v
      using that Cons.prems(4)[of v] fields by auto
    show "v \<le> sq + int (i + 1)" if "v \<in> ev_sequence ` set (rows @ [r])" for v
      using that Cons.prems(5)[of v] fields by auto
  qed (use Cons.prems in \<open>auto simp: algebra_simps\<close>)
  then obtain envs rows' where "insert_loop tm cr tc flt ids bt cur sq (i + 1) es (rows @ [r]) = (Ok envs, rows')"
    by (metis is_Ok.elims(2) prod.collapse)
  then show ?case
    using v sq r ins rng assms(2,3) by (simp add: version_new_def Let_def)
qed simp

subsection \<open>The transaction\<close>

lemma uuid_law_inj: "uuid_law cr \<Longrightarrow> inj (uuid_to_string cr)"
  by (rule injI) (metis res.inject(1) uuid_law_def)

lemma max_sequence_upto: "map ev_sequence rows = [1..int (length rows)] \<Longrightarrow> max_sequence rows = int (length rows)"
proof (cases "rows = []")
  case False
  assume "map ev_sequence rows = [1..int (length rows)]"
  then have "set (map ev_sequence rows) = {1..int (length rows)}" by simp
  moreover have "Max {1..int (length rows)} = int (length rows)"
    using False by (intro Max_eqI) (auto simp: Suc_le_eq)
  ultimately show ?thesis using False by (simp add: max_sequence_def)
qed (simp add: max_sequence_def)

lemma idle_file [simp]:
  "idle f \<Longrightarrow> file_view f = tables (committed f)"
  by (simp add: file_view_def)

lemma begin_idle:
  "db_begin tm flt f = (r, f') \<Longrightarrow> idle f \<Longrightarrow>
     (\<exists>e. r = Err e) \<and> f' = f \<or> r = Ok () \<and> f' = f\<lparr>pending := Some (committed f)\<rparr>"
  by (auto simp: db_begin_def idle_def split: option.splits)

lemma in_tx [simp]:
  "file_view (f\<lparr>pending := Some s\<rparr>) = tables s"
  "file_put t (f\<lparr>pending := Some s\<rparr>) = f\<lparr>pending := Some (s\<lparr>tables := t\<rparr>)\<rparr>"
  by (simp_all add: file_view_def file_put_def db_view_def db_put_def)

lemma rollback_tx [simp]: "idle f \<Longrightarrow> db_rollback None (f\<lparr>pending := x\<rparr>) = f"
  by (cases f) (simp add: db_rollback_def idle_def)

lemma commit_tx:
  "db_commit flt (f\<lparr>pending := Some s\<rparr>) =
     (case flt of None \<Rightarrow> (Ok (), fresh_db s) | Some e \<Rightarrow> (Err e, f\<lparr>pending := Some s\<rparr>))"
  by (auto simp: db_commit_def db_view_def fresh_db_def split: option.splits)

lemma insert_loop_length:
  "insert_loop tm cr tc flt ids bt cur sq i es rows = (Ok envs, rows') \<Longrightarrow> length envs = length es"
  by (induction es arbitrary: i rows envs) (auto simp: res_simps Let_def split: res.splits)

lemma insert_events_length:
  "insert_events tm cr tc flt ids bt cur es t = (Ok envs, t') \<Longrightarrow> length envs = length es"
  by (auto simp: insert_events_def dest: insert_loop_length split: option.splits prod.splits)

text \<open>Whatever fails in the transaction, a working \<open>ROLLBACK\<close> leaves the file as it was.\<close>

lemma append_tx_rollback:
  assumes "append_tx tm cr tc flt ids bt ex events f = (Err e, f')"
    and "idle f" "flt TxRollback = None" "events \<noteq> []"
  shows "f' = f"
proof -
  have ne: "insert_events tm cr tc flt ids bt cur events t \<noteq> (Ok [], t')" for cur t t'
    using insert_events_length assms(4) by fastforce
  with assms show ?thesis
    unfolding append_tx_def
    by (auto elim!: sbind_cases dest!: begin_idle simp: commit_tx Let_def
        split: res.splits prod.splits if_splits option.splits)
qed

text \<open>An append that does not return commits nothing, whether or not the \<open>ROLLBACK\<close> was carried out.\<close>

lemma append_tx_committed:
  assumes "append_tx tm cr tc flt ids bt ex events f = (r, f')" "idle f" "\<not> is_Ok r"
  shows "committed f' = committed f"
proof -
  have rollback: "committed (db_rollback q d) = committed d" for q and d :: event_file
    by (simp add: db_rollback_def split: option.splits)
  have put: "committed (file_put t d) = committed d" if "pending d \<noteq> None" for t d
    using that by (auto simp: file_put_def db_put_def)
  show ?thesis
    using assms(1) unfolding append_tx_def
  proof (cases rule: sbind_cases)
    case (Stop q)
    with assms(2) show ?thesis by (auto simp: db_begin_def idle_def split: option.splits)
  next
    case (Ok u g)
    then have g: "pending g \<noteq> None" "committed g = committed f"
      using assms(2) by (auto simp: db_begin_def idle_def split: option.splits)
    with Ok(2) assms(3) show ?thesis
      by (auto simp: rollback put Let_def db_commit_def split: res.splits prod.splits if_splits option.splits)
  qed
qed

text \<open>The steps of an append that commits.\<close>

lemma append_tx_steps:
  assumes "append_tx tm cr tc flt ids bt ex events f = (Ok res, f')" "idle f"
  obtains cur envs t t' where
    "read_event_file_append_head tm cr flt (tables (committed f)) = Ok cur"
    "validate_expected_version_against ex cur = Ok cur"
    "insert_events tm cr tc flt ids bt cur events (tables (committed f)) = (Ok envs, t)"
    "envs \<noteq> []"
    "update_event_file_append_head tm flt (version_get (env_version (last envs)))
       (Some (uuid_to_string cr (env_id (last envs)))) t = Ok t'"
    "f' = fresh_db ((committed f)\<lparr>tables := t'\<rparr>)"
    "res = \<lparr>res_first_version = env_version (List.hd envs), res_last_version = env_version (last envs),
       res_events = envs\<rparr>"
proof -
  define f1 where "f1 = f\<lparr>pending := Some (committed f)\<rparr>"
  obtain u where "db_begin tm (flt TxBegin) f = (Ok u, f1)"
    using assms by (auto simp: append_tx_def res_simps f1_def dest: begin_idle)
  note body = assms(1)[unfolded append_tx_def this sbind.simps]
  obtain cur where cur: "read_event_file_append_head tm cr flt (tables (committed f)) = Ok cur"
    "validate_expected_version_against ex cur = Ok cur"
    using body by (auto simp: f1_def res_simps validate_expected_Ok split: res.splits)
  obtain envs t where ins: "insert_events tm cr tc flt ids bt cur events (tables (committed f)) = (Ok envs, t)"
    and ne: "envs \<noteq> []"
    using body cur by (auto simp: f1_def split: res.splits prod.splits if_splits)
  obtain t' where upd: "update_event_file_append_head tm flt (version_get (env_version (last envs)))
       (Some (uuid_to_string cr (env_id (last envs)))) t = Ok t'"
    using body cur ins ne by (auto simp: f1_def Let_def split: res.splits)
  from body cur ins ne upd have "flt TxCommit = None \<and> f' = fresh_db ((committed f)\<lparr>tables := t'\<rparr>) \<and>
    res = \<lparr>res_first_version = env_version (List.hd envs), res_last_version = env_version (last envs),
       res_events = envs\<rparr>"
    by (cases "flt TxCommit") (auto simp: f1_def commit_tx)
  with that[OF cur ins ne upd] show ?thesis by blast
qed

text \<open>A committed append: the rows it adds and the head it leaves.\<close>

lemma append_tx_commit:
  assumes tx: "append_tx tm cr tc flt ids bt ex events f = (Ok res, f')"
    and f: "idle f" "file_content cr (tables (committed f)) = Some (rows, h)"
    and law: "uuid_law cr"
    and h: "int (length rows) \<le> h" "in_i64 h" "map ev_sequence rows = [1..int (length rows)]"
  shows "idle f' \<and> validate_expected_version_against ex h = Ok h \<and> events \<noteq> [] \<and>
    in_i64 (h + int (length events)) \<and>
    res_events res = envelopes_from ids bt h (int (length rows)) 0 events \<and>
    res_first_version res = EventStreamVersion (h + 1) \<and>
    res_last_version res = EventStreamVersion (h + int (length events)) \<and>
    (\<exists>new. res_map (row_of_envelope cr tc) (res_events res) = Ok new \<and>
       file_content cr (tables (committed f')) = Some (rows @ new, h + int (length events)))"
proof -
  define f1 where "f1 = f\<lparr>pending := Some (committed f)\<rparr>"
  obtain cur envs t t' where
    head: "read_event_file_append_head tm cr flt (tables (committed f)) = Ok cur"
    and ex: "validate_expected_version_against ex cur = Ok cur"
    and ins: "insert_events tm cr tc flt ids bt cur events (tables (committed f)) = (Ok envs, t)"
    and ne: "envs \<noteq> []"
    and upd: "update_event_file_append_head tm flt (version_get (env_version (last envs)))
       (Some (uuid_to_string cr (env_id (last envs)))) t = Ok t'"
    and f': "f' = fresh_db ((committed f)\<lparr>tables := t'\<rparr>)"
    and res: "res = \<lparr>res_first_version = env_version (hd envs), res_last_version = env_version (last envs),
       res_events = envs\<rparr>"
    by (rule append_tx_steps[OF tx f(1)])
  have cur: "cur = h" using read_head_unique[OF f(2) head] .
  obtain hd where tbl: "events_table (tables (committed f)) = Some rows"
    "head_table (tables (committed f)) = Some (Some hd)" "hd_version hd = h"
    using f(2) by (auto simp: file_content_Some)
  obtain rows' where loop: "insert_loop tm cr tc flt ids bt h (max_sequence rows) 0 events rows = (Ok envs, rows')"
    and t: "t = (tables (committed f))\<lparr>events_table := Some rows'\<rparr>"
    using ins tbl cur by (auto simp: insert_events_def split: option.splits prod.splits)
  have L: "envs = envelopes_from ids bt h (int (length rows)) 0 events \<and> in_i64 (h + int (length events)) \<and>
    (\<exists>new. res_map (row_of_envelope cr tc) envs = Ok new \<and> rows' = rows @ new)"
    using insert_loop_Ok[OF loop] h by (auto simp: max_sequence_upto)
  then obtain new where new: "res_map (row_of_envelope cr tc) envs = Ok new" "rows' = rows @ new" by blast
  have evne: "events \<noteq> []" using L ne by auto
  have vs: "map (version_get \<circ> env_version) envs = [h + 1 .. h + int (length events)]"
    using L versions_envelopes_from[of ids bt h "int (length rows)" 0 events] by simp
  have lastv: "version_get (env_version (last envs)) = h + int (length events)"
  proof -
    have "last (map (version_get \<circ> env_version) envs) = last [h + 1 .. h + int (length events)]" using vs by simp
    moreover have "[h + 1 .. h + int (length events)] = [h + 1 .. h + int (length events) - 1] @ [h + int (length events)]"
      using evne by (intro upto_rec2) (cases events, auto)
    ultimately show ?thesis using ne by (simp add: last_map)
  qed
  have hdv: "version_get (env_version (List.hd envs)) = h + 1"
    using L evne by (cases events) auto
  have "t' = t\<lparr>head_table := Some (Some \<lparr>hd_version = h + int (length events),
      hd_last_event_id = Some (uuid_to_string cr (env_id (last envs)))\<rparr>)\<rparr>"
    using upd tbl t lastv by (auto simp: update_event_file_append_head_def split: option.splits)
  then have "file_content cr t' = Some (rows @ new, h + int (length events))"
    using t new law by (simp add: file_content_Some uuid_law_def)
  then show ?thesis
    using L evne ex cur new res f' lastv hdv
    by (auto simp: event_stream_version.expand)
qed

text \<open>Without faults, and with room for the versions, an append whose check passes commits.\<close>

lemma append_tx_succeeds:
  assumes "\<And>c. flt c = None" "idle f" "file_content cr (tables (committed f)) = Some (rows, h)"
    and "uuid_law cr" "inj (new_id ids)" "\<And>k. uuid_to_string cr (new_id ids k) \<notin> ev_id ` set rows"
    and "int (length rows) \<le> h" "in_i64 (h + int (length events))" "map ev_sequence rows = [1..int (length rows)]"
    and "\<And>v. v \<in> ev_version ` set rows \<Longrightarrow> v \<le> h"
    and "events \<noteq> []" "list_all (\<lambda>e. is_Ok (json_to_string cr (ne_payload e))) events"
    and "validate_expected_version_against ex h = Ok h"
  shows "is_Ok (fst (append_tx tm cr tc flt ids bt ex events f))"
proof -
  have "set (map ev_sequence rows) = {1..int (length rows)}" using assms(9) by simp
  then have seqs: "v \<le> int (length rows)" if "v \<in> ev_sequence ` set rows" for v using that by auto
  have "is_Ok (fst (insert_loop tm cr tc flt ids bt h (int (length rows)) 0 events rows))"
    by (rule insert_loop_succeeds)
      (use assms seqs in \<open>auto simp: uuid_law_inj\<close>)
  then obtain envs rows' where loop: "insert_loop tm cr tc flt ids bt h (max_sequence rows) 0 events rows = (Ok envs, rows')"
    by (metis is_Ok.elims(2) prod.collapse max_sequence_upto[OF assms(9)])
  have ne: "envs \<noteq> []" using insert_loop_length[OF loop] assms(11) by auto
  obtain hd where tbl: "events_table (tables (committed f)) = Some rows"
    "head_table (tables (committed f)) = Some (Some hd)" "hd_version hd = h"
    using assms(3) by (auto simp: file_content_Some)
  have "read_event_file_append_head tm cr flt (tables (committed f)) = Ok h"
    using assms(1) by (intro read_head_Ok[OF assms(3)]) auto
  moreover have "insert_events tm cr tc flt ids bt h events (tables (committed f)) =
      (Ok envs, (tables (committed f))\<lparr>events_table := Some rows'\<rparr>)"
    using loop tbl assms(1) by (simp add: insert_events_def)
  moreover have "\<exists>t'. update_event_file_append_head tm flt v l
      ((tables (committed f))\<lparr>events_table := Some rows'\<rparr>) = Ok t'" for v l
    using tbl assms(1) by (simp add: update_event_file_append_head_def)
  ultimately show ?thesis
    using assms(1,2,13) ne
    by (auto simp: append_tx_def db_begin_def idle_def commit_tx Let_def split: res.splits)
      (metis res.distinct)+
qed

subsection \<open>Queries and new files\<close>

definition decode_row ::
  "turso_msgs \<Rightarrow> ('j, 'u) text_crates \<Rightarrow> ('date, 'dt) time_crate \<Rightarrow> event_row \<Rightarrow> ('j, 'u, 'dt) envelope result" where
  "decode_row tm cr tc r = event_from_row tm cr tc (event_columns r)"

lemma res_map_comp: "res_map f (map g xs) = res_map (f \<circ> g) xs"
  by (induction xs) auto

lemma query_events_Ok:
  assumes "\<And>c. flt c = None" "events_table t = Some rows" "sorted (map ev_version rows)"
  shows "query_events tm cr tc flt p n t = res_map (decode_row tm cr tc) (take n (filter p rows))"
proof -
  have "sort_key ev_version (filter p rows) = filter p rows"
    by (intro sort_key_sorted sorted_filter_key assms(3))
  then show ?thesis
    using assms(1,2)
    by (simp add: query_events_def collect_events_from_rows_def select_events_def res_map_comp comp_def
        decode_row_def[abs_def])
qed

lemma event_file_batch_Ok:
  "event_file_batch tm flt q t = (Ok u, t') \<Longrightarrow>
     events_table t = None \<and> head_table t = None \<and> t' = \<lparr>events_table = Some [], head_table = Some None\<rparr>"
  by (cases t) (auto simp: event_file_batch_def Let_def split: option.splits if_splits)

lemma initialize_head_Ok:
  "initialize_event_file_append_head tm flt v l t = Ok t' \<Longrightarrow>
     t' = t\<lparr>head_table := Some (Some \<lparr>hd_version = v, hd_last_event_id = l\<rparr>)\<rparr>"
  by (auto simp: initialize_event_file_append_head_def split: option.splits)

text \<open>A file that holds no events: a missing one, or the remainder of a creation that failed at any
  point.\<close>

definition vacant :: "event_file \<Rightarrow> bool" where
  "vacant f \<longleftrightarrow>
     idle f \<and>
     (case events_table (tables (committed f)) of
        None \<Rightarrow> applied_map (committed f) ''001_event_file_schema'' = None
      | Some rows \<Rightarrow> rows = [])"

lemma vacant_blank [simp]: "vacant blank_file"
  by (simp add: vacant_def blank_file_def applied_map_def)

lemma event_file_batch_tables:
  "event_file_batch tm flt q t = (r, t') \<Longrightarrow>
     t' = t \<or> events_table t = None \<and> events_table t' = Some []"
  by (auto simp: event_file_batch_def Let_def split: option.splits if_splits)

lemma applied_map_Some: "applied_map s n = Some c \<Longrightarrow> migrations_table s \<noteq> None"
  by (auto simp: applied_map_def split: option.splits)

definition schema_vacant :: "file_schema \<Rightarrow> bool" where
  "schema_vacant s \<longleftrightarrow>
     (case events_table (tables s) of None \<Rightarrow> applied_map s ''001_event_file_schema'' = None | Some rows \<Rightarrow> rows = [])"

lemma vacant_iff: "vacant f \<longleftrightarrow> idle f \<and> schema_vacant (committed f)"
  by (simp add: vacant_def schema_vacant_def)

lemma ensure_same:
  "ensure_migrations_table flt s = (r, s') \<Longrightarrow> applied_map s' = applied_map s \<and> tables s' = tables s"
  by (auto simp: ensure_migrations_table_def applied_map_def split: option.splits)

lemma load_applied_map: "load_applied_migrations tm flt s = Ok applied \<Longrightarrow> applied = applied_map s"
  by (auto simp: load_applied_migrations_def collect_applied_rows applied_map_def split: option.splits)

lemma apply_schema_vacant:
  assumes "apply_migration tm (event_file_batch tm bf) flt i now m c s = (r, s')" "schema_vacant s"
  shows "schema_vacant s' \<and> (\<forall>u. r = Ok u \<longrightarrow> events_table (tables s') = Some [])"
proof -
  obtain r1 t where b: "event_file_batch tm bf (mg_sql m) (tables s) = (r1, t)" by (cases "event_file_batch tm bf (mg_sql m) (tables s)")
  show ?thesis
  proof (cases "\<exists>u. r1 = Ok u")
    case True
    with b have "events_table t = Some []" by (auto dest: event_file_batch_Ok)
    with assms(1) b True show ?thesis
      by (auto simp: apply_migration_def Let_def schema_vacant_def split: option.splits if_splits)
  next
    case False
    then have "s' = s\<lparr>tables := t\<rparr> \<and> (\<forall>u. r \<noteq> Ok u)"
      using assms(1) b by (auto simp: apply_migration_def split: res.splits)
    with event_file_batch_tables[OF b] assms(2) show ?thesis
      by (auto simp: schema_vacant_def applied_map_tables split: option.splits)
  qed
qed

lemma run_schema_vacant:
  assumes "run_migrations tm digest (event_file_batch tm bf) flt now partition_migrations s = (r, s')"
    and "schema_vacant s"
  shows "schema_vacant s' \<and> (\<forall>u. r = Ok u \<longrightarrow> events_table (tables s') = Some [])"
proof -
  obtain r1 s1 where e: "ensure_migrations_table flt s = (r1, s1)" by (cases "ensure_migrations_table flt s")
  have v1: "schema_vacant s1" using ensure_same[OF e] assms(2) by (auto simp: schema_vacant_def split: option.splits)
  show ?thesis
  proof (cases "(\<exists>u. r1 = Ok u) \<and> (\<exists>a. load_applied_migrations tm flt s1 = Ok a)")
    case True
    then have l: "load_applied_migrations tm flt s1 = Ok (applied_map s1)" by (auto dest: load_applied_map)
    let ?m = "\<lparr>mg_name = ''001_event_file_schema'', mg_sql = EventFileSchema\<rparr>"
    have run: "run_pending_migrations tm digest (event_file_batch tm bf) flt now (applied_map s1) 0 [?m] s1 = (r, s')"
      using assms(1) e l True by (auto simp: run_migrations_def partition_migrations_def with_migration_def runner_new_def)
    show ?thesis
    proof (cases "applied_map s1 ''001_event_file_schema''")
      case None
      obtain r2 s2 where ap: "apply_migration tm (event_file_batch tm bf) flt 0 now ?m (digest EventFileSchema) s1 = (r2, s2)"
        by (cases "apply_migration tm (event_file_batch tm bf) flt 0 now ?m (digest EventFileSchema) s1")
      with run None have "s' = s2 \<and> (\<forall>u. r = Ok u \<longrightarrow> (\<exists>u. r2 = Ok u))"
        by (auto split: res.splits)
      with apply_schema_vacant[OF ap v1] show ?thesis by auto
    next
      case (Some c)
      with run have "s' = s1" by (auto split: res.splits)
      with v1 Some show ?thesis by (auto simp: schema_vacant_def split: option.splits)
    qed
  next
    case False
    with assms(1) e have "s' = s1 \<and> (\<forall>u. r \<noteq> Ok u)"
      by (auto simp: run_migrations_def split: res.splits)
    with v1 show ?thesis by simp
  qed
qed

text \<open>
  Creating a file where none, or only a vacant one, is: whatever fails, no events appear; on
  success the file is empty and starts at the given head.
\<close>

lemma setup_file_vacant:
  assumes "setup_file tm digest ce v None f = (r, f')" "vacant f"
  shows "vacant f' \<and> (\<forall>u. r = Ok u \<longrightarrow> idle f' \<and> file_content cr (tables (committed f')) = Some ([], v))"
proof -
  obtain r1 s where run: "run_migrations tm digest (event_file_batch tm (ce_batch ce)) (ce_migrate ce) (ce_now ce)
      partition_migrations (committed f) = (r1, s)"
    by (cases "run_migrations tm digest (event_file_batch tm (ce_batch ce)) (ce_migrate ce) (ce_now ce)
      partition_migrations (committed f)")
  note V = run_schema_vacant[OF run]
  have v: "schema_vacant s" "\<And>u. r1 = Ok u \<Longrightarrow> events_table (tables s) = Some []"
    using V assms(2) by (auto simp: vacant_iff)
  have idle: "pending f = None" using assms(2) by (simp add: vacant_iff idle_def)
  show ?thesis
    using assms(1) run v idle
    by (auto simp: setup_file_def vacant_iff schema_vacant_def file_content_Some
        split: res.splits option.splits dest!: initialize_head_Ok)
qed

definition quiet_create :: create_env where
  "quiet_create =
     \<lparr>ce_open = (\<lambda>_. None), ce_migrate = (\<lambda>_. None), ce_batch = (\<lambda>_. None), ce_now = 1727884801234,
      ce_head = (\<lambda>_. None)\<rparr>"

definition create_ok :: "create_env \<Rightarrow> bool" where
  "create_ok ce \<longleftrightarrow> (\<forall>c. ce_open ce c = None) \<and> (\<forall>c. ce_migrate ce c = None) \<and> (\<forall>c. ce_batch ce c = None) \<and>
     (\<forall>c. ce_head ce c = None)"

lemma setup_file_succeeds: "create_ok ce \<Longrightarrow> \<exists>f. setup_file tm digest ce v None blank_file = (Ok (), f)"
  by (simp add: create_ok_def setup_file_def run_migrations_def partition_migrations_def with_migration_def runner_new_def
      blank_file_def ensure_migrations_table_def load_applied_migrations_def apply_migration_def Let_def
      event_file_batch_def initialize_event_file_append_head_def fresh_db_def)

end
