(* ===== verification/EventStreamLaws.thy ===== *)
theory EventStreamLaws
  imports EventStream EventFileLaws RotationLaws
begin

section \<open>The log of a stream and its invariant\<close>

text \<open>
  The abstract state of a stream is its log: the rows of its event files in catalog order.
  \<open>log_inv\<close> says that the catalog and the files describe one gapless log (it holds half-way
  through a rotation too), \<open>active_inv\<close> that the active partition is the log's end, and
  \<open>unsealed\<close> that the active file is open for appends. Reads are characterised under \<open>log_inv\<close>
  alone; rotation keeps all three and the log.
\<close>

subsection \<open>Contents\<close>

definition content ::
  "('j, 'u) text_crates \<Rightarrow> event_files \<Rightarrow> string \<Rightarrow> (event_row list \<times> int) option" where
  "content cr files name =
     (case map_of files name of None \<Rightarrow> None
      | Some f \<Rightarrow> if idle f then file_content cr (tables (committed f)) else None)"

definition rows_of :: "('j, 'u) text_crates \<Rightarrow> event_files \<Rightarrow> string \<Rightarrow> event_row list" where
  "rows_of cr files name = (case content cr files name of None \<Rightarrow> [] | Some (rows, h) \<Rightarrow> rows)"

definition ranges_log ::
  "('j, 'u) text_crates \<Rightarrow> event_files \<Rightarrow> event_file_range list \<Rightarrow> event_row list" where
  "ranges_log cr files rs = concat (map (\<lambda>r. rows_of cr files (rng_name r)) rs)"

definition log_rows :: "('j, 'u, 'date, 'dt) stream_context \<Rightarrow> stream \<Rightarrow> event_row list" where
  "log_rows cx s = ranges_log (cx_text cx) (st_files s) (cat_ranges (st_catalog s))"

definition stream_log ::
  "('j, 'u, 'date, 'dt) stream_context \<Rightarrow> stream \<Rightarrow> ('j, 'u, 'dt) envelope list result" where
  "stream_log cx s = res_map (decode_row (cx_msgs cx) (cx_text cx) (cx_time cx)) (log_rows cx s)"

subsection \<open>The invariant\<close>

text \<open>A range agrees with its file: consecutive versions from its first, its head, its seal.\<close>

definition range_sound :: "('j, 'u) text_crates \<Rightarrow> event_files \<Rightarrow> event_file_range \<Rightarrow> bool" where
  "range_sound cr files r \<longleftrightarrow>
     rng_path r = rng_name r \<and> 1 \<le> rng_first r \<and>
     (case content cr files (rng_name r) of None \<Rightarrow> False
      | Some (rows, h) \<Rightarrow>
          h = rng_first r + int (length rows) - 1 \<and> map ev_version rows = [rng_first r .. h] \<and>
          map ev_sequence rows = [1 .. int (length rows)] \<and>
          rng_last r = (if rng_sealed r then Some h else None))"

text \<open>A sealed file without rows takes no part in the log.\<close>

definition live :: "('j, 'u) text_crates \<Rightarrow> event_files \<Rightarrow> event_file_range \<Rightarrow> bool" where
  "live cr files r \<longleftrightarrow> \<not> (rng_sealed r \<and> rows_of cr files (rng_name r) = [])"

fun chain :: "('j, 'u) text_crates \<Rightarrow> event_files \<Rightarrow> int \<Rightarrow> event_file_range list \<Rightarrow> bool" where
  "chain cr files v [] = True"
| "chain cr files v (r # rs) =
     (rng_first r = v \<and> (rng_sealed r \<or> rs = []) \<and>
      chain cr files (v + int (length (rows_of cr files (rng_name r)))) rs)"

definition cat_names :: "catalog \<Rightarrow> string set" where
  "cat_names cat = col_name ` set (db_view cat)"

text \<open>Every row of the log is the stored form of the event it decodes to.\<close>

definition log_decodes :: "('j, 'u, 'date, 'dt) stream_context \<Rightarrow> stream \<Rightarrow> bool" where
  "log_decodes cx s \<longleftrightarrow>
     (\<exists>es. stream_log cx s = Ok es \<and> res_map (row_of_envelope (cx_text cx) (cx_time cx)) es = Ok (log_rows cx s))"

definition log_inv :: "('j, 'u, 'date, 'dt) stream_context \<Rightarrow> stream \<Rightarrow> bool" where
  "log_inv cx s \<longleftrightarrow>
     idle (st_catalog s) \<and> distinct (map col_name (committed (st_catalog s))) \<and>
     (\<forall>r \<in> set (cat_ranges (st_catalog s)). range_sound (cx_text cx) (st_files s) r) \<and>
     chain (cx_text cx) (st_files s) 1 (filter (live (cx_text cx) (st_files s)) (cat_ranges (st_catalog s))) \<and>
     (\<forall>name. name \<notin> cat_names (st_catalog s) \<longrightarrow> vacant (file_of (st_files s) name)) \<and>
     log_decodes cx s"

definition log_end :: "('j, 'u, 'date, 'dt) stream_context \<Rightarrow> stream \<Rightarrow> int" where
  "log_end cx s = int (length (log_rows cx s))"

definition unsealed :: "stream \<Rightarrow> bool" where
  "unsealed s \<longleftrightarrow> (\<exists>r \<in> set (cat_ranges (st_catalog s)). rng_name r = act_name (st_active s) \<and> \<not> rng_sealed r)"

text \<open>
  The active file ends the log: its head is the log's length, it is the last live range or has
  no rows, and no range starts after it.
\<close>

definition active_inv :: "('j, 'u, 'date, 'dt) stream_context \<Rightarrow> stream \<Rightarrow> bool" where
  "active_inv cx s \<longleftrightarrow>
     act_name (st_active s) \<in> cat_names (st_catalog s) \<and>
     (\<exists>rows. content (cx_text cx) (st_files s) (act_name (st_active s)) = Some (rows, log_end cx s)) \<and>
     (\<forall>r \<in> set (cat_ranges (st_catalog s)). \<not> rng_sealed r \<longrightarrow> rng_name r = act_name (st_active s)) \<and>
     (rows_of (cx_text cx) (st_files s) (act_name (st_active s)) = [] \<or>
      (\<exists>rs r. filter (live (cx_text cx) (st_files s)) (cat_ranges (st_catalog s)) = rs @ [r] \<and>
         rng_name r = act_name (st_active s))) \<and>
     (\<forall>r \<in> set (cat_ranges (st_catalog s)).
        rng_first r + int (length (rows_of (cx_text cx) (st_files s) (act_name (st_active s)))) \<le> log_end cx s + 1)"

subsection \<open>Sorted ranges\<close>

lemma insort_key_snoc: "f y \<le> f x \<Longrightarrow> insort_key f y (zs @ [x]) = insort_key f y zs @ [x]"
  by (induction zs) auto

lemma sort_key_snoc: "(\<And>y. y \<in> set ys \<Longrightarrow> f y \<le> f x) \<Longrightarrow> sort_key f (ys @ [x]) = sort_key f ys @ [x]"
  by (induction ys) (auto simp: insort_key_snoc)

lemma insort_key_map: "(\<And>x. f (g x) = f x) \<Longrightarrow> insort_key f (g y) (map g zs) = map g (insort_key f y zs)"
  by (induction zs) auto

lemma sort_key_map: "(\<And>x. f (g x) = f x) \<Longrightarrow> sort_key f (map g xs) = map g (sort_key f xs)"
  by (induction xs) (auto simp: insort_key_map)

lemma cat_ranges_idle: "idle cat \<Longrightarrow> cat_ranges cat = map row_to_range (order_rows (committed cat))"
  by (simp add: cat_ranges_def)

lemma set_cat_ranges: "set (cat_ranges cat) = row_to_range ` set (db_view cat)"
  by (simp add: cat_ranges_def order_rows_def)

lemma cat_names_ranges: "cat_names cat = rng_name ` set (cat_ranges cat)"
  by (force simp: cat_names_def set_cat_ranges row_to_range_def)

lemma distinct_cat_ranges:
  assumes "idle cat" "distinct (map col_name (committed cat))"
  shows "distinct (map rng_name (cat_ranges cat))"
proof -
  have "distinct (map col_name (order_rows (committed cat)))"
    using assms(2) by (simp add: order_rows_def distinct_map)
  then show ?thesis
    using assms(1) by (simp add: cat_ranges_idle comp_def row_to_range_def)
qed

text \<open>Sealing keeps the order; inserting a range that starts after every other live one appends it.\<close>

definition seal_range :: "string \<Rightarrow> int \<Rightarrow> event_file_range \<Rightarrow> event_file_range" where
  "seal_range name v r = (if rng_name r = name then r\<lparr>rng_sealed := True, rng_last := Some v\<rparr> else r)"

lemma seal_range_fields [simp]:
  "rng_name (seal_range n v r) = rng_name r" "rng_path (seal_range n v r) = rng_path r"
  "rng_first (seal_range n v r) = rng_first r"
  "rng_sealed (seal_range n v r) = (rng_name r = n \<or> rng_sealed r)"
  "rng_last (seal_range n v r) = (if rng_name r = n then Some v else rng_last r)"
  by (simp_all add: seal_range_def)

lemma cat_ranges_seal:
  assumes "idle cat"
  shows "cat_ranges (cat\<lparr>committed := seal_rows n v (committed cat)\<rparr>) = map (seal_range n v) (cat_ranges cat)"
proof -
  let ?g = "\<lambda>r. if col_name r = n then r\<lparr>col_sealed := 1, col_last := Some v\<rparr> else r"
  have "order_rows (map ?g t) = map ?g (order_rows t)" for t
    unfolding order_rows_def by (rule sort_key_map) simp
  moreover have "row_to_range (?g r) = seal_range n v (row_to_range r)" for r
    by (simp add: row_to_range_def seal_range_def)
  ultimately show ?thesis
    using assms by (simp add: cat_ranges_idle seal_rows_def comp_def)
qed

lemma filter_cat_ranges_new:
  assumes "idle cat" "rng_name rg \<notin> cat_names cat" "P rg"
    and "\<And>r. r \<in> set (cat_ranges cat) \<Longrightarrow> P r \<Longrightarrow> rng_first r < rng_first rg"
  shows "filter P (cat_ranges (cat\<lparr>committed := upsert_by col_name (range_to_row rg) (committed cat)\<rparr>)) =
    filter P (cat_ranges cat) @ [rg]"
proof -
  let ?k = "\<lambda>r. (col_first r, col_name r)" and ?Q = "\<lambda>r. P (row_to_range r)"
  have "upsert_by col_name (range_to_row rg) (committed cat) = committed cat @ [range_to_row rg]"
    using assms(1,2) by (auto simp: upsert_by_def cat_names_def range_to_row_def)
  moreover have "filter ?Q (order_rows (committed cat @ [range_to_row rg])) =
      filter ?Q (order_rows (committed cat)) @ [range_to_row rg]"
  proof -
    have "?k y \<le> ?k (range_to_row rg)" if "y \<in> set (filter ?Q (committed cat))" for y
    proof -
      have "row_to_range y \<in> set (cat_ranges cat)" using that assms(1) by (simp add: set_cat_ranges)
      with assms(4)[of "row_to_range y"] that have "col_first y < rng_first rg" by (simp add: row_to_range_def)
      then show ?thesis by (simp add: range_to_row_def less_eq_prod_def)
    qed
    then have "sort_key ?k (filter ?Q (committed cat) @ [range_to_row rg]) =
        sort_key ?k (filter ?Q (committed cat)) @ [range_to_row rg]"
      by (rule sort_key_snoc)
    with assms(3) show ?thesis by (simp add: order_rows_def filter_sort)
  qed
  ultimately show ?thesis
    using assms(1) by (simp add: cat_ranges_idle filter_map comp_def)
qed

subsection \<open>The versions of the log\<close>

lemma ranges_log_simps [simp]:
  "ranges_log cr files [] = []"
  "ranges_log cr files (r # rs) = rows_of cr files (rng_name r) @ ranges_log cr files rs"
  "ranges_log cr files (rs @ qs) = ranges_log cr files rs @ ranges_log cr files qs"
  by (simp_all add: ranges_log_def)

lemma ranges_log_live: "ranges_log cr files (filter (live cr files) rs) = ranges_log cr files rs"
  by (induction rs) (auto simp: live_def)

lemma log_rows_live:
  "log_rows cx s = ranges_log (cx_text cx) (st_files s)
     (filter (live (cx_text cx) (st_files s)) (cat_ranges (st_catalog s)))"
  by (simp add: log_rows_def ranges_log_live)

lemma range_soundD:
  assumes "range_sound cr files r"
  obtains h where "content cr files (rng_name r) = Some (rows_of cr files (rng_name r), h)"
    "h = rng_first r + int (length (rows_of cr files (rng_name r))) - 1"
    "map ev_version (rows_of cr files (rng_name r)) = [rng_first r .. h]"
    "map ev_sequence (rows_of cr files (rng_name r)) = [1 .. int (length (rows_of cr files (rng_name r)))]"
    "rng_last r = (if rng_sealed r then Some h else None)" "rng_path r = rng_name r" "1 \<le> rng_first r"
  using assms by (auto simp: range_sound_def rows_of_def split: option.splits)

lemma upto_join: "a \<le> m + 1 \<Longrightarrow> m \<le> b \<Longrightarrow> [a..m] @ [m + 1..b] = [a..b :: int]"
  using upto_split2[of a m b] by (cases "a = m + 1") simp_all

lemma chain_versions:
  assumes "chain cr files v rs" "\<forall>r \<in> set rs. range_sound cr files r"
  shows "map ev_version (ranges_log cr files rs) = [v .. v + int (length (ranges_log cr files rs)) - 1]"
  using assms
proof (induction rs arbitrary: v)
  case (Cons r rs)
  then obtain h where h: "h = v + int (length (rows_of cr files (rng_name r))) - 1"
    "map ev_version (rows_of cr files (rng_name r)) = [v .. h]"
    by (auto elim: range_soundD)
  have "map ev_version (ranges_log cr files rs) = [h + 1 .. h + int (length (ranges_log cr files rs))]"
  proof -
    have v: "v + int (length (rows_of cr files (rng_name r))) = h + 1" using h(1) by simp
    have "chain cr files (h + 1) rs" using Cons.prems(1) by (simp only: chain.simps v)
    from Cons.IH[OF this] Cons.prems(2) show ?thesis by simp
  qed
  then have "map ev_version (ranges_log cr files (r # rs)) =
      [v .. h] @ [h + 1 .. h + int (length (ranges_log cr files rs))]"
    using h by simp
  also have "\<dots> = [v .. h + int (length (ranges_log cr files rs))]"
    by (rule upto_join) (simp_all add: h(1))
  also have "h + int (length (ranges_log cr files rs)) = v + int (length (ranges_log cr files (r # rs))) - 1"
    by (simp add: h(1))
  finally show ?case .
qed simp

lemma chain_first_bound:
  assumes "chain cr files v rs" "r \<in> set rs"
  shows "v \<le> rng_first r \<and> rng_first r + int (length (rows_of cr files (rng_name r))) \<le>
    v + int (length (ranges_log cr files rs))"
  using assms by (induction rs arbitrary: v) (auto, force+)

lemma chain_append:
  "chain cr files v (rs @ [r]) \<longleftrightarrow>
     chain cr files v rs \<and> (\<forall>q \<in> set rs. rng_sealed q) \<and> rng_first r = v + int (length (ranges_log cr files rs))"
  by (induction rs arbitrary: v) (auto simp: algebra_simps)

lemma log_inv_ranges: "log_inv cx s \<Longrightarrow> r \<in> set (cat_ranges (st_catalog s)) \<Longrightarrow> range_sound (cx_text cx) (st_files s) r"
  by (simp add: log_inv_def)

lemma log_versions: "log_inv cx s \<Longrightarrow> map ev_version (log_rows cx s) = [1 .. log_end cx s]"
  unfolding log_rows_live log_end_def
  by (subst chain_versions) (auto simp: log_inv_def)

lemma chain_cong:
  assumes "\<And>r. r \<in> set rs \<Longrightarrow> rows_of cr files (rng_name r) = rows_of cr files' (rng_name r)"
  shows "chain cr files v rs = chain cr files' v rs"
  using assms by (induction rs arbitrary: v) auto

lemma ranges_log_cong:
  assumes "\<And>r. r \<in> set rs \<Longrightarrow> rows_of cr files (rng_name r) = rows_of cr files' (rng_name r)"
  shows "ranges_log cr files rs = ranges_log cr files' rs"
  using assms by (induction rs) auto

subsection \<open>Reads\<close>

definition read_ok :: "read_env \<Rightarrow> bool" where
  "read_ok rd \<longleftrightarrow> (\<forall>c. rd_catalog rd c = None) \<and> (\<forall>i. rd_conn rd i = None) \<and> (\<forall>i c. rd_file rd i c = None)"

lemma decode_row_fields:
  assumes "decode_row tm cr tc r = Ok e"
  shows "env_version e = EventStreamVersion (ev_version r)"
    and "transpose_res (map_option (\<lambda>v. map_err Uuid (uuid_parse_str cr v)) (ev_workflow_started_by r)) =
      Ok (env_workflow_started_by e)"
  using assms
  by (auto simp: decode_row_def event_from_row_def event_columns_def column_defs res_simps)

lemma res_map_append: "res_map f (xs @ ys) = rbind (res_map f xs) (\<lambda>a. rbind (res_map f ys) (\<lambda>b. Ok (a @ b)))"
proof (induction xs)
  case Nil
  show ?case by (cases "res_map f ys") auto
next
  case (Cons x xs)
  then show ?case by (cases "f x"; cases "res_map f xs"; cases "res_map f ys") auto
qed

lemma res_map_take: "res_map f xs = Ok ys \<Longrightarrow> res_map f (take n xs) = Ok (take n ys)"
  by (induction xs arbitrary: ys n) (auto simp: res_simps take_Cons split: nat.splits)

lemma res_map_filter:
  assumes "res_map f xs = Ok ys" "\<And>x y. x \<in> set xs \<Longrightarrow> f x = Ok y \<Longrightarrow> P x = Q y"
  shows "res_map f (filter P xs) = Ok (filter Q ys)"
  using assms by (induction xs arbitrary: ys) (auto simp: res_simps)

lemma get_connection_content:
  assumes "content cr files name = Some (rows, h)"
  shows "\<exists>f. get_connection cx None files name = Ok f \<and> idle f \<and> file_content cr (tables (committed f)) = Some (rows, h)"
  using assms by (auto simp: content_def get_connection_def split: option.splits if_splits)

text \<open>The loop over the ranges collects the first \<open>limit\<close> matching events of their files.\<close>

lemma load_ranges_spec:
  assumes "read_ok rd" "\<forall>r \<in> set rs. range_sound (cx_text cx) files r" "length events \<le> limit"
    and "res_map (decode_row (cx_msgs cx) (cx_text cx) (cx_time cx)) (filter p (ranges_log (cx_text cx) files rs)) = Ok es"
  shows "load_ranges cx rd p limit files i rs events = Ok (take limit (events @ es))"
  using assms(2-)
proof (induction rs arbitrary: i events es)
  case (Cons r rs)
  let ?d = "decode_row (cx_msgs cx) (cx_text cx) (cx_time cx)"
  let ?rows = "rows_of (cx_text cx) files (rng_name r)"
  have "range_sound (cx_text cx) files r" using Cons.prems(1) by simp
  then obtain h where c: "content (cx_text cx) files (rng_name r) = Some (?rows, h)"
    and vs: "map ev_version ?rows = [rng_first r .. h]" and path: "rng_path r = rng_name r"
    by (elim range_soundD)
  obtain xs ys where xs: "res_map ?d (filter p ?rows) = Ok xs"
    and ys: "res_map ?d (filter p (ranges_log (cx_text cx) files rs)) = Ok ys" and es: "es = xs @ ys"
    using Cons.prems(3) by (auto simp: res_map_append res_simps)
  show ?case
  proof (cases "limit - length events = 0")
    case True
    with Cons.prems(2) show ?thesis by simp
  next
    case False
    obtain f where f: "get_connection cx None files (rng_name r) = Ok f" "idle f"
      "events_table (tables (committed f)) = Some ?rows"
      using get_connection_content[OF c] by (auto simp: file_content_Some)
    have "query_events (cx_msgs cx) (cx_text cx) (cx_time cx) (rd_file rd i) p (limit - length events)
        (tables (committed f)) = Ok (take (limit - length events) xs)"
      using assms(1) f(3) vs res_map_take[OF xs]
      by (subst query_events_Ok) (auto simp: read_ok_def)
    moreover have "load_ranges cx rd p limit files (i + 1) rs (events @ take (limit - length events) xs) =
        Ok (take limit ((events @ take (limit - length events) xs) @ ys))"
      using Cons.prems ys by (intro Cons.IH) auto
    moreover have "take limit ((events @ take (limit - length events) xs) @ ys) = take limit (events @ es)"
      using Cons.prems(2) by (simp add: es min_def)
    ultimately show ?thesis
      using False assms(1) f path by (simp add: read_ok_def Let_def)
  qed
qed simp

lemma filter_ranges_log:
  assumes "\<forall>r \<in> set rs. range_sound cr files r" "\<And>x. p x \<Longrightarrow> cursor < ev_version x"
  shows "filter p (ranges_log cr files
      (filter (\<lambda>r. case rng_last r of None \<Rightarrow> True | Some l \<Rightarrow> cursor < l) rs)) = filter p (ranges_log cr files rs)"
  using assms(1)
proof (induction rs)
  case (Cons r rs)
  have "range_sound cr files r" using Cons.prems by simp
  then obtain h where vs: "map ev_version (rows_of cr files (rng_name r)) = [rng_first r .. h]"
    and l: "rng_last r = (if rng_sealed r then Some h else None)"
    by (elim range_soundD)
  have "filter p (rows_of cr files (rng_name r)) = []" if "rng_last r = Some l" "l \<le> cursor" for l
  proof -
    have h: "h = l" using that l by (auto split: if_splits)
    have "ev_version x \<le> cursor" if x: "x \<in> set (rows_of cr files (rng_name r))" for x
    proof -
      have "ev_version x \<in> set (map ev_version (rows_of cr files (rng_name r)))" using x by simp
      with vs h \<open>l \<le> cursor\<close> show ?thesis by simp
    qed
    with assms(2) show ?thesis by (fastforce simp: filter_empty_conv)
  qed
  with Cons show ?case by (auto split: option.splits)
qed simp

text \<open>A read returns the first \<open>limit\<close> matching events of the log.\<close>

lemma load_events_log:
  assumes inv: "log_inv cx s" and rd: "read_ok rd" and log: "stream_log cx s = Ok es"
    and limit: "1 \<le> limit" "limit \<le> MAX_READ_LIMIT"
    and p: "\<And>x. p x \<Longrightarrow> cursor < ev_version x"
    and q: "\<And>x e. x \<in> set (log_rows cx s) \<Longrightarrow>
      decode_row (cx_msgs cx) (cx_text cx) (cx_time cx) x = Ok e \<Longrightarrow> p x = q e"
  shows "load_events cx rd p cursor limit s = Ok (take limit (filter q es))"
proof -
  let ?d = "decode_row (cx_msgs cx) (cx_text cx) (cx_time cx)"
  let ?rs = "filter (\<lambda>r. case rng_last r of None \<Rightarrow> True | Some l \<Rightarrow> cursor < l) (cat_ranges (st_catalog s))"
  have sound: "\<forall>r \<in> set ?rs. range_sound (cx_text cx) (st_files s) r"
    using inv by (auto simp: log_inv_def)
  have "filter p (ranges_log (cx_text cx) (st_files s) ?rs) = filter p (log_rows cx s)"
    unfolding log_rows_def using inv p by (intro filter_ranges_log) (auto simp: log_inv_def)
  moreover have D: "res_map ?d (filter p (log_rows cx s)) = Ok (filter q es)"
    using log q by (intro res_map_filter) (auto simp: stream_log_def)
  ultimately have "load_ranges cx rd p limit (st_files s) 0 ?rs [] = Ok (take limit ([] @ filter q es))"
    using sound by (intro load_ranges_spec[OF rd]) auto
  moreover have "sort_key env_version (take limit (filter q es)) = take limit (filter q es)"
  proof (rule sort_key_sorted)
    have E: "map env_version es = map (EventStreamVersion \<circ> ev_version) xs" if "res_map ?d xs = Ok es" for xs es
      using that by (induction xs arbitrary: es) (auto simp: res_simps decode_row_fields)
    have "map env_version (filter q es) = map (EventStreamVersion \<circ> ev_version) (filter p (log_rows cx s))"
      by (rule E[OF D])
    also have "sorted \<dots>"
    proof -
      have "sorted (map ev_version (log_rows cx s))" using log_versions[OF inv] by simp
      then have "sorted (map ev_version (filter p (log_rows cx s)))" by (rule sorted_filter_key)
      then show ?thesis
        by (simp add: sorted_wrt_map sorted_map version_order_simps)
    qed
    finally have "sorted (map env_version (filter q es))" .
    then show "sorted (map env_version (take limit (filter q es)))"
      by (metis sorted_wrt_take take_map)
  qed
  ultimately show ?thesis
    using limit rd
    by (simp add: load_events_def validate_read_limit_def get_after_Ok read_ok_def)
qed

end
