(* ===== verification/RotationSafety.thy ===== *)
theory RotationSafety
  imports EventStreamLaws
begin

section \<open>Rotation keeps the log\<close>

text \<open>
  One lemma per step of \<open>rotate_partition\<close>: sealing the active range, creating the file,
  inserting its range. Each keeps \<open>log_inv\<close> and the log, so a rotation that fails between any
  two of them loses nothing; the last one makes the new file the log's end.
\<close>

definition log_ok :: "('j, 'u, 'date, 'dt) stream_context \<Rightarrow> stream \<Rightarrow> bool" where
  "log_ok cx s \<longleftrightarrow> log_inv cx s \<and> active_inv cx s"

lemma log_okD:
  assumes "log_ok cx s"
  shows "log_inv cx s" "active_inv cx s" "idle (st_catalog s)" "distinct (map col_name (committed (st_catalog s)))"
  using assms by (simp_all add: log_ok_def log_inv_def)

subsection \<open>Sealing\<close>

definition sealed_state :: "('j, 'u, 'date, 'dt) stream_context \<Rightarrow> stream \<Rightarrow> stream" where
  "sealed_state cx s =
     s\<lparr>st_catalog := (st_catalog s)\<lparr>committed :=
        seal_rows (act_name (st_active s)) (log_end cx s) (committed (st_catalog s))\<rparr>\<rparr>"

lemma sealed_state_fields [simp]:
  "st_files (sealed_state cx s) = st_files s" "st_active (sealed_state cx s) = st_active s"
  by (simp_all add: sealed_state_def)

lemma chain_drop:
  assumes "chain cr files v rs" "\<And>r. r \<in> set rs \<Longrightarrow> \<not> P r \<Longrightarrow> rows_of cr files (rng_name r) = []"
  shows "chain cr files v (filter P rs)"
  using assms
proof (induction rs arbitrary: v)
  case (Cons r rs)
  then have IH: "chain cr files (v + int (length (rows_of cr files (rng_name r)))) (filter P rs)" by simp
  show ?case using Cons.prems IH by (cases "P r") auto
qed simp

lemma chain_seal: "chain cr files v rs \<Longrightarrow> chain cr files v (map (seal_range n l) rs)"
  by (induction rs arbitrary: v) auto

lemma ranges_log_seal [simp]: "ranges_log cr files (map (seal_range n l) rs) = ranges_log cr files rs"
  by (induction rs) auto

lemma sealed_ranges:
  "idle (st_catalog s) \<Longrightarrow> cat_ranges (st_catalog (sealed_state cx s)) =
     map (seal_range (act_name (st_active s)) (log_end cx s)) (cat_ranges (st_catalog s))"
  by (simp add: sealed_state_def cat_ranges_seal)

lemma filter_live_seal:
  "filter (live cr files) (map (seal_range n l) rs) =
     map (seal_range n l) (filter (\<lambda>r. \<not> (rng_name r = n \<and> rows_of cr files n = [])) (filter (live cr files) rs))"
  by (induction rs) (auto simp: live_def)

lemma names_sealed: "cat_names (st_catalog (sealed_state cx s)) = cat_names (st_catalog s)" if "idle (st_catalog s)"
  using that by (simp add: cat_names_ranges sealed_ranges image_image)

lemma log_sealed:
  assumes "idle (st_catalog s)"
  shows "log_rows cx (sealed_state cx s) = log_rows cx s" "log_end cx (sealed_state cx s) = log_end cx s"
    "stream_log cx (sealed_state cx s) = stream_log cx s"
  using assms by (simp_all add: log_rows_def sealed_ranges log_end_def stream_log_def)

lemma seal_step:
  assumes "log_ok cx s"
  shows "log_ok cx (sealed_state cx s)" "\<forall>r \<in> set (cat_ranges (st_catalog (sealed_state cx s))). rng_sealed r"
proof -
  let ?cr = "cx_text cx" and ?files = "st_files s" and ?act = "act_name (st_active s)"
  let ?R = "cat_ranges (st_catalog s)"
  note inv = log_okD[OF assms]
  note R' = sealed_ranges[OF inv(3), of cx]
  obtain rows where content: "content ?cr ?files ?act = Some (rows, log_end cx s)"
    using inv(2) by (auto simp: active_inv_def)
  then have rows: "rows_of ?cr ?files ?act = rows" by (simp add: rows_of_def)
  have sound: "range_sound ?cr ?files (seal_range ?act (log_end cx s) r)" if "r \<in> set ?R" for r
    using log_inv_ranges[OF inv(1) that] content by (auto simp: range_sound_def split: option.splits)
  have unsealed: "rng_name r = ?act" if "r \<in> set ?R" "\<not> rng_sealed r" for r
    using inv(2) that by (auto simp: active_inv_def)
  then show sealed: "\<forall>r \<in> set (cat_ranges (st_catalog (sealed_state cx s))). rng_sealed r"
    by (auto simp: R')
  have chain: "chain ?cr ?files 1 (filter (live ?cr ?files) (map (seal_range ?act (log_end cx s)) ?R))"
    unfolding filter_live_seal using inv(1)
    by - (rule chain_seal, rule chain_drop, auto simp: log_inv_def)
  have distinct: "distinct (map col_name (committed (st_catalog (sealed_state cx s))))"
  proof -
    have "map col_name (seal_rows n v t) = map col_name t" for n v t
      by (induction t) (auto simp: seal_rows_def)
    with inv(4) show ?thesis by (simp add: sealed_state_def)
  qed
  have idle': "idle (st_catalog (sealed_state cx s))" using inv(3) by (simp add: sealed_state_def)
  have "log_inv cx (sealed_state cx s)"
    using inv(1) sound chain distinct idle'
    by (auto simp: log_inv_def R' log_decodes_def log_sealed[OF inv(3)] names_sealed[OF inv(3)])
  moreover have "rows = [] \<or> (\<exists>rs r. filter (live ?cr ?files) (map (seal_range ?act (log_end cx s)) ?R) = rs @ [r] \<and>
      rng_name r = ?act)"
  proof (cases "rows = []")
    case False
    with inv(2) rows obtain rs r where "filter (live ?cr ?files) ?R = rs @ [r]" "rng_name r = ?act"
      by (auto simp: active_inv_def)
    with False rows show ?thesis
      unfolding filter_live_seal by (intro disjI2 exI[of _ "map (seal_range ?act (log_end cx s)) rs"]) simp
  qed simp
  then have "active_inv cx (sealed_state cx s)"
    using inv(2) content sealed
    by (auto simp: active_inv_def names_sealed[OF inv(3)] log_sealed[OF inv(3)] rows R')
  ultimately show "log_ok cx (sealed_state cx s)" by (simp add: log_ok_def)
qed

subsection \<open>Creating the file\<close>

text \<open>Any change of the files that keeps the catalogued ones and leaves the others vacant.\<close>

lemma files_step:
  assumes ok: "log_ok cx s"
    and same: "\<And>n. n \<in> cat_names (st_catalog s) \<Longrightarrow> map_of files n = map_of (st_files s) n"
    and rest: "\<And>n. n \<notin> cat_names (st_catalog s) \<Longrightarrow> vacant (file_of files n)"
  shows "log_ok cx (s\<lparr>st_files := files\<rparr>)" "log_rows cx (s\<lparr>st_files := files\<rparr>) = log_rows cx s"
proof -
  let ?cr = "cx_text cx" and ?R = "cat_ranges (st_catalog s)"
  have c: "content ?cr files (rng_name r) = content ?cr (st_files s) (rng_name r)" if "r \<in> set ?R" for r
    using same[of "rng_name r"] that by (simp add: content_def cat_names_ranges)
  then have rows: "rows_of ?cr files (rng_name r) = rows_of ?cr (st_files s) (rng_name r)" if "r \<in> set ?R" for r
    using that by (simp add: rows_of_def)
  have live: "filter (live ?cr files) ?R = filter (live ?cr (st_files s)) ?R"
    using rows by (intro filter_cong) (auto simp: live_def)
  show log: "log_rows cx (s\<lparr>st_files := files\<rparr>) = log_rows cx s"
    using rows by (auto simp: log_rows_def intro: ranges_log_cong)
  have "range_sound ?cr files r" if "r \<in> set ?R" for r
    using log_inv_ranges[OF log_okD(1)[OF ok] that] c[OF that] by (simp add: range_sound_def)
  moreover have "chain ?cr files 1 (filter (live ?cr files) ?R)"
    using log_okD(1)[OF ok] rows unfolding live
    by (subst chain_cong[where files' = "st_files s"]) (auto simp: log_inv_def)
  ultimately have "log_inv cx (s\<lparr>st_files := files\<rparr>)"
    using log_okD(1)[OF ok] rest log by (simp add: log_inv_def log_decodes_def stream_log_def)
  moreover have act: "act_name (st_active s) \<in> cat_names (st_catalog s)"
    using log_okD(2)[OF ok] by (simp add: active_inv_def)
  then have "content ?cr files (act_name (st_active s)) = content ?cr (st_files s) (act_name (st_active s))"
    using same by (simp add: content_def)
  with log_okD(2)[OF ok] log live have "active_inv cx (s\<lparr>st_files := files\<rparr>)"
    by (simp add: active_inv_def log_end_def rows_of_def)
  ultimately show "log_ok cx (s\<lparr>st_files := files\<rparr>)" by (simp add: log_ok_def)
qed

lemma map_of_update_other: "m \<noteq> n \<Longrightarrow> map_of (AList.update n f files) m = map_of files m"
  by (simp add: update_conv)

lemma file_of_update: "file_of (AList.update n f files) m = (if m = n then f else file_of files m)"
  by (simp add: file_of_def update_conv)

lemma open_files:
  "open_partition_db flt n files = (r, files') \<Longrightarrow>
     (\<forall>m. m \<noteq> n \<longrightarrow> map_of files' m = map_of files m) \<and> (\<forall>m. file_of files' m = file_of files m)"
  by (auto simp: open_partition_db_def Let_def file_of_update map_of_update_other split: option.splits)

lemma create_files:
  assumes "create_partition_db cx ce n v None files = (r, files')" "vacant (file_of files n)"
  shows "(\<forall>m. m \<noteq> n \<longrightarrow> map_of files' m = map_of files m) \<and> vacant (file_of files' n) \<and>
    (\<forall>u. r = Ok u \<longrightarrow> content (cx_text cx) files' n = Some ([], v))"
  using assms(1) unfolding create_partition_db_def
proof (cases rule: sbind_cases)
  case (Stop r')
  with open_files[OF Stop(1)] assms(2) show ?thesis by auto
next
  case (Ok x files1)
  note O = open_files[OF Ok(1)]
  show ?thesis
  proof (cases "ce_open ce ConnectDb")
    case (Some e)
    with Ok O assms(2) show ?thesis by auto
  next
    case None
    obtain r1 f where f: "setup_file (cx_msgs cx) (cx_file_digest cx) ce v None (file_of files1 n) = (r1, f)"
      by (cases "setup_file (cx_msgs cx) (cx_file_digest cx) ce v None (file_of files1 n)")
    have "vacant (file_of files1 n)" using O assms(2) by simp
    note S = setup_file_vacant[OF f this, of "cx_text cx"]
    have r: "r = r1" "files' = AList.update n f files1" using Ok(2) None f by auto
    with S O show ?thesis
      by (auto simp: content_def update_conv file_of_update)
  qed
qed

subsection \<open>Inserting the range\<close>

definition ranged_state :: "string \<Rightarrow> int \<Rightarrow> stream \<Rightarrow> stream" where
  "ranged_state n v s =
     s\<lparr>st_catalog := (st_catalog s)\<lparr>committed :=
        upsert_by col_name (range_to_row (unsealed_range n v)) (committed (st_catalog s))\<rparr>\<rparr>"

definition activated :: "string \<Rightarrow> int \<Rightarrow> nat option \<Rightarrow> stream \<Rightarrow> stream" where
  "activated n start ord s = s\<lparr>st_active := \<lparr>act_name = n, act_start_ms = start, act_ordinal = ord\<rparr>\<rparr>"

lemma activated_fields [simp]:
  "st_files (activated n start ord s) = st_files s" "act_name (st_active (activated n start ord s)) = n"
  "st_files (ranged_state n v s) = st_files s"
  by (simp_all add: activated_def ranged_state_def)

lemma range_step:
  assumes ok: "log_ok cx s" and sealed: "\<forall>r \<in> set (cat_ranges (st_catalog s)). rng_sealed r"
    and new: "n \<notin> cat_names (st_catalog s)" and content: "content (cx_text cx) (st_files s) n = Some ([], log_end cx s)"
  shows "log_ok cx (activated n start ord (ranged_state n (log_end cx s + 1) s))"
    and "log_rows cx (activated n start ord (ranged_state n (log_end cx s + 1) s)) = log_rows cx s"
    and "unsealed (activated n start ord (ranged_state n (log_end cx s + 1) s))"
    and "cat_names (st_catalog (activated n start ord (ranged_state n (log_end cx s + 1) s))) =
      insert n (cat_names (st_catalog s))"
proof -
  let ?s' = "activated n start ord (ranged_state n (log_end cx s + 1) s)"
  let ?cr = "cx_text cx" and ?files = "st_files s" and ?R = "cat_ranges (st_catalog s)"
  let ?rg = "unsealed_range n (log_end cx s + 1)"
  note inv = log_okD[OF ok]
  have cat': "st_catalog ?s' = (st_catalog s)\<lparr>committed := upsert_by col_name (range_to_row ?rg) (committed (st_catalog s))\<rparr>"
    by (simp add: activated_def ranged_state_def)
  have ups: "upsert_by col_name (range_to_row ?rg) (committed (st_catalog s)) = committed (st_catalog s) @ [range_to_row ?rg]"
    using new inv(3) by (auto simp: upsert_by_def cat_names_def range_to_row_def unsealed_range_def)
  have idle': "idle (st_catalog ?s')" using inv(3) by (simp add: cat')
  have distinct': "distinct (map col_name (committed (st_catalog ?s')))"
    using inv(3,4) new unfolding cat' ups by (auto simp: cat_names_def range_to_row_def unsealed_range_def)
  have set': "set (cat_ranges (st_catalog ?s')) = insert ?rg (set ?R)"
    using inv(3) by (simp add: set_cat_ranges cat' ups)
  show names': "cat_names (st_catalog ?s') = insert n (cat_names (st_catalog s))"
    by (simp add: cat_names_ranges set')
  have first_bound: "rng_first r \<le> log_end cx s + 1" if "r \<in> set ?R" for r
    using inv(2) that by (fastforce simp: active_inv_def)
  have rows_n: "rows_of ?cr ?files n = []" using content by (simp add: rows_of_def)
  have first: "rng_first r < rng_first ?rg" if "r \<in> set ?R" "live ?cr ?files r" for r
  proof -
    have "rng_first r + int (length (rows_of ?cr ?files (rng_name r))) \<le> 1 + log_end cx s"
      using chain_first_bound[of ?cr ?files 1 "filter (live ?cr ?files) ?R" r] inv(1) that
      by (simp add: log_inv_def log_end_def log_rows_live)
    moreover have "rows_of ?cr ?files (rng_name r) \<noteq> []" using that sealed by (auto simp: live_def)
    ultimately show ?thesis by (cases "rows_of ?cr ?files (rng_name r)") auto
  qed
  have L: "filter (live ?cr ?files) (cat_ranges (st_catalog ?s')) = filter (live ?cr ?files) ?R @ [?rg]"
    unfolding cat' using new first by (intro filter_cat_ranges_new[OF inv(3)]) (auto simp: live_def)
  show log': "log_rows cx ?s' = log_rows cx s"
    by (simp add: log_rows_live L rows_n)
  then have log_end': "log_end cx ?s' = log_end cx s" by (simp add: log_end_def)
  have chain: "chain ?cr ?files 1 (filter (live ?cr ?files) ?R @ [?rg])"
    using inv(1) sealed by (simp add: chain_append log_inv_def log_end_def log_rows_live)
  have "range_sound ?cr ?files ?rg"
    using content by (simp add: range_sound_def log_end_def)
  then have "log_inv cx ?s'"
    using inv(1) chain idle' log' distinct'
    by (auto simp: log_inv_def set' names' L log_decodes_def stream_log_def)
  moreover have "active_inv cx ?s'"
    using content sealed log_end' rows_n first_bound by (auto simp: active_inv_def names' set')
  ultimately show "log_ok cx ?s'" by (simp add: log_ok_def)
  show "unsealed ?s'" by (auto simp: unsealed_def set')
qed

subsection \<open>The whole rotation\<close>

lemma seal_outcome:
  "seal_event_file_range flt n v cat = (r, cat') \<Longrightarrow> idle cat \<Longrightarrow>
     cat' = cat \<and> (\<forall>u. r \<noteq> Ok u) \<or> r = Ok () \<and> cat' = cat\<lparr>committed := seal_rows n v (committed cat)\<rparr>"
  by (auto simp: seal_event_file_range_def split: option.splits)

lemma create_outcome:
  "create_event_file_range flt rg cat = (r, cat') \<Longrightarrow> idle cat \<Longrightarrow>
     cat' = cat \<and> (\<forall>u. r \<noteq> Ok u) \<or>
     r = Ok () \<and> cat' = cat\<lparr>committed := upsert_by col_name (range_to_row rg) (committed cat)\<rparr>"
  by (auto simp: create_event_file_range_def split: option.splits)

lemma active_head:
  assumes "active_inv cx s"
    and "rbind (get_connection cx flt (st_files s) (act_name (st_active s)))
      (\<lambda>f. read_event_file_append_head tm (cx_text cx) hf (file_view f)) = Ok v"
  shows "v = log_end cx s"
proof -
  obtain rows where c: "content (cx_text cx) (st_files s) (act_name (st_active s)) = Some (rows, log_end cx s)"
    using assms(1) by (auto simp: active_inv_def)
  obtain f where f: "get_connection cx flt (st_files s) (act_name (st_active s)) = Ok f"
    "read_event_file_append_head tm (cx_text cx) hf (file_view f) = Ok v"
    using assms(2) by (auto simp: res_simps)
  then have "idle f" "file_content (cx_text cx) (tables (committed f)) = Some (rows, log_end cx s)"
    using c by (auto simp: get_connection_def content_def split: option.splits if_splits)
  with f show ?thesis using read_head_unique by fastforce
qed

text \<open>What a rotation may have done, by its result: the frame of every later argument.\<close>

definition rotation_frame ::
  "('j, 'u, 'date, 'dt) stream_context \<Rightarrow> int \<Rightarrow> stream \<Rightarrow> unit result \<Rightarrow> stream \<Rightarrow> bool" where
  "rotation_frame cx now_ms s r s' \<longleftrightarrow>
     log_ok cx s' \<and> log_rows cx s' = log_rows cx s \<and>
     (if r = Ok ()
      then unsealed s' \<and>
        (\<exists>n start ord. determine_new_partition_info cx (act_start_ms (st_active s)) (act_ordinal (st_active s)) now_ms =
             Ok (n, start, ord) \<and>
           st_active s' = \<lparr>act_name = n, act_start_ms = start, act_ordinal = ord\<rparr> \<and>
           cat_names (st_catalog s') = insert n (cat_names (st_catalog s)))
      else st_active s' = st_active s \<and> cat_names (st_catalog s') = cat_names (st_catalog s))"

lemma rotation_frame_unchanged: "log_ok cx s \<Longrightarrow> r \<noteq> Ok () \<Longrightarrow> rotation_frame cx now_ms s r s"
  by (simp add: rotation_frame_def)

lemma rotate_partition_frame:
  assumes ok: "log_ok cx s" and room: "in_i64 (log_end cx s + 1)"
    and fresh: "\<And>n start ord. determine_new_partition_info cx (act_start_ms (st_active s)) (act_ordinal (st_active s)) now_ms =
      Ok (n, start, ord) \<Longrightarrow> n \<notin> cat_names (st_catalog s)"
    and run: "rotate_partition cx re now_ms s = (r, s')"
  shows "rotation_frame cx now_ms s r s'"
  using run unfolding rotate_partition_def
proof (cases rule: sbind_cases)
  case (Stop r')
  with ok show ?thesis by (auto intro: rotation_frame_unchanged)
next
  case (Ok info s0)
  obtain n start ord where info: "info = (n, start, ord)" by (cases info)
  have det: "determine_new_partition_info cx (act_start_ms (st_active s)) (act_ordinal (st_active s)) now_ms = Ok (n, start, ord)"
    and s0: "s0 = s" using Ok(1) info by auto
  note new = fresh[OF det]
  from Ok(2)[unfolded info prod.case s0] show ?thesis
  proof (cases rule: sbind_cases)
    case (Stop r')
    with ok show ?thesis by (auto intro: rotation_frame_unchanged)
  next
    case (Ok v s1)
    then have v: "v = log_end cx s" and s1: "s1 = s"
      using active_head[OF log_okD(2)[OF ok]] by auto
    from Ok(2)[unfolded s1 v] show ?thesis
    proof (cases rule: sbind_cases)
      case (Stop r')
      then have "s' = s" using seal_outcome log_okD(3)[OF ok] by (fastforce simp: on_catalog_def split: prod.splits)
      with Stop ok show ?thesis by (auto intro: rotation_frame_unchanged)
    next
      case (Ok u s2)
      then have s2: "s2 = sealed_state cx s"
        using seal_outcome log_okD(3)[OF ok] by (fastforce simp: on_catalog_def sealed_state_def split: prod.splits)
      note S = seal_step[OF ok]
      have frame2: "st_active s2 = st_active s" "cat_names (st_catalog s2) = cat_names (st_catalog s)"
        "log_rows cx s2 = log_rows cx s"
        by (simp_all add: s2 names_sealed[OF log_okD(3)[OF ok]] log_sealed[OF log_okD(3)[OF ok]])
      obtain r3 files where files: "create_partition_db cx (re_file re) n (log_end cx s) None (st_files s2) = (r3, files)"
        by (cases "create_partition_db cx (re_file re) n (log_end cx s) None (st_files s2)")
      have vac: "vacant (file_of (st_files s2) n)" if "n \<notin> cat_names (st_catalog s2)" for n
        using S(1) that unfolding s2 log_ok_def log_inv_def by blast
      note F = create_files[OF files vac[unfolded frame2, OF new]]
      let ?s3 = "s2\<lparr>st_files := files\<rparr>"
      have "map_of files m = map_of (st_files s2) m" if "m \<in> cat_names (st_catalog s2)" for m
        using F new that by (auto simp: frame2)
      moreover have "vacant (file_of files m)" if "m \<notin> cat_names (st_catalog s2)" for m
        using F vac[OF that] by (cases "m = n") (auto simp: file_of_def)
      ultimately have ok3: "log_ok cx ?s3" "log_rows cx ?s3 = log_rows cx s2"
        using files_step[OF S(1)[folded s2]] by blast+
      from Ok(2) show ?thesis
      proof (cases rule: sbind_cases)
        case (Stop r')
        then have "s' = ?s3" using files by (simp add: on_files_def)
        with ok3 frame2 Stop show ?thesis by (simp add: rotation_frame_def)
      next
        case (Ok u' s3')
        then have s3': "s3' = ?s3" and r3: "r3 = Ok u'" using files by (auto simp: on_files_def)
        have c: "content (cx_text cx) (st_files ?s3) n = Some ([], log_end cx ?s3)"
          using F r3 ok3(2) frame2(3) by (simp add: log_end_def)
        have idle3: "idle (st_catalog ?s3)" using log_okD(3)[OF ok3(1)] .
        from Ok(2)[unfolded s3'] show ?thesis
        proof (cases rule: sbind_cases)
          case (Stop r')
          then have "s' = ?s3" using create_outcome idle3 by (fastforce simp: on_catalog_def split: prod.splits)
          with ok3 frame2 Stop show ?thesis by (simp add: rotation_frame_def)
        next
          case (Ok u'' s4)
          have wrap: "wrap64 (log_end cx s + 1) = log_end cx ?s3 + 1"
            using room ok3(2) frame2(3) by (simp add: log_end_def)
          have "s4 = ranged_state n (log_end cx ?s3 + 1) ?s3"
            using Ok(1) create_outcome idle3
            by (fastforce simp: on_catalog_def ranged_state_def wrap split: prod.splits)
          with Ok(2) have s': "s' = activated n start ord (ranged_state n (log_end cx ?s3 + 1) ?s3)" "r = Ok ()"
            by (auto simp: activated_def)
          have sealed3: "\<forall>r \<in> set (cat_ranges (st_catalog ?s3)). rng_sealed r"
            using S(2) by (simp add: s2)
          have new3: "n \<notin> cat_names (st_catalog ?s3)" using new frame2 by simp
          note R = range_step[OF ok3(1) sealed3 new3 c, of start ord, folded s'(1)]
          have "st_active s' = \<lparr>act_name = n, act_start_ms = start, act_ordinal = ord\<rparr>"
            by (simp add: s' activated_def)
          with R s'(2) det ok3(2) frame2 show ?thesis by (simp add: rotation_frame_def)
        qed
      qed
    qed
  qed
qed

end
