(* ===== verification/StreamSafety.thy ===== *)
theory StreamSafety
  imports RotationSafety
begin

section \<open>Appends and the invariant of a stream\<close>

text \<open>
  The commit of an append extends the log by the rows it inserted. Together with rotation this
  gives the behaviour of \<open>maybe_rotate\<close>, \<open>rotate_until_current_window\<close> and \<open>append\<close> under the
  invariant \<open>stream_inv\<close>, for a clock that does not run behind the active window.
\<close>

subsection \<open>The commit\<close>

lemma chain_unsealed_last: "chain cr files v (xs @ r # ys) \<Longrightarrow> \<not> rng_sealed r \<Longrightarrow> ys = []"
  by (induction xs arbitrary: v) auto

lemma active_last:
  assumes "log_ok cx s" "unsealed s"
  obtains rs r where "filter (live (cx_text cx) (st_files s)) (cat_ranges (st_catalog s)) = rs @ [r]"
    "rng_name r = act_name (st_active s)" "\<not> rng_sealed r" "r \<in> set (cat_ranges (st_catalog s))"
    "\<forall>q \<in> set rs. rng_name q \<noteq> act_name (st_active s)"
proof -
  let ?L = "filter (live (cx_text cx) (st_files s)) (cat_ranges (st_catalog s))"
  obtain r where r: "r \<in> set (cat_ranges (st_catalog s))" "rng_name r = act_name (st_active s)" "\<not> rng_sealed r"
    using assms(2) by (auto simp: unsealed_def)
  then have "r \<in> set ?L" by (simp add: live_def)
  then obtain xs ys where L: "?L = xs @ r # ys" by (meson split_list)
  moreover have "chain (cx_text cx) (st_files s) 1 ?L"
    using log_okD(1)[OF assms(1)] by (simp add: log_inv_def)
  ultimately have L': "?L = xs @ [r]" using r(3) chain_unsealed_last by metis
  have "distinct (map rng_name ?L)"
    using distinct_cat_ranges[OF log_okD(3,4)[OF assms(1)]] by (rule distinct_map_filter)
  then have "\<forall>q \<in> set xs. rng_name q \<noteq> act_name (st_active s)"
    unfolding L' using r(2) by force
  with that L' r show ?thesis by blast
qed

definition committed_state :: "event_file \<Rightarrow> stream \<Rightarrow> stream" where
  "committed_state f s = s\<lparr>st_files := AList.update (act_name (st_active s)) f (st_files s)\<rparr>"

lemma committed_state_fields [simp]:
  "st_catalog (committed_state f s) = st_catalog s" "st_active (committed_state f s) = st_active s"
  "st_files (committed_state f s) = AList.update (act_name (st_active s)) f (st_files s)"
  "unsealed (committed_state f s) = unsealed s"
  by (simp_all add: committed_state_def unsealed_def)

lemma content_update:
  "content cr (AList.update n f files) m =
     (if m = n then (if idle f then file_content cr (tables (committed f)) else None) else content cr files m)"
  by (simp add: content_def update_conv)

lemma rows_of_update:
  "idle f \<Longrightarrow> file_content cr (tables (committed f)) = Some (rows, h) \<Longrightarrow>
     rows_of cr (AList.update n f files) m = (if m = n then rows else rows_of cr files m)"
  by (simp add: rows_of_def content_update)

text \<open>The active file before an append: its rows end the log.\<close>

lemma active_content:
  assumes "log_ok cx s"
  obtains rows where "content (cx_text cx) (st_files s) (act_name (st_active s)) = Some (rows, log_end cx s)"
    "int (length rows) \<le> log_end cx s" "map ev_sequence rows = [1 .. int (length rows)]"
    "rows_of (cx_text cx) (st_files s) (act_name (st_active s)) = rows"
    "\<And>x. x \<in> set rows \<Longrightarrow> ev_version x \<le> log_end cx s"
proof -
  obtain rows where c: "content (cx_text cx) (st_files s) (act_name (st_active s)) = Some (rows, log_end cx s)"
    and mem: "act_name (st_active s) \<in> cat_names (st_catalog s)"
    using log_okD(2)[OF assms] by (auto simp: active_inv_def)
  then obtain r where "r \<in> set (cat_ranges (st_catalog s))" "rng_name r = act_name (st_active s)"
    by (auto simp: cat_names_ranges)
  with log_inv_ranges[OF log_okD(1)[OF assms]] have "range_sound (cx_text cx) (st_files s) r" by blast
  with c \<open>rng_name r = act_name (st_active s)\<close>
  have e: "log_end cx s = rng_first r + int (length rows) - 1" "1 \<le> rng_first r"
    "map ev_sequence rows = [1 .. int (length rows)]" "map ev_version rows = [rng_first r .. log_end cx s]"
    by (auto simp: range_sound_def)
  have "ev_version x \<le> log_end cx s" if "x \<in> set rows" for x
  proof -
    have "ev_version x \<in> set (map ev_version rows)" using that by simp
    then show ?thesis by (simp add: e(4))
  qed
  with that c e show ?thesis by (simp add: rows_of_def)
qed

lemma commit_step:
  assumes ok: "log_ok cx s" and unsld: "unsealed s" and f: "idle f"
    "file_content (cx_text cx) (tables (committed f)) =
      Some (rows_of (cx_text cx) (st_files s) (act_name (st_active s)) @ new, log_end cx s + int (length new))"
    and versions: "map ev_version new = [log_end cx s + 1 .. log_end cx s + int (length new)]"
    and sequences: "map ev_sequence new =
      [int (length (rows_of (cx_text cx) (st_files s) (act_name (st_active s)))) + 1 ..
       int (length (rows_of (cx_text cx) (st_files s) (act_name (st_active s)))) + int (length new)]"
    and stored: "res_map (decode_row (cx_msgs cx) (cx_text cx) (cx_time cx)) new = Ok nes"
      "res_map (row_of_envelope (cx_text cx) (cx_time cx)) nes = Ok new"
    and log: "stream_log cx s = Ok es"
  shows "log_ok cx (committed_state f s)" "log_rows cx (committed_state f s) = log_rows cx s @ new"
    "stream_log cx (committed_state f s) = Ok (es @ nes)"
proof -
  let ?cr = "cx_text cx" and ?act = "act_name (st_active s)" and ?R = "cat_ranges (st_catalog s)"
  let ?files = "AList.update ?act f (st_files s)"
  let ?rows = "rows_of ?cr (st_files s) ?act"
  obtain rs r where L: "filter (live ?cr (st_files s)) ?R = rs @ [r]" "rng_name r = ?act" "\<not> rng_sealed r"
    and rR: "r \<in> set ?R" and rs_act: "\<forall>q \<in> set rs. rng_name q \<noteq> ?act"
    by (rule active_last[OF ok unsld])
  have rows': "rows_of ?cr ?files m = (if m = ?act then ?rows @ new else rows_of ?cr (st_files s) m)" for m
    using rows_of_update[OF f] by simp
  have only: "\<not> rng_sealed q" if "q \<in> set ?R" "rng_name q = ?act" for q
  proof -
    have "distinct (map rng_name ?R)" using distinct_cat_ranges[OF log_okD(3,4)[OF ok]] .
    then have "inj_on rng_name (set ?R)" by (simp add: distinct_map)
    moreover have "rng_name q = rng_name r" using that(2) L(2) by simp
    ultimately have "q = r" using that(1) rR by (rule inj_onD)
    with L(3) show ?thesis by simp
  qed
  have live: "filter (live ?cr ?files) ?R = rs @ [r]"
    unfolding L(1)[symmetric] using only by (intro filter_cong) (auto simp: live_def rows')
  have rs: "ranges_log ?cr ?files rs = ranges_log ?cr (st_files s) rs" "chain ?cr ?files 1 rs = chain ?cr (st_files s) 1 rs"
    using rs_act by (auto intro!: ranges_log_cong chain_cong simp: rows')
  show log': "log_rows cx (committed_state f s) = log_rows cx s @ new"
    by (simp add: log_rows_live live L(1,2) rs rows')
  then have log'': "log_rows cx (s\<lparr>st_files := ?files\<rparr>) = log_rows cx s @ new" by (simp add: committed_state_def)
  have chain: "chain ?cr ?files 1 (rs @ [r])"
    using log_okD(1)[OF ok] by (simp add: log_inv_def L(1) chain_append rs)
  have sound: "range_sound ?cr ?files q" if q: "q \<in> set ?R" for q
  proof (cases "rng_name q = ?act")
    case False
    with log_inv_ranges[OF log_okD(1)[OF ok] q] show ?thesis by (simp add: range_sound_def content_update)
  next
    case True
    obtain h where h: "content ?cr (st_files s) ?act = Some (?rows, h)"
      "h = rng_first q + int (length ?rows) - 1" "map ev_version ?rows = [rng_first q .. h]"
      "map ev_sequence ?rows = [1 .. int (length ?rows)]" "rng_last q = None" "rng_path q = rng_name q" "1 \<le> rng_first q"
      using log_inv_ranges[OF log_okD(1)[OF ok] q] only[OF q True] True by (auto elim: range_soundD)
    have "h = log_end cx s" using h(1) log_okD(2)[OF ok] by (auto simp: active_inv_def)
    moreover have "[rng_first q .. h] @ [h + 1 .. h + int (length new)] = [rng_first q .. h + int (length new)]"
      by (rule upto_join) (simp_all add: h(2))
    moreover have "[1 .. int (length ?rows)] @ [int (length ?rows) + 1 .. int (length ?rows) + int (length new)] =
        [1 .. int (length ?rows) + int (length new)]"
      by (rule upto_join) simp_all
    ultimately have "map ev_version (?rows @ new) = [rng_first q .. log_end cx s + int (length new)]"
      "map ev_sequence (?rows @ new) = [1 .. int (length (?rows @ new))]"
      using h(3,4) versions sequences by simp_all
    with f True only[OF q True] h(2,5,6,7) \<open>h = log_end cx s\<close> show ?thesis
      by (simp add: range_sound_def content_update)
  qed
  show slog: "stream_log cx (committed_state f s) = Ok (es @ nes)"
    using log stored(1) log' by (simp add: stream_log_def res_map_append)
  have "res_map (row_of_envelope ?cr (cx_time cx)) es = Ok (log_rows cx s)"
    using log_okD(1)[OF ok] log by (auto simp: log_inv_def log_decodes_def)
  with slog stored(2) log' have "log_decodes cx (committed_state f s)"
    by (simp add: log_decodes_def res_map_append)
  moreover have "vacant (file_of ?files m)" if "m \<notin> cat_names (st_catalog s)" for m
    using that log_okD(1,2)[OF ok] by (auto simp: log_inv_def active_inv_def file_of_update)
  ultimately have "log_inv cx (committed_state f s)"
    using log_okD(1)[OF ok] sound chain live by (simp add: log_inv_def)
  moreover have "log_end cx (committed_state f s) = log_end cx s + int (length new)"
    by (simp add: log_end_def log')
  then have "active_inv cx (committed_state f s)"
    using log_okD(2)[OF ok] f live L(2) by (auto simp: active_inv_def content_update rows')
  ultimately show "log_ok cx (committed_state f s)" by (simp add: log_ok_def)
qed

subsection \<open>Names\<close>

text \<open>
  The laws of the third-party crates and the condition on the window under which an event file
  name determines its window. Then the active file's name is the greatest in the catalog, and a
  clock at or after the active window's start always gives a name that is not in it.
\<close>

definition context_ok :: "('j, 'u, 'date, 'dt) stream_context \<Rightarrow> bool" where
  "context_ok cx \<longleftrightarrow>
     uuid_law (cx_text cx) \<and> time_crate_laws (cx_time cx) \<and> regex_digit_law (cx_digits cx) \<and>
     window_exact (cx_window cx)"

definition window_name :: "('j, 'u, 'date, 'dt) stream_context \<Rightarrow> int \<Rightarrow> nat option \<Rightarrow> string \<Rightarrow> bool" where
  "window_name cx start ord n \<longleftrightarrow>
     0 \<le> start \<and> in_i64 start \<and> int (as_millis (cx_window cx)) dvd start \<and>
     generate_partition_name (cx_time cx) start (cx_window cx) ord = Ok n"

definition naming :: "('j, 'u, 'date, 'dt) stream_context \<Rightarrow> stream \<Rightarrow> bool" where
  "naming cx s \<longleftrightarrow>
     window_name cx (act_start_ms (st_active s)) (act_ordinal (st_active s)) (act_name (st_active s)) \<and>
     (\<forall>n \<in> cat_names (st_catalog s). n \<le> act_name (st_active s) \<and> (\<exists>start ord. window_name cx start ord n))"

definition stream_inv :: "('j, 'u, 'date, 'dt) stream_context \<Rightarrow> stream \<Rightarrow> bool" where
  "stream_inv cx s \<longleftrightarrow> log_ok cx s \<and> naming cx s"

lemma granule_dvd: "window_exact w \<Longrightarrow> int (as_millis w) dvd s \<Longrightarrow> int (label_granule w) dvd s"
  unfolding window_exact_def by (meson dvd_trans int_dvd_int_iff)

lemma floor_after_start:
  assumes "window_ok w" "0 \<le> start" "start \<le> now" "in_i64 now" "int (as_millis w) dvd start"
    and "floor_to_window_ms now w = Ok s"
  shows "start \<le> s" "0 \<le> s" "in_i64 s" "int (as_millis w) dvd s" "s \<le> now"
proof -
  have now: "0 \<le> now" using assms(2,3) by simp
  note B = floor_to_window_Ok_bounds[OF now assms(4,1,6)]
  then show "0 \<le> s" "in_i64 s" "int (as_millis w) dvd s" "s \<le> now" by blast+
  have w: "0 < int (as_millis w)" using assms(1) by (simp add: window_ok_def)
  have "now < s + int (as_millis w)" using B by blast
  moreover obtain a b where "start = int (as_millis w) * a" "s = int (as_millis w) * b"
    using assms(5) B(1) by (auto elim!: dvdE)
  ultimately have "int (as_millis w) * a < int (as_millis w) * (b + 1)"
    using assms(3) by (simp add: algebra_simps)
  with w have "a < b + 1" by (simp only: mult_less_cancel_left_pos)
  with w \<open>start = int (as_millis w) * a\<close> \<open>s = int (as_millis w) * b\<close> show "start \<le> s" by simp
qed

lemma new_name:
  assumes cx: "context_ok cx" and nm: "naming cx s" and now: "act_start_ms (st_active s) \<le> now" "in_i64 now"
    and det: "determine_new_partition_info cx (act_start_ms (st_active s)) (act_ordinal (st_active s)) now = Ok (n, start, ord)"
  shows "act_name (st_active s) < n" "window_name cx start ord n" "start \<le> now"
proof -
  let ?w = "cx_window cx" and ?a = "st_active s"
  have w: "window_exact ?w" "window_ok ?w" "time_crate_laws (cx_time cx)"
    using cx by (auto simp: context_ok_def window_exact_def)
  have fl: "floor_to_window_ms now ?w = Ok start"
    using det by (auto simp: determine_new_partition_info_def res_simps split: if_splits)
  note F = floor_after_start[OF w(2) _ now _ fl]
  have F': "act_start_ms ?a \<le> start" "0 \<le> start" "in_i64 start" "int (as_millis ?w) dvd start" "start \<le> now"
    using F nm by (simp_all add: naming_def window_name_def)
  then show "start \<le> now" by simp
  have gen: "generate_partition_name (cx_time cx) start ?w ord = Ok n"
    using det by (auto simp: determine_new_partition_info_def res_simps split: if_splits)
  with F' show "window_name cx start ord n" by (simp add: window_name_def)
  have lt: "act_start_ms ?a < start \<or> act_start_ms ?a = start \<and> ordinal_less (act_ordinal ?a) ord"
    using det fl F'(1)
    by (auto simp: determine_new_partition_info_def res_simps get_next_ordinal_def split: if_splits option.splits)
  show "act_name ?a < n"
  proof (rule names_less[OF w(3) _ F'(2) _ _ _ gen lt])
    show "0 \<le> act_start_ms ?a" using nm by (simp add: naming_def window_name_def)
    show "int (label_granule ?w) dvd act_start_ms ?a" "int (label_granule ?w) dvd start"
      using nm F'(4) by (auto simp: naming_def window_name_def intro: granule_dvd[OF w(1)])
    show "generate_partition_name (cx_time cx) (act_start_ms ?a) ?w (act_ordinal ?a) = Ok (act_name ?a)"
      using nm by (simp add: naming_def window_name_def)
  qed
qed

lemma window_name_parses:
  "context_ok cx \<Longrightarrow> window_name cx start ord n \<Longrightarrow> parse_partition_name (cx_digits cx) (cx_time cx) n = Ok (start, ord)"
  unfolding context_ok_def window_name_def by (rule generate_parse_aligned) (auto intro: granule_dvd)

subsection \<open>Rotation under the invariant\<close>

lemma in_i64_clock [simp]: "in_i64 (clock_ms nanos)"
  by (simp add: clock_ms_def)

lemma rotate_partition_inv:
  assumes cx: "context_ok cx" and inv: "stream_inv cx s" and room: "in_i64 (log_end cx s + 1)"
    and now: "act_start_ms (st_active s) \<le> now" "in_i64 now" and run: "rotate_partition cx re now s = (r, s')"
  shows "stream_inv cx s' \<and> log_rows cx s' = log_rows cx s \<and> act_start_ms (st_active s') \<le> now \<and>
    (if r = Ok () then unsealed s' else st_active s' = st_active s)"
proof -
  have ok: "log_ok cx s" and nm: "naming cx s" using inv by (simp_all add: stream_inv_def)
  have top: "m \<le> act_name (st_active s)" if "m \<in> cat_names (st_catalog s)" for m
    using nm that by (simp add: naming_def)
  have "rotation_frame cx now s r s'"
  proof (rule rotate_partition_frame[OF ok room _ run])
    fix n start ord
    assume "determine_new_partition_info cx (act_start_ms (st_active s)) (act_ordinal (st_active s)) now = Ok (n, start, ord)"
    from new_name(1)[OF cx nm now this] top show "n \<notin> cat_names (st_catalog s)" by (meson leD)
  qed
  note F = this[unfolded rotation_frame_def]
  show ?thesis
  proof (cases "r = Ok ()")
    case False
    with F nm now(1) show ?thesis by (simp add: stream_inv_def naming_def)
  next
    case True
    with F obtain n start ord where
      det: "determine_new_partition_info cx (act_start_ms (st_active s)) (act_ordinal (st_active s)) now = Ok (n, start, ord)"
      and s': "st_active s' = \<lparr>act_name = n, act_start_ms = start, act_ordinal = ord\<rparr>"
        "cat_names (st_catalog s') = insert n (cat_names (st_catalog s))"
      by auto
    note N = new_name[OF cx nm now det]
    have "naming cx s'"
      using N(1,2) nm by (auto simp: naming_def s' intro: order.trans less_imp_le)
    with F True N(3) show ?thesis by (simp add: stream_inv_def s')
  qed
qed

text \<open>\<open>should_rotate\<close> answers yes: after a rotation that failed half-way the next one must follow.\<close>

definition rotation_due :: "('j, 'u, 'date, 'dt) stream_context \<Rightarrow> probe_env \<Rightarrow> stream \<Rightarrow> bool" where
  "rotation_due cx pr s \<longleftrightarrow>
     should_rotate (pr_secs pr) (act_name (st_active s)) (cx_rotation cx)
       (case pr_size pr of None \<Rightarrow> 0 | Some n \<Rightarrow> n) (act_start_ms (st_active s)) = Ok True"

lemma maybe_rotate_inv:
  assumes cx: "context_ok cx" and inv: "stream_inv cx s" and room: "in_i64 (log_end cx s + 1)"
    and now: "act_start_ms (st_active s) \<le> clock_ms (pr_nanos pr)" and run: "maybe_rotate cx pr s = (r, s')"
  shows "stream_inv cx s' \<and> log_rows cx s' = log_rows cx s \<and> act_start_ms (st_active s') \<le> clock_ms (pr_nanos pr) \<and>
    (r = Ok () \<and> (unsealed s \<or> rotation_due cx pr s) \<longrightarrow> unsealed s')"
  using run[unfolded maybe_rotate_def Let_def]
proof (cases rule: sbind_cases)
  case (Ok b s0)
  then show ?thesis
    using inv now rotate_partition_inv[OF cx inv room now in_i64_clock, of "pr_rotation pr"]
    by (auto simp: rotation_due_def split: if_splits)
qed (use inv now in auto)

text \<open>The loop runs at most one rotation: the first successful one ends it.\<close>

lemma rotate_until_cases:
  assumes "rotate_until_current_window cx rots now i s = (r, s')"
  obtains (Stay) "s' = s" "r = Ok () \<Longrightarrow> in_window cx now s"
    | (Rotate) "rotate_partition cx (rots i) now s = (r, s')"
proof -
  from assms[unfolded rotate_until_current_window.simps[of cx rots now i s]] show thesis
  proof (cases rule: sbind_cases)
    case (Ok fl s0)
    show thesis
    proof (cases "fl = act_start_ms (st_active s)")
      case True
      with Ok show thesis by (intro Stay) (auto simp: in_window_def)
    next
      case False
      obtain r1 s1 where rot: "rotate_partition cx (rots i) now s = (r1, s1)" by (cases "rotate_partition cx (rots i) now s")
      show thesis
      proof (cases "r1 = Ok ()")
        case True
        then have "in_window cx now s1" using rot rotate_partition_in_window by blast
        then have "rotate_until_current_window cx rots now (i + 1) s1 = (Ok (), s1)"
          by (subst rotate_until_current_window.simps) (simp add: in_window_def)
        with Ok False rot True show thesis by (intro Rotate) auto
      next
        case f: False
        with Ok False rot show thesis by (intro Rotate) (auto split: res.splits)
      qed
    qed
  qed (intro Stay, auto)
qed

lemma rotate_until_inv:
  assumes cx: "context_ok cx" and inv: "stream_inv cx s" and room: "in_i64 (log_end cx s + 1)"
    and now: "act_start_ms (st_active s) \<le> now" "in_i64 now"
    and run: "rotate_until_current_window cx rots now i s = (r, s')"
  shows "stream_inv cx s' \<and> log_rows cx s' = log_rows cx s \<and> (r = Ok () \<and> unsealed s \<longrightarrow> unsealed s')"
  using run
proof (cases rule: rotate_until_cases)
  case Rotate
  with rotate_partition_inv[OF cx inv room now] show ?thesis by auto
qed (use inv in auto)

subsection \<open>Appends under the invariant\<close>

definition payloads_readable :: "('j, 'u) text_crates \<Rightarrow> ('j, 'u) new_event list \<Rightarrow> bool" where
  "payloads_readable cr events \<longleftrightarrow> list_all (\<lambda>e. readable cr (ne_payload e)) events"

lemma alist_update_same: "map_of al k = Some v \<Longrightarrow> AList.update k v al = al"
  by (induction al) (auto split: if_splits)

lemma stored_envelopes:
  assumes cx: "context_ok cx" and t: "in_i64 now" "tc_from_nanos (cx_time cx) (now * 1000000) = Some base_time"
    and p: "payloads_readable (cx_text cx) events" and v: "0 \<le> cur"
    and new: "res_map (row_of_envelope (cx_text cx) (cx_time cx)) (envelopes_from ids base_time cur sq i events) = Ok new"
  shows "res_map (decode_row (cx_msgs cx) (cx_text cx) (cx_time cx)) new = Ok (envelopes_from ids base_time cur sq i events)"
  using p new
proof (induction events arbitrary: i new)
  case (Cons e es)
  let ?env = "envelope_of ids base_time i (EventStreamVersion (cur + 1 + int i)) (sq + 1 + int i) e"
  have laws: "uuid_law (cx_text cx)" "time_crate_laws (cx_time cx)" using cx by (simp_all add: context_ok_def)
  have "tc_nanos (cx_time cx) base_time = now * 1000000"
    using laws(2) t(2) unfolding time_crate_laws_def clock_law_def by blast
  then have st: "storable (cx_text cx) (cx_time cx) ?env"
    using Cons.prems(1) v t by (simp add: storable_def payloads_readable_def Let_def)
  obtain r rs where "row_of_envelope (cx_text cx) (cx_time cx) ?env = Ok r" "new = r # rs"
    "res_map (row_of_envelope (cx_text cx) (cx_time cx)) (envelopes_from ids base_time cur sq (i + 1) es) = Ok rs"
    using Cons.prems(2) by (auto simp: res_simps)
  with Cons.IH[of "i + 1" rs] Cons.prems(1) row_decodes[OF laws st] show ?case
    by (simp add: payloads_readable_def decode_row_def)
qed simp

text \<open>The envelopes of one append: the given events under consecutive versions.\<close>

lemma append_active_tx:
  assumes "append_active cx env base_time ex events s = (Ok res, s')"
  obtains f f' where "get_connection cx (ae_conn env) (st_files s) (act_name (st_active s)) = Ok f"
    "append_tx (cx_msgs cx) (cx_text cx) (cx_time cx) (ae_tx env) (ae_ids env) base_time ex events f = (Ok res, f')"
    "s' = committed_state f' s"
proof -
  obtain f where f: "get_connection cx (ae_conn env) (st_files s) (act_name (st_active s)) = Ok f"
    and run: "(case append_tx (cx_msgs cx) (cx_text cx) (cx_time cx) (ae_tx env) (ae_ids env) base_time ex events f of
        (r, f) \<Rightarrow> (r, s\<lparr>st_files := AList.update (act_name (st_active s)) f (st_files s)\<rparr>)) = (Ok res, s')"
    using assms by (auto simp: append_active_def res_simps)
  obtain f' where "append_tx (cx_msgs cx) (cx_text cx) (cx_time cx) (ae_tx env) (ae_ids env) base_time ex events f = (Ok res, f')"
    "s' = committed_state f' s"
    using run
    by (cases "append_tx (cx_msgs cx) (cx_text cx) (cx_time cx) (ae_tx env) (ae_ids env) base_time ex events f")
      (auto simp: committed_state_def)
  with f that show thesis by blast
qed

lemma append_active_commits:
  assumes cx: "context_ok cx" and inv: "stream_inv cx s" "unsealed s" and log: "stream_log cx s = Ok es"
    and room: "in_i64 (log_end cx s)"
    and t: "in_i64 now" "tc_from_nanos (cx_time cx) (now * 1000000) = Some base_time"
    and p: "payloads_readable (cx_text cx) events"
    and run: "append_active cx env base_time ex events s = (Ok res, s')"
  shows "stream_inv cx s' \<and> unsealed s' \<and> stream_log cx s' = Ok (es @ res_events res) \<and>
    validate_expected_version_against ex (log_end cx s) = Ok (log_end cx s) \<and>
    (\<exists>sq. res_events res = envelopes_from (ae_ids env) base_time (log_end cx s) sq 0 events) \<and>
    res_first_version res = EventStreamVersion (log_end cx s + 1) \<and>
    res_last_version res = EventStreamVersion (log_end cx s + int (length events))"
proof -
  have ok: "log_ok cx s" using inv by (simp add: stream_inv_def)
  obtain rows where rows: "content (cx_text cx) (st_files s) (act_name (st_active s)) = Some (rows, log_end cx s)"
    "int (length rows) \<le> log_end cx s" "map ev_sequence rows = [1 .. int (length rows)]"
    "rows_of (cx_text cx) (st_files s) (act_name (st_active s)) = rows"
    by (rule active_content[OF ok])
  obtain f f' where f: "get_connection cx (ae_conn env) (st_files s) (act_name (st_active s)) = Ok f"
    and tx: "append_tx (cx_msgs cx) (cx_text cx) (cx_time cx) (ae_tx env) (ae_ids env) base_time ex events f = (Ok res, f')"
    and s': "s' = committed_state f' s"
    by (rule append_active_tx[OF run])
  have "idle f" "file_content (cx_text cx) (tables (committed f)) = Some (rows, log_end cx s)"
    using f rows(1) by (auto simp: get_connection_def content_def split: option.splits if_splits)
  note C = append_tx_commit[OF tx this _ rows(2) room rows(3)]
  have law: "uuid_law (cx_text cx)" using cx by (simp add: context_ok_def)
  let ?es = "envelopes_from (ae_ids env) base_time (log_end cx s) (int (length rows)) 0 events"
  obtain new where new: "res_map (row_of_envelope (cx_text cx) (cx_time cx)) ?es = Ok new"
    "file_content (cx_text cx) (tables (committed f')) = Some (rows @ new, log_end cx s + int (length events))"
    and res: "res_events res = ?es" and idle: "idle f'"
    using C[OF law] by auto
  have len: "length new = length events" using res_map_length[OF new(1)] by simp
  have "0 \<le> log_end cx s" by (simp add: log_end_def)
  note dec = stored_envelopes[OF cx t p this new(1)]
  have fc: "file_content (cx_text cx) (tables (committed f')) =
      Some (rows_of (cx_text cx) (st_files s) (act_name (st_active s)) @ new, log_end cx s + int (length new))"
    using new(2) by (simp add: rows(4) len)
  have vs: "map ev_version new = [log_end cx s + 1 .. log_end cx s + int (length new)]"
    using rows_of_envelopes(1)[OF new(1)] len
      versions_envelopes_from[of "ae_ids env" base_time "log_end cx s" "int (length rows)" 0 events] by simp
  have sq: "map ev_sequence new = [int (length (rows_of (cx_text cx) (st_files s) (act_name (st_active s)))) + 1 ..
      int (length (rows_of (cx_text cx) (st_files s) (act_name (st_active s)))) + int (length new)]"
    using rows_of_envelopes(2)[OF new(1)] len
      sequences_envelopes_from[of "ae_ids env" base_time "log_end cx s" "int (length rows)" 0 events]
    by (simp add: rows(4) add.commute)
  note S = commit_step[OF ok inv(2) idle fc vs sq dec new(1) log]
  then have "log_ok cx s'" "stream_log cx s' = Ok (es @ ?es)" by (simp_all add: s')
  moreover have "naming cx s'" using inv(1) by (simp add: s' stream_inv_def naming_def)
  ultimately show ?thesis
    using C[OF law] inv(2) res by (auto simp: stream_inv_def s')
qed

lemma append_active_fails:
  assumes "log_ok cx s" "ae_tx env TxRollback = None" "events \<noteq> []"
    and "append_active cx env base_time ex events s = (Err e, s')"
  shows "s' = s"
proof -
  obtain rows where c: "content (cx_text cx) (st_files s) (act_name (st_active s)) = Some (rows, log_end cx s)"
    by (rule active_content[OF assms(1)])
  from assms(4)[unfolded append_active_def] show ?thesis
  proof (cases rule: sbind_cases)
    case (Ok f s0)
    then have f: "map_of (st_files s) (act_name (st_active s)) = Some f" "idle f" "s0 = s"
      using c by (auto simp: get_connection_def content_def split: option.splits if_splits)
    obtain r f' where tx: "append_tx (cx_msgs cx) (cx_text cx) (cx_time cx) (ae_tx env) (ae_ids env) base_time ex events f = (r, f')"
      by (cases "append_tx (cx_msgs cx) (cx_text cx) (cx_time cx) (ae_tx env) (ae_ids env) base_time ex events f")
    with Ok(2) f(3) have r: "r = Err e" "s' = s\<lparr>st_files := AList.update (act_name (st_active s)) f' (st_files s)\<rparr>"
      by auto
    with append_tx_rollback[OF tx[unfolded r(1)] f(2) assms(2,3)] f(1) show ?thesis
      by (simp add: alist_update_same)
  qed simp
qed

definition clock_forward :: "'u append_env \<Rightarrow> stream \<Rightarrow> bool" where
  "clock_forward env s \<longleftrightarrow>
     act_start_ms (st_active s) \<le> clock_ms (pr_nanos (ae_probe env)) \<and>
     clock_ms (pr_nanos (ae_probe env)) \<le> clock_ms (ae_nanos env)"

text \<open>
  An append by its last step: it stops before the transaction with the log as it was, or runs
  the transaction on a stream with the same log.
\<close>

lemma append_events_cases:
  assumes cx: "context_ok cx" and inv: "stream_inv cx s" "unsealed s \<or> rotation_due cx (ae_probe env) s"
    and room: "in_i64 (log_end cx s + 1)"
    and clock: "clock_forward env s" and run: "append_events cx env ex events s = (r, s')"
  obtains (Stop) "stream_inv cx s'" "log_rows cx s' = log_rows cx s" "\<And>res. r \<noteq> Ok res"
    | (Empty) "stream_inv cx s'" "unsealed s'" "log_rows cx s' = log_rows cx s" "events = []"
        "r = Ok \<lparr>res_first_version = version_start, res_last_version = version_start, res_events = []\<rparr>"
    | (Tx) s2 base_time where "stream_inv cx s2" "unsealed s2" "log_rows cx s2 = log_rows cx s" "events \<noteq> []"
        "validate_events (cx_text cx) MAX_PAYLOAD_BYTES events = Ok ()"
        "tc_from_nanos (cx_time cx) (clock_ms (ae_nanos env) * 1000000) = Some base_time"
        "append_active cx env base_time ex events s2 = (r, s')"
proof -
  have now: "act_start_ms (st_active s) \<le> clock_ms (pr_nanos (ae_probe env))"
    using clock by (simp add: clock_forward_def)
  from run[unfolded append_events_def] show thesis
  proof (cases rule: sbind_cases)
    case (Stop r')
    with maybe_rotate_inv[OF cx inv(1) room now Stop(1)] show thesis by (intro that(1)) auto
  next
    case (Ok u s1)
    then have M: "stream_inv cx s1" "log_rows cx s1 = log_rows cx s" "unsealed s1"
      "act_start_ms (st_active s1) \<le> clock_ms (pr_nanos (ae_probe env))"
      using maybe_rotate_inv[OF cx inv(1) room now Ok(1)] inv(2) by auto
    show thesis
    proof (cases "events = []")
      case True
      with Ok M show thesis by (intro that(2)) auto
    next
      case False
      with Ok(2) have run1: "sbind (validate_events (cx_text cx) MAX_PAYLOAD_BYTES events, s1) (\<lambda>_ s.
          sbind (ok_or (Time (tc_range_error (cx_time cx))) (tc_from_nanos (cx_time cx) (clock_ms (ae_nanos env) * 1000000)), s)
            (\<lambda>base_time s. sbind (rotate_until_current_window cx (ae_rotations env) (clock_ms (ae_nanos env)) 0 s)
              (\<lambda>_ s. append_active cx env base_time ex events s))) = (r, s')"
        by (simp add: Let_def)
      from run1 show thesis
      proof (cases rule: sbind_cases)
        case (Stop r')
        with M show thesis by (intro that(1)) auto
      next
        case valid: (Ok u2 s2)
        then have s2: "s2 = s1" by simp
        from valid(2)[unfolded s2] show thesis
        proof (cases rule: sbind_cases)
          case (Stop r')
          with M show thesis by (intro that(1)) auto
        next
          case time: (Ok base_time s3)
          then have s3: "s3 = s1" by simp
          have later: "act_start_ms (st_active s1) \<le> clock_ms (ae_nanos env)"
            using M(4) clock by (simp add: clock_forward_def)
          have room1: "in_i64 (log_end cx s1 + 1)" using room M(2) by (simp add: log_end_def)
          from time(2)[unfolded s3] show thesis
          proof (cases rule: sbind_cases)
            case (Stop r')
            with rotate_until_inv[OF cx M(1) room1 later in_i64_clock Stop(1)] M(2) show thesis
              by (intro that(1)) auto
          next
            case rot: (Ok u4 s4)
            with rotate_until_inv[OF cx M(1) room1 later in_i64_clock rot(1)] M False valid(1) time(1)
            show thesis by (intro that(3)[of s4 base_time]) (auto simp: res_simps)
          qed
        qed
      qed
    qed
  qed
qed

end
