(* ===== verification/StreamOpen.thy ===== *)
theory StreamOpen
  imports EventStream
begin

section \<open>Opening a stream (\<open>open_partitioned\<close> in \<open>src/event_stream.rs\<close>)\<close>

text \<open>
  Opening a partition directory: the catalog database and its migrations (\<open>Catalog::open_with_pool\<close>
  in \<open>src/catalog.rs\<close>), the choice of the active partition, the rebuild of the catalog from the
  event files when it does not name exactly one unsealed file, and the creation of the first file
  of a new store. A \<open>disk\<close> is what a process finds: no connection is open on it.
\<close>

type_synonym catalog_schema = "range_row list option schema_db"

record disk =
  dk_catalog :: "catalog_schema option"
  dk_files :: event_files

subsection \<open>The catalog database\<close>

record catalog_env =
  ca_open :: "open_call faults"
  ca_migrate :: "mig_call faults"
  ca_batch :: "nat faults"
  ca_now :: int

definition blank_catalog :: catalog_schema where
  "blank_catalog = \<lparr>migrations_table = None, tables = None\<rparr>"

definition catalog_batch ::
  "turso_msgs \<Rightarrow> nat faults \<Rightarrow> catalog_sql \<Rightarrow> range_row list option \<Rightarrow> unit result \<times> range_row list option" where
  "catalog_batch tm flt sql t =
     (case flt 0 of Some e \<Rightarrow> (Err e, t)
      | None \<Rightarrow>
      (if t \<noteq> None then (Err (Db (table_exists tm ''event_file_ranges'')), t)
       else (case flt 1 of Some e \<Rightarrow> (Err e, Some []) | None \<Rightarrow> (Ok (), Some []))))"

definition open_with_pool ::
  "('j, 'u, 'date, 'dt) stream_context \<Rightarrow> catalog_env \<Rightarrow> catalog_schema option \<Rightarrow> unit result \<times> catalog_schema option" where
  "open_with_pool cx ca cat =
     (case ca_open ca BuildDb of Some e \<Rightarrow> (Err e, cat)
      | None \<Rightarrow>
      (let c = (case cat of None \<Rightarrow> blank_catalog | Some c \<Rightarrow> c) in
      (case ca_open ca ConfigureDb of Some e \<Rightarrow> (Err e, Some c)
       | None \<Rightarrow>
      (case ca_open ca ConnectDb of Some e \<Rightarrow> (Err e, Some c)
       | None \<Rightarrow>
           (case run_migrations (cx_msgs cx) (cx_catalog_digest cx) (catalog_batch (cx_msgs cx) (ca_batch ca))
                   (ca_migrate ca) (ca_now ca) catalog_migrations c of
              (r, c) \<Rightarrow> (r, Some c))))))"

subsection \<open>Discovering the event files\<close>

record event_file_summary =
  sm_name :: string
  sm_first :: int
  sm_current :: int

text \<open>
  A directory entry: \<open>next_entry\<close> may fail, \<open>file_type\<close> may fail, the name may not be UTF-8.
\<close>

datatype dir_item = EntryErr es_error | Entry "bool result" "string option"

datatype dir_listing = DirNotFound | DirErr es_error | DirEntries "dir_item list"

record discover_env =
  ds_open :: "open_call faults"
  ds_file :: "file_call faults"

definition summarize_file ::
  "('j, 'u, 'date, 'dt) stream_context \<Rightarrow> discover_env \<Rightarrow> string \<Rightarrow> event_files \<Rightarrow> event_file_summary result \<times> event_files" where
  "summarize_file cx ds name files =
     sbind (open_partition_db (ds_open ds) name files) (\<lambda>_ files.
     case ds_open ds ConnectDb of Some e \<Rightarrow> (Err e, files)
     | None \<Rightarrow>
       (let t = tables (committed (file_of files name)) in
        (rbind (read_event_file_append_head (cx_msgs cx) (cx_text cx) (ds_file ds) t) (\<lambda>head_version.
         rbind (read_first_event_version (cx_msgs cx) (ds_file ds) t) (\<lambda>first.
         Ok \<lparr>sm_name = name,
             sm_first = (case first of None \<Rightarrow> wrap64 (head_version + 1) | Some v \<Rightarrow> v),
             sm_current = head_version\<rparr>)), files)))"

fun discover_entries ::
  "('j, 'u, 'date, 'dt) stream_context \<Rightarrow> (nat \<Rightarrow> discover_env) \<Rightarrow> nat \<Rightarrow> dir_item list \<Rightarrow> event_files
     \<Rightarrow> event_file_summary list result \<times> event_files" where
  "discover_entries cx ds i [] files = (Ok [], files)"
| "discover_entries cx ds i (item # items) files =
     (case item of
        EntryErr e \<Rightarrow> (Err e, files)
      | Entry file_type file_name \<Rightarrow>
          (case file_type of
             Err e \<Rightarrow> (Err e, files)
           | Panic m \<Rightarrow> (Panic m, files)
           | Ok is_file \<Rightarrow>
               if \<not> is_file then discover_entries cx ds (i + 1) items files
               else
                 (case file_name of
                    None \<Rightarrow> discover_entries cx ds (i + 1) items files
                  | Some name \<Rightarrow>
                      if \<not> prefix ''events_'' name \<or> \<not> suffix ''.db'' name
                      then discover_entries cx ds (i + 1) items files
                      else
                        sbind (parse_partition_name (cx_digits cx) (cx_time cx) name, files) (\<lambda>_ files.
                        sbind (summarize_file cx (ds i) name files) (\<lambda>summary files.
                        sbind (discover_entries cx ds (i + 1) items files) (\<lambda>summaries files.
                        (Ok (summary # summaries), files)))))))"

definition discover_event_file_summaries ::
  "('j, 'u, 'date, 'dt) stream_context \<Rightarrow> (nat \<Rightarrow> discover_env) \<Rightarrow> dir_listing \<Rightarrow> event_files
     \<Rightarrow> event_file_summary list result \<times> event_files" where
  "discover_event_file_summaries cx ds listing files =
     (case listing of
        DirNotFound \<Rightarrow> (Ok [], files)
      | DirErr e \<Rightarrow> (Err e, files)
      | DirEntries items \<Rightarrow> discover_entries cx ds 0 items files)"

subsection \<open>Rebuilding the catalog\<close>

record rebuild_env =
  rb_listing :: dir_listing
  rb_discover :: "nat \<Rightarrow> discover_env"
  rb_replace :: "cat_call faults"

definition range_of_summary :: "nat \<Rightarrow> nat \<Rightarrow> event_file_summary \<Rightarrow> event_file_range" where
  "range_of_summary active_index index summary =
     \<lparr>rng_name = sm_name summary, rng_path = sm_name summary, rng_first = sm_first summary,
      rng_last = (if index \<noteq> active_index then Some (sm_current summary) else None),
      rng_sealed = (index \<noteq> active_index)\<rparr>"

definition ranges_of_summaries :: "event_file_summary list \<Rightarrow> event_file_range list" where
  "ranges_of_summaries summaries =
     (let sorted = sort_key (\<lambda>s. (sm_first s, sm_name s)) summaries;
          active_index = length sorted - 1
      in map (\<lambda>(index, summary). range_of_summary active_index index summary) (List.enumerate 0 sorted))"

text \<open>The state of the store while it is opened: the catalog and the files.\<close>

definition rebuild_event_file_ranges ::
  "('j, 'u, 'date, 'dt) stream_context \<Rightarrow> rebuild_env \<Rightarrow> catalog \<times> event_files
     \<Rightarrow> event_file_range list result \<times> catalog \<times> event_files" where
  "rebuild_event_file_ranges cx rb st =
     (case discover_event_file_summaries cx (rb_discover rb) (rb_listing rb) (snd st) of
        (Err e, files) \<Rightarrow> (Err e, fst st, files)
      | (Panic m, files) \<Rightarrow> (Panic m, fst st, files)
      | (Ok summaries, files) \<Rightarrow>
          (let ranges = (if summaries = [] then [] else ranges_of_summaries summaries) in
           case replace_event_file_ranges (cx_msgs cx) (rb_replace rb) ranges (fst st) of
             (Err e, cat) \<Rightarrow> (Err e, cat, files)
           | (Panic m, cat) \<Rightarrow> (Panic m, cat, files)
           | (Ok _, cat) \<Rightarrow> (Ok ranges, cat, files)))"

subsection \<open>The active partition\<close>

record new_partition_env =
  nw_nanos :: int
  nw_file :: create_env
  nw_range :: "cat_call faults"

definition create_new_active_partition ::
  "('j, 'u, 'date, 'dt) stream_context \<Rightarrow> new_partition_env \<Rightarrow> int \<Rightarrow> catalog \<times> event_files
     \<Rightarrow> active_partition result \<times> catalog \<times> event_files" where
  "create_new_active_partition cx nw first_version st =
     sbind (floor_to_window_ms (clock_ms (nw_nanos nw)) (cx_window cx), st) (\<lambda>start_ms st.
     sbind (generate_partition_name (cx_time cx) start_ms (cx_window cx) None, st) (\<lambda>name st.
     sbind (case create_partition_db cx (nw_file nw) name (wrap64 (first_version - 1)) None (snd st) of
              (r, files) \<Rightarrow> (r, fst st, files)) (\<lambda>_ st.
     sbind (case create_event_file_range (nw_range nw) (unsealed_range name first_version) (fst st) of
              (r, cat) \<Rightarrow> (r, cat, snd st)) (\<lambda>_ st.
     (Ok \<lparr>act_name = name, act_start_ms = start_ms, act_ordinal = None\<rparr>, st)))))"

text \<open>\<open>max_by\<close> over the unsealed ranges: the last of the greatest.\<close>

fun latest_range :: "event_file_range list \<Rightarrow> event_file_range option" where
  "latest_range [] = None"
| "latest_range (r # rs) =
     (case latest_range rs of
        None \<Rightarrow> Some r
      | Some q \<Rightarrow> if (rng_first r, rng_name r) \<le> (rng_first q, rng_name q) then Some q else Some r)"

record open_env =
  op_dir :: "es_error option"
  op_pool :: "es_error option"
  op_catalog :: catalog_env
  op_ranges :: "cat_call faults"
  op_rebuild :: rebuild_env
  op_active :: "open_call faults"
  op_new :: new_partition_env

definition unsealed_count :: "event_file_range list \<Rightarrow> nat" where
  "unsealed_count ranges = length (filter (\<lambda>r. \<not> rng_sealed r) ranges)"

definition initialize_active_partition ::
  "('j, 'u, 'date, 'dt) stream_context \<Rightarrow> open_env \<Rightarrow> catalog \<times> event_files
     \<Rightarrow> active_partition result \<times> catalog \<times> event_files" where
  "initialize_active_partition cx oe st =
     sbind (get_all_event_file_ranges (cx_msgs cx) (op_ranges oe) (fst st), st) (\<lambda>ranges st.
     sbind (res_map (\<lambda>r. parse_partition_name (cx_digits cx) (cx_time cx) (rng_name r)) ranges, st) (\<lambda>_ st.
     sbind (if unsealed_count ranges \<noteq> 1 then rebuild_event_file_ranges cx (op_rebuild oe) st else (Ok ranges, st))
       (\<lambda>ranges st.
     case latest_range (filter (\<lambda>r. \<not> rng_sealed r) ranges) of
       Some active_ref \<Rightarrow>
         sbind (parse_partition_name (cx_digits cx) (cx_time cx) (rng_name active_ref), st) (\<lambda>(start_ms, ordinal) st.
         sbind (case open_partition_db (op_active oe) (rng_path active_ref) (snd st) of
                  (r, files) \<Rightarrow> (r, fst st, files)) (\<lambda>_ st.
         (Ok \<lparr>act_name = rng_name active_ref, act_start_ms = start_ms, act_ordinal = ordinal\<rparr>, st)))
     | None \<Rightarrow> create_new_active_partition cx (op_new oe) 1 st)))"

definition open_partitioned ::
  "('j, 'u, 'date, 'dt) stream_context \<Rightarrow> open_env \<Rightarrow> disk \<Rightarrow> stream result \<times> disk" where
  "open_partitioned cx oe dk =
     (case op_dir oe of Some e \<Rightarrow> (Err e, dk)
      | None \<Rightarrow>
      (case op_pool oe of Some e \<Rightarrow> (Err e, dk)
       | None \<Rightarrow>
      (case open_with_pool cx (op_catalog oe) (dk_catalog dk) of
         (Err e, c) \<Rightarrow> (Err e, dk\<lparr>dk_catalog := c\<rparr>)
       | (Panic m, c) \<Rightarrow> (Panic m, dk\<lparr>dk_catalog := c\<rparr>)
       | (Ok _, c) \<Rightarrow>
      (let schema = (case c of None \<Rightarrow> blank_catalog | Some s \<Rightarrow> s) in
       case tables schema of
         None \<Rightarrow>
           (Err (case op_ranges oe CatConnect of Some e \<Rightarrow> e
                 | None \<Rightarrow> (case op_ranges oe CatQuery of Some e \<Rightarrow> e
                            | None \<Rightarrow> Db (no_such_table (cx_msgs cx) ''event_file_ranges''))),
            dk\<lparr>dk_catalog := c\<rparr>)
       | Some rows \<Rightarrow>
           (case initialize_active_partition cx oe (fresh_db rows, dk_files dk) of
              (r, cat, files) \<Rightarrow>
                (rbind r (\<lambda>active.
                   Ok \<lparr>st_catalog = cat, st_catalog_migrations = migrations_table schema, st_files = files,
                       st_active = active\<rparr>),
                 \<lparr>dk_catalog = Some \<lparr>migrations_table = migrations_table schema, tables = Some (committed cat)\<rparr>,
                  dk_files = files\<rparr>))))))"

text \<open>What a stopped process leaves: open transactions are gone.\<close>

definition disk_of :: "stream \<Rightarrow> disk" where
  "disk_of s =
     \<lparr>dk_catalog = Some \<lparr>migrations_table = st_catalog_migrations s, tables = Some (committed (st_catalog s))\<rparr>,
      dk_files = map (\<lambda>(n, f). (n, f\<lparr>pending := None\<rparr>)) (st_files s)\<rparr>"

end
