(* ===== verification/StreamOpenLaws.thy ===== *)
theory StreamOpenLaws
  imports StreamSafety StreamOpen
begin

section \<open>Reopening a stream\<close>

text \<open>
  A stream that was stopped in any state the invariant covers opens again with the same log: by
  the catalog when it names one unsealed file, by a rebuild from the files when a rotation was
  cut off. \<open>recoverable\<close> is the condition of the rebuild on the files the catalog does not name.
\<close>

subsection \<open>What the rebuild reads of a file\<close>

definition head_of :: "('j, 'u) text_crates \<Rightarrow> event_files \<Rightarrow> string \<Rightarrow> int" where
  "head_of cr files n = (case content cr files n of None \<Rightarrow> 0 | Some (rows, h) \<Rightarrow> h)"

definition first_of :: "('j, 'u) text_crates \<Rightarrow> event_files \<Rightarrow> string \<Rightarrow> int" where
  "first_of cr files n = head_of cr files n + 1 - int (length (rows_of cr files n))"

definition file_key :: "('j, 'u) text_crates \<Rightarrow> event_files \<Rightarrow> string \<Rightarrow> int \<times> string" where
  "file_key cr files n = (first_of cr files n, n)"

definition complete :: "('j, 'u) text_crates \<Rightarrow> event_files \<Rightarrow> string \<Rightarrow> bool" where
  "complete cr files n \<longleftrightarrow>
     content cr files n = Some (rows_of cr files n, head_of cr files n) \<and>
     map ev_version (rows_of cr files n) = [first_of cr files n .. head_of cr files n] \<and>
     map ev_sequence (rows_of cr files n) = [1 .. int (length (rows_of cr files n))] \<and>
     1 \<le> first_of cr files n \<and> in_i64 (head_of cr files n + 1)"

lemma content_fields:
  "content cr files n = Some (rows, h) \<Longrightarrow>
     rows_of cr files n = rows \<and> head_of cr files n = h \<and> first_of cr files n = h + 1 - int (length rows)"
  by (simp add: rows_of_def head_of_def first_of_def)

definition summary_of :: "('j, 'u) text_crates \<Rightarrow> event_files \<Rightarrow> string \<Rightarrow> event_file_summary" where
  "summary_of cr files n = \<lparr>sm_name = n, sm_first = first_of cr files n, sm_current = head_of cr files n\<rparr>"

definition discover_ok :: "(nat \<Rightarrow> discover_env) \<Rightarrow> bool" where
  "discover_ok ds \<longleftrightarrow> (\<forall>i c. ds_open (ds i) c = None) \<and> (\<forall>i c. ds_file (ds i) c = None)"

lemma open_existing:
  assumes "map_of files n = Some f" "flt BuildDb = None" "flt ConfigureDb = None"
  shows "open_partition_db flt n files = (Ok (), files)"
  using assms by (simp add: open_partition_db_def Let_def file_of_def alist_update_same)

lemma summarize_complete:
  assumes "complete (cx_text cx) files n" "\<forall>c. ds_open ds c = None" "\<forall>c. ds_file ds c = None"
  shows "summarize_file cx ds n files = (Ok (summary_of (cx_text cx) files n), files)"
proof -
  let ?rows = "rows_of (cx_text cx) files n" and ?h = "head_of (cx_text cx) files n"
  note C = assms(1)[unfolded complete_def]
  obtain f where f: "map_of files n = Some f" "file_content (cx_text cx) (tables (committed f)) = Some (?rows, ?h)"
    using C by (auto simp: content_def split: option.splits if_splits)
  have fo: "file_of files n = f" using f by (simp add: file_of_def)
  have head: "read_event_file_append_head (cx_msgs cx) (cx_text cx) (ds_file ds) (tables (committed f)) = Ok ?h"
    using assms(3) by (intro read_head_Ok[OF f(2)]) auto
  have tbl: "events_table (tables (committed f)) = Some ?rows" using f(2) by (auto simp: file_content_Some)
  have "Min (set (map ev_version ?rows)) = first_of (cx_text cx) files n" if "?rows \<noteq> []"
  proof -
    have "first_of (cx_text cx) files n \<le> ?h" using that C by (cases ?rows) (auto simp: first_of_def)
    then have "Min {first_of (cx_text cx) files n .. ?h} = first_of (cx_text cx) files n"
      by (intro Min_eqI) auto
    then show ?thesis using C by simp
  qed
  moreover have "first_of (cx_text cx) files n = ?h + 1" if "?rows = []"
    using that by (simp add: first_of_def)
  ultimately show ?thesis
    using assms(2,3) C fo head tbl
    by (auto simp: summarize_file_def open_existing[OF f(1)] Let_def read_first_event_version_def summary_of_def)
qed

text \<open>The event files of a listing; \<open>lists_files\<close>: the listing shows each event file once.\<close>

fun listed :: "dir_item list \<Rightarrow> string list" where
  "listed [] = []"
| "listed (Entry (Ok True) (Some n) # items) =
     (if prefix ''events_'' n \<and> suffix ''.db'' n then n # listed items else listed items)"
| "listed (_ # items) = listed items"

fun item_ok :: "dir_item \<Rightarrow> bool" where
  "item_ok (Entry (Ok b) n) = True"
| "item_ok _ = False"

lemma discover_listed:
  assumes "discover_ok ds" "list_all item_ok items"
    and "\<forall>n \<in> set (listed items). complete (cx_text cx) files n \<and>
      is_Ok (parse_partition_name (cx_digits cx) (cx_time cx) n)"
  shows "discover_entries cx ds i items files = (Ok (map (summary_of (cx_text cx) files) (listed items)), files)"
  using assms(2,3)
proof (induction items arbitrary: i)
  case (Cons item items)
  obtain b name where item: "item = Entry (Ok b) name"
    using Cons.prems(1) by (cases item rule: item_ok.cases) auto
  show ?case
  proof (cases "b \<and> (\<exists>n. name = Some n \<and> prefix ''events_'' n \<and> suffix ''.db'' n)")
    case True
    then obtain n where n: "b" "name = Some n" "prefix ''events_'' n" "suffix ''.db'' n" by blast
    then have listed: "listed (item # items) = n # listed items" by (simp add: item)
    have c: "complete (cx_text cx) files n" and p: "is_Ok (parse_partition_name (cx_digits cx) (cx_time cx) n)"
      using Cons.prems(2) by (simp_all add: listed)
    have "summarize_file cx (ds i) n files = (Ok (summary_of (cx_text cx) files n), files)"
      using assms(1) by (intro summarize_complete[OF c]) (auto simp: discover_ok_def)
    moreover have "discover_entries cx ds (i + 1) items files =
        (Ok (map (summary_of (cx_text cx) files) (listed items)), files)"
      using Cons.prems listed by (intro Cons.IH) auto
    ultimately show ?thesis
      unfolding listed using n p by (auto simp: item elim: is_OkE)
  next
    case False
    then have listed: "listed (item # items) = listed items"
      by (cases b; cases name) (auto simp: item)
    have "discover_entries cx ds i (item # items) files = discover_entries cx ds (i + 1) items files"
      using False by (auto simp: item split: option.splits)
    moreover have "\<dots> = (Ok (map (summary_of (cx_text cx) files) (listed items)), files)"
      using Cons.prems listed by (intro Cons.IH) auto
    ultimately show ?thesis by (simp only: listed)
  qed
qed simp

subsection \<open>The rebuilt ranges\<close>

lemma insort_key_map_comp: "insort_key f (g y) (map g zs) = map g (insort_key (\<lambda>x. f (g x)) y zs)"
  by (induction zs) auto

lemma sort_key_map_comp: "sort_key f (map g xs) = map g (sort_key (\<lambda>x. f (g x)) xs)"
  by (induction xs) (auto simp: insort_key_map_comp)

lemma map_enumerate_const:
  "(\<And>i. i < k + length xs \<Longrightarrow> f i = g) \<Longrightarrow> map (\<lambda>(i, x). f i x) (List.enumerate k xs) = map g xs"
  by (induction xs arbitrary: k) auto

definition sealed_of :: "('j, 'u) text_crates \<Rightarrow> event_files \<Rightarrow> string \<Rightarrow> event_file_range" where
  "sealed_of cr files n =
     \<lparr>rng_name = n, rng_path = n, rng_first = first_of cr files n, rng_last = Some (head_of cr files n),
      rng_sealed = True\<rparr>"

lemma sealed_of_fields [simp]:
  "rng_name (sealed_of cr files n) = n" "rng_path (sealed_of cr files n) = n"
  "rng_first (sealed_of cr files n) = first_of cr files n" "rng_sealed (sealed_of cr files n) = True"
  "rng_last (sealed_of cr files n) = Some (head_of cr files n)"
  by (simp_all add: sealed_of_def)

definition rebuilt_ranges :: "('j, 'u) text_crates \<Rightarrow> event_files \<Rightarrow> string list \<Rightarrow> string \<Rightarrow> event_file_range list" where
  "rebuilt_ranges cr files xs x = map (sealed_of cr files) xs @ [unsealed_range x (first_of cr files x)]"

lemma ranges_of_summaries_eq:
  assumes "sort_key (file_key cr files) ns = xs @ [x]"
  shows "ranges_of_summaries (map (summary_of cr files) ns) = rebuilt_ranges cr files xs x"
proof -
  have sorted: "sort_key (\<lambda>s. (sm_first s, sm_name s)) (map (summary_of cr files) ns) =
      map (summary_of cr files) xs @ [summary_of cr files x]"
    using assms by (simp add: sort_key_map_comp summary_of_def file_key_def[abs_def])
  have "map (\<lambda>(i, s). range_of_summary (length xs) i s) (List.enumerate 0 (map (summary_of cr files) xs)) =
      map (\<lambda>s. range_of_summary (length xs) (Suc (length xs)) s) (map (summary_of cr files) xs)"
    by (rule map_enumerate_const) (auto simp: range_of_summary_def fun_eq_iff)
  then show ?thesis
    by (simp add: ranges_of_summaries_def Let_def sorted enumerate_append_eq rebuilt_ranges_def)
      (simp add: range_of_summary_def summary_of_def sealed_of_def unsealed_range_def)
qed

lemma replace_ranges_Ok:
  assumes "\<And>c. flt c = None" "idle cat" "distinct (map rng_name ranges)"
  shows "replace_event_file_ranges tm flt ranges cat = (Ok (), fresh_db (map range_to_row ranges))"
  using assms insert_ranges_Ok[of flt "[]" ranges tm 0]
  by (simp add: replace_event_file_ranges_def db_begin_def idle_def db_put_def db_commit_def db_view_def fresh_db_def)

lemma cat_ranges_fresh:
  assumes "sorted (map (\<lambda>r. (rng_first r, rng_name r)) ranges)"
  shows "cat_ranges (fresh_db (map range_to_row ranges)) = ranges"
proof -
  have "order_rows (map range_to_row ranges) = map range_to_row ranges"
    unfolding order_rows_def using assms by (intro sort_key_sorted) (simp add: comp_def range_to_row_def)
  then show ?thesis by (simp add: cat_ranges_def db_view_def fresh_db_def comp_def)
qed

lemma cat_ranges_sorted: "sorted (map (\<lambda>r. (rng_first r, rng_name r)) (cat_ranges cat))"
proof -
  have "map (\<lambda>r. (rng_first r, rng_name r)) (cat_ranges cat) = map (\<lambda>r. (col_first r, col_name r)) (order_rows (db_view cat))"
    by (simp add: cat_ranges_def row_to_range_def)
  then show ?thesis by (simp add: order_rows_def)
qed

subsection \<open>The rebuild recovers the log\<close>

text \<open>
  The condition on the files the catalog does not name. Each is a complete empty file: either
  the one a cut-off rotation just made (it starts at the log's end, its name after the active
  one's), or an older leftover (it starts no later than the active file, its name before).
\<close>

definition recoverable :: "('j, 'u, 'date, 'dt) stream_context \<Rightarrow> stream \<Rightarrow> bool" where
  "recoverable cx s \<longleftrightarrow>
     (\<forall>n. map_of (st_files s) n \<noteq> None \<longrightarrow> n \<notin> cat_names (st_catalog s) \<longrightarrow>
        (\<exists>start ord. window_name cx start ord n) \<and>
        (\<exists>h. content (cx_text cx) (st_files s) n = Some ([], h) \<and> 0 \<le> h \<and>
           (h = log_end cx s \<and> act_name (st_active s) < n \<or>
            h + int (length (rows_of (cx_text cx) (st_files s) (act_name (st_active s)))) \<le> log_end cx s \<and>
            n < act_name (st_active s))))"

text \<open>Every event file is complete.\<close>

lemma range_bounds:
  assumes "log_ok cx s" "r \<in> set (cat_ranges (st_catalog s))"
  shows "first_of (cx_text cx) (st_files s) (rng_name r) = rng_first r"
    "head_of (cx_text cx) (st_files s) (rng_name r) \<le> log_end cx s"
proof -
  let ?cr = "cx_text cx" and ?files = "st_files s"
  note sound = log_inv_ranges[OF log_okD(1)[OF assms(1)] assms(2)]
  show f: "first_of ?cr ?files (rng_name r) = rng_first r"
    using sound by (elim range_soundD) (simp add: first_of_def head_of_def)
  show "head_of ?cr ?files (rng_name r) \<le> log_end cx s"
  proof (cases "rows_of ?cr ?files (rng_name r) = []")
    case True
    have "rng_first r + int (length (rows_of ?cr ?files (act_name (st_active s)))) \<le> log_end cx s + 1"
      using log_okD(2)[OF assms(1)] assms(2) by (simp add: active_inv_def)
    with f True show ?thesis by (simp add: first_of_def)
  next
    case False
    then have r: "r \<in> set (filter (live ?cr ?files) (cat_ranges (st_catalog s)))"
      using assms(2) by (simp add: live_def)
    have "chain ?cr ?files 1 (filter (live ?cr ?files) (cat_ranges (st_catalog s)))"
      using log_okD(1)[OF assms(1)] by (simp add: log_inv_def)
    from chain_first_bound[OF this r]
    have "rng_first r + int (length (rows_of ?cr ?files (rng_name r))) \<le> 1 + log_end cx s"
      by (simp only: log_end_def log_rows_live)
    with f show ?thesis by (simp add: first_of_def)
  qed
qed

lemma in_i64_le: "in_i64 (b + 1) \<Longrightarrow> a \<le> b \<Longrightarrow> 0 \<le> a + 1 \<Longrightarrow> in_i64 (a + 1)"
  by (simp add: in_i64_def)

lemma catalogued_complete:
  assumes "log_ok cx s" "in_i64 (log_end cx s + 1)" "n \<in> cat_names (st_catalog s)"
  shows "complete (cx_text cx) (st_files s) n"
proof -
  obtain r where r: "r \<in> set (cat_ranges (st_catalog s))" "rng_name r = n"
    using assms(3) by (auto simp: cat_names_ranges)
  obtain h where h: "content (cx_text cx) (st_files s) n = Some (rows_of (cx_text cx) (st_files s) n, h)"
    "map ev_version (rows_of (cx_text cx) (st_files s) n) = [rng_first r .. h]"
    "map ev_sequence (rows_of (cx_text cx) (st_files s) n) = [1 .. int (length (rows_of (cx_text cx) (st_files s) n))]"
    "1 \<le> rng_first r" "h = rng_first r + int (length (rows_of (cx_text cx) (st_files s) n)) - 1"
    using log_inv_ranges[OF log_okD(1)[OF assms(1)] r(1)] r(2) by (auto elim: range_soundD)
  note F = content_fields[OF h(1)]
  have "in_i64 (h + 1)"
    using range_bounds(2)[OF assms(1) r(1)] r(2) F h(4,5) by (intro in_i64_le[OF assms(2)]) auto
  with F h range_bounds(1)[OF assms(1) r(1)] r(2) show ?thesis by (simp add: complete_def)
qed

lemma all_complete:
  assumes "log_ok cx s" "recoverable cx s" "in_i64 (log_end cx s + 1)" "map_of (st_files s) n \<noteq> None"
  shows "complete (cx_text cx) (st_files s) n"
proof (cases "n \<in> cat_names (st_catalog s)")
  case False
  then obtain h where h: "content (cx_text cx) (st_files s) n = Some ([], h)" "0 \<le> h" "h \<le> log_end cx s"
    using assms(2,4) by (fastforce simp: recoverable_def)
  then have "in_i64 (h + 1)" by (intro in_i64_le[OF assms(3)]) auto
  with content_fields[OF h(1)] h show ?thesis by (simp add: complete_def)
qed (use catalogued_complete assms in blast)

lemma catalogued_exists:
  assumes "log_ok cx s" "n \<in> cat_names (st_catalog s)"
  shows "map_of (st_files s) n \<noteq> None"
proof -
  obtain r where r: "r \<in> set (cat_ranges (st_catalog s))" "rng_name r = n"
    using assms(2) by (auto simp: cat_names_ranges)
  then obtain h where "content (cx_text cx) (st_files s) n = Some (rows_of (cx_text cx) (st_files s) n, h)"
    using log_inv_ranges[OF log_okD(1)[OF assms(1)] r(1)] by (auto elim: range_soundD)
  then show ?thesis by (auto simp: content_def split: option.splits)
qed

lemma active_exists: "log_ok cx s \<Longrightarrow> \<exists>f. map_of (st_files s) (act_name (st_active s)) = Some f"
  using catalogued_exists[of cx s "act_name (st_active s)"] by (simp add: log_ok_def active_inv_def)

lemma uncatalogued_empty:
  assumes "log_ok cx s" "n \<notin> cat_names (st_catalog s)"
  shows "rows_of (cx_text cx) (st_files s) n = []"
proof -
  have "vacant (file_of (st_files s) n)" using log_okD(1)[OF assms(1)] assms(2) by (simp add: log_inv_def)
  then show ?thesis
    by (auto simp: rows_of_def content_def vacant_def file_of_def file_content_Some split: option.splits)
qed

text \<open>The files with events are the same in both orders.\<close>

lemma key_order_unique:
  assumes "sorted (map (file_key cr files) xs)" "sorted (map (file_key cr files) ys)"
    and "distinct xs" "distinct ys" "set xs = set ys"
  shows "xs = ys"
proof -
  have inj: "inj (file_key cr files)" by (rule injI) (simp add: file_key_def)
  have "map (file_key cr files) xs = map (file_key cr files) ys"
    using assms inj by (intro sorted_distinct_set_unique) (auto simp: distinct_map intro: inj_on_subset)
  with inj show ?thesis by (simp add: inj_map_eq_map)
qed

lemma nonempty_files:
  assumes ok: "log_ok cx s" and ns: "distinct ns" "set ns = {n. map_of (st_files s) n \<noteq> None}"
  shows "filter (\<lambda>n. rows_of (cx_text cx) (st_files s) n \<noteq> []) (sort_key (file_key (cx_text cx) (st_files s)) ns) =
    filter (\<lambda>n. rows_of (cx_text cx) (st_files s) n \<noteq> []) (map rng_name (cat_ranges (st_catalog s)))"
proof (rule key_order_unique)
  let ?cr = "cx_text cx" and ?files = "st_files s"
  show "sorted (map (file_key ?cr ?files) (filter (\<lambda>n. rows_of ?cr ?files n \<noteq> []) (sort_key (file_key ?cr ?files) ns)))"
    by (rule sorted_filter_key) simp
  have "map (file_key ?cr ?files) (map rng_name (cat_ranges (st_catalog s))) =
      map (\<lambda>r. (rng_first r, rng_name r)) (cat_ranges (st_catalog s))"
    using range_bounds(1)[OF ok] by (simp add: file_key_def)
  then have "sorted (map (file_key ?cr ?files) (map rng_name (cat_ranges (st_catalog s))))"
    by (simp only: cat_ranges_sorted)
  then show "sorted (map (file_key ?cr ?files) (filter (\<lambda>n. rows_of ?cr ?files n \<noteq> []) (map rng_name (cat_ranges (st_catalog s)))))"
    by (rule sorted_filter_key)
  show "distinct (filter (\<lambda>n. rows_of ?cr ?files n \<noteq> []) (map rng_name (cat_ranges (st_catalog s))))"
    using distinct_cat_ranges[OF log_okD(3,4)[OF ok]] by simp
  show "set (filter (\<lambda>n. rows_of ?cr ?files n \<noteq> []) (sort_key (file_key ?cr ?files) ns)) =
      set (filter (\<lambda>n. rows_of ?cr ?files n \<noteq> []) (map rng_name (cat_ranges (st_catalog s))))"
    using uncatalogued_empty[OF ok] catalogued_exists[OF ok] ns(2) by (auto simp: cat_names_ranges)
qed (use ns in simp)

text \<open>The file that sorts last ends the log, and its name is the greatest.\<close>

lemma last_file:
  assumes ok: "log_ok cx s" and nm: "naming cx s" and rec: "recoverable cx s"
    and ns: "set ns = {n. map_of (st_files s) n \<noteq> None}" "sort_key (file_key (cx_text cx) (st_files s)) ns = xs @ [x]"
  shows "head_of (cx_text cx) (st_files s) x = log_end cx s"
    and "\<forall>n \<in> set ns. n \<le> x \<and> (\<exists>start ord. window_name cx start ord n)"
    and "\<forall>n \<in> set ns. first_of (cx_text cx) (st_files s) n \<le> first_of (cx_text cx) (st_files s) x"
proof -
  let ?cr = "cx_text cx" and ?files = "st_files s" and ?a = "act_name (st_active s)"
  let ?k = "file_key ?cr ?files" and ?C = "cat_names (st_catalog s)"
  have set: "set ns = insert x (set xs)" using arg_cong[OF ns(2), of set] by auto
  have "sorted (map ?k (xs @ [x]))" by (metis ns(2) sorted_sort_key)
  then have last: "?k n \<le> ?k x" if "n \<in> set ns" for n using that set by (auto simp: sorted_append)
  then show firsts: "\<forall>n \<in> set ns. first_of ?cr ?files n \<le> first_of ?cr ?files x" by (force simp: file_key_def)
  obtain rows where a: "content ?cr ?files ?a = Some (rows, log_end cx s)" "?a \<in> ?C"
    using log_okD(2)[OF ok] by (auto simp: active_inv_def)
  note A = content_fields[OF a(1)]
  have a_ns: "?a \<in> set ns" using catalogued_exists[OF ok a(2)] ns(1) by simp
  have cat: "first_of ?cr ?files n \<le> first_of ?cr ?files ?a \<and> n \<le> ?a" if "n \<in> ?C" for n
    using that log_okD(2)[OF ok] range_bounds(1)[OF ok] nm A
    by (fastforce simp: active_inv_def cat_names_ranges naming_def)
  have orphan: "\<exists>h. content ?cr ?files n = Some ([], h) \<and> first_of ?cr ?files n = h + 1 \<and>
      (h = log_end cx s \<and> ?a < n \<or> h + 1 \<le> first_of ?cr ?files ?a \<and> n < ?a)" if "n \<in> set ns" "n \<notin> ?C" for n
    using that rec ns(1) A content_fields[of ?cr ?files n "[]"] by (fastforce simp: recoverable_def)
  have names: "\<exists>start ord. window_name cx start ord n" if "n \<in> set ns" for n
    using that rec nm ns(1) by (cases "n \<in> ?C") (auto simp: recoverable_def naming_def)
  show "head_of ?cr ?files x = log_end cx s"
  proof (cases "x = ?a")
    case False
    have x: "x \<in> set ns" using set by simp
    have "x \<notin> ?C" using False last[OF a_ns] cat[of x] by (auto simp: file_key_def less_eq_prod_def)
    from orphan[OF x this] last[OF a_ns] show ?thesis
      by (auto simp: file_key_def less_eq_prod_def content_fields)
  qed (use A in simp)
  have "n \<le> x" if n: "n \<in> set ns" for n
  proof (cases "x = ?a")
    case True
    show ?thesis
    proof (cases "n \<in> ?C")
      case False
      from orphan[OF n this] last[OF n] A True show ?thesis
        by (auto simp: file_key_def less_eq_prod_def)
    qed (use cat True in blast)
  next
    case False
    have x: "x \<in> set ns" using set by simp
    have "x \<notin> ?C" using False last[OF a_ns] cat[of x] by (auto simp: file_key_def less_eq_prod_def)
    then have lt: "?a < x" "first_of ?cr ?files x = log_end cx s + 1"
      using orphan[OF x] last[OF a_ns] by (auto simp: file_key_def less_eq_prod_def)
    show ?thesis
    proof (cases "n \<in> ?C")
      case True
      with cat lt(1) show ?thesis by (meson order.trans less_imp_le)
    next
      case False
      from orphan[OF n this] last[OF n] lt show ?thesis by (auto simp: file_key_def less_eq_prod_def)
    qed
  qed
  with names show "\<forall>n \<in> set ns. n \<le> x \<and> (\<exists>start ord. window_name cx start ord n)" by blast
qed

definition rebuilt_state ::
  "('j, 'u) text_crates \<Rightarrow> string list \<Rightarrow> string \<Rightarrow> int \<Rightarrow> nat option \<Rightarrow> stream \<Rightarrow> stream" where
  "rebuilt_state cr xs x start ord s =
     s\<lparr>st_catalog := fresh_db (map range_to_row (rebuilt_ranges cr (st_files s) xs x)),
       st_active := \<lparr>act_name = x, act_start_ms = start, act_ordinal = ord\<rparr>\<rparr>"

lemma rebuilt_state_fields [simp]:
  "st_files (rebuilt_state cr xs x start ord s) = st_files s"
  "st_active (rebuilt_state cr xs x start ord s) = \<lparr>act_name = x, act_start_ms = start, act_ordinal = ord\<rparr>"
  by (simp_all add: rebuilt_state_def)

lemma rebuilt_state_catalog:
  "st_catalog (rebuilt_state cr xs x start ord s) = fresh_db (map range_to_row (rebuilt_ranges cr (st_files s) xs x))"
  by (simp add: rebuilt_state_def)

lemma rebuilt_idle: "idle (st_catalog (rebuilt_state cr xs x start ord s))"
  by (simp add: rebuilt_state_catalog)

lemma rebuilt_names: "map rng_name (rebuilt_ranges cr files xs x) = xs @ [x]"
  by (simp add: rebuilt_ranges_def comp_def)

lemma ranges_log_names: "ranges_log cr files rs = concat (map (rows_of cr files) (filter (\<lambda>n. rows_of cr files n \<noteq> []) (map rng_name rs)))"
  by (induction rs) auto

lemma sealed_as_sealed_of:
  assumes "range_sound cr files r" "rng_sealed r"
  shows "r = sealed_of cr files (rng_name r)"
  using assms by (cases r) (elim range_soundD, auto simp: sealed_of_def first_of_def head_of_def)

lemma complete_sound:
  assumes "complete cr files n"
  shows "range_sound cr files (sealed_of cr files n)" "range_sound cr files (unsealed_range n (first_of cr files n))"
  using assms by (simp_all add: complete_def range_sound_def) (simp_all add: first_of_def)

lemma live_sealed_of: "filter (live cr files) (map (sealed_of cr files) ns) = map (sealed_of cr files) (filter (\<lambda>n. rows_of cr files n \<noteq> []) ns)"
  by (induction ns) (auto simp: live_def)

lemma rebuild_step:
  assumes ok: "log_ok cx s" and nm: "naming cx s" and rec: "recoverable cx s" and room: "in_i64 (log_end cx s + 1)"
    and sealed: "\<forall>r \<in> set (cat_ranges (st_catalog s)). rng_sealed r"
    and ns: "distinct ns" "set ns = {n. map_of (st_files s) n \<noteq> None}"
    and srt: "sort_key (file_key (cx_text cx) (st_files s)) ns = xs @ [x]" and win: "window_name cx start ord x"
  shows "stream_inv cx (rebuilt_state (cx_text cx) xs x start ord s)"
    and "unsealed (rebuilt_state (cx_text cx) xs x start ord s)"
    and "log_rows cx (rebuilt_state (cx_text cx) xs x start ord s) = log_rows cx s"
proof -
  let ?s' = "rebuilt_state (cx_text cx) xs x start ord s"
  let ?cr = "cx_text cx" and ?files = "st_files s" and ?R = "cat_ranges (st_catalog s)"
  let ?ne = "\<lambda>n. rows_of ?cr ?files n \<noteq> []"
  note L = last_file[OF ok nm rec ns(2) srt]
  have set: "set ns = insert x (set xs)" using arg_cong[OF srt, of set] by auto
  have dist: "distinct (xs @ [x])" using ns(1) by (metis distinct_sort srt)
  have complete: "complete ?cr ?files n" if "n \<in> set ns" for n
    using all_complete[OF ok rec room] that ns(2) by simp
  have R': "cat_ranges (st_catalog ?s') = rebuilt_ranges ?cr ?files xs x"
  proof -
    have "sorted (map (file_key ?cr ?files) (xs @ [x]))" by (metis srt sorted_sort_key)
    moreover have "map (\<lambda>r. (rng_first r, rng_name r)) (rebuilt_ranges ?cr ?files xs x) = map (file_key ?cr ?files) (xs @ [x])"
      by (simp add: rebuilt_ranges_def file_key_def)
    ultimately show ?thesis by (simp add: rebuilt_state_catalog cat_ranges_fresh)
  qed
  have names': "cat_names (st_catalog ?s') = set ns"
    unfolding cat_names_ranges R' set_map[symmetric] rebuilt_names using set by simp
  have ne: "filter ?ne (xs @ [x]) = filter ?ne (map rng_name ?R)"
    using nonempty_files[OF ok ns] srt by simp
  show log': "log_rows cx ?s' = log_rows cx s"
    unfolding log_rows_def ranges_log_names by (simp only: rebuilt_state_fields(1) R' rebuilt_names ne)
  have total: "int (length (ranges_log ?cr ?files (map (sealed_of ?cr ?files) (filter ?ne (xs @ [x]))))) = log_end cx s"
    by (simp only: ne log_end_def log_rows_def) (simp add: ranges_log_names comp_def)
  have Rs: "map (sealed_of ?cr ?files) (map rng_name ?R) = ?R"
    using sealed log_inv_ranges[OF log_okD(1)[OF ok]]
    by (simp add: map_idI sealed_as_sealed_of[symmetric])
  have "chain ?cr ?files 1 (filter (live ?cr ?files) (map (sealed_of ?cr ?files) (map rng_name ?R)))"
    using log_okD(1)[OF ok] unfolding Rs by (simp add: log_inv_def)
  then have chain: "chain ?cr ?files 1 (map (sealed_of ?cr ?files) (filter ?ne (xs @ [x])))"
    by (simp only: live_sealed_of ne)
  have live': "filter (live ?cr ?files) (cat_ranges (st_catalog ?s')) =
      map (sealed_of ?cr ?files) (filter ?ne xs) @ [unsealed_range x (first_of ?cr ?files x)]"
    unfolding R' rebuilt_ranges_def filter_append live_sealed_of by (simp add: live_def)
  have "first_of ?cr ?files x = 1 + int (length (ranges_log ?cr ?files (map (sealed_of ?cr ?files) (filter ?ne xs))))"
    using total L(1) by (simp add: first_of_def split: if_splits)
  moreover have "chain ?cr ?files 1 (map (sealed_of ?cr ?files) (filter ?ne xs))"
    using chain by (auto simp: chain_append split: if_splits)
  ultimately have chain': "chain ?cr ?files 1 (filter (live ?cr ?files) (cat_ranges (st_catalog ?s')))"
    unfolding live' chain_append by simp
  have sound': "range_sound ?cr ?files r" if "r \<in> set (cat_ranges (st_catalog ?s'))" for r
    using that set unfolding R' rebuilt_ranges_def by (auto intro!: complete_sound complete)
  have xc: "content ?cr ?files x = Some (rows_of ?cr ?files x, log_end cx s)"
    using complete[of x] set L(1) by (simp add: complete_def)
  have end': "log_end cx ?s' = log_end cx s" by (simp add: log_end_def log')
  have "vacant (file_of ?files n)" if "n \<notin> set ns" for n
    using that ns(2) by (simp add: file_of_def)
  moreover have "distinct (map col_name (committed (st_catalog ?s')))"
    using dist rebuilt_names[of ?cr ?files xs x]
    by (simp add: rebuilt_state_catalog comp_def range_to_row_def)
  ultimately have "log_inv cx ?s'"
    using sound' chain' log' log_okD(1)[OF ok] by (simp add: log_inv_def names' log_decodes_def stream_log_def rebuilt_idle)
  moreover have "active_inv cx ?s'"
    unfolding active_inv_def names' end'
  proof (intro conjI)
    show "\<forall>r \<in> set (cat_ranges (st_catalog ?s')). rng_first r +
        int (length (rows_of ?cr (st_files ?s') (act_name (st_active ?s')))) \<le> log_end cx s + 1"
    proof
      fix r assume "r \<in> set (cat_ranges (st_catalog ?s'))"
      then have "rng_first r \<le> first_of ?cr ?files x"
        using L(3) set by (auto simp: R' rebuilt_ranges_def)
      then show "rng_first r + int (length (rows_of ?cr (st_files ?s') (act_name (st_active ?s')))) \<le> log_end cx s + 1"
        using L(1) by (simp add: first_of_def)
    qed
  qed (use set xc live' in \<open>auto simp: R' rebuilt_ranges_def\<close>)
  ultimately show "stream_inv cx ?s'"
    using L(2) win by (simp add: stream_inv_def log_ok_def naming_def names')
  show "unsealed ?s'" by (auto simp: unsealed_def R' rebuilt_ranges_def)
qed

subsection \<open>Opening\<close>

definition open_ok :: "open_env \<Rightarrow> bool" where
  "open_ok oe \<longleftrightarrow>
     op_dir oe = None \<and> op_pool oe = None \<and> (\<forall>c. ca_open (op_catalog oe) c = None) \<and>
     (\<forall>c. ca_migrate (op_catalog oe) c = None) \<and> (\<forall>c. ca_batch (op_catalog oe) c = None) \<and>
     (\<forall>c. op_ranges oe c = None) \<and> discover_ok (rb_discover (op_rebuild oe)) \<and>
     (\<forall>c. rb_replace (op_rebuild oe) c = None) \<and> (\<forall>c. op_active oe c = None) \<and>
     create_ok (nw_file (op_new oe)) \<and> (\<forall>c. nw_range (op_new oe) c = None)"

definition lists_files :: "open_env \<Rightarrow> event_files \<Rightarrow> bool" where
  "lists_files oe files \<longleftrightarrow>
     (\<exists>items. rb_listing (op_rebuild oe) = DirEntries items \<and> list_all item_ok items \<and>
        distinct (listed items) \<and> set (listed items) = {n. map_of files n \<noteq> None})"

definition catalog_migrated :: "('j, 'u, 'date, 'dt) stream_context \<Rightarrow> mig_row list option \<Rightarrow> bool" where
  "catalog_migrated cx migs \<longleftrightarrow>
     migs \<noteq> None \<and>
     applied_map \<lparr>migrations_table = migs, tables = ()\<rparr> ''001_catalog_schema'' = Some (cx_catalog_digest cx CatalogSchema)"

lemma open_migrated:
  assumes "open_ok oe" "catalog_migrated cx migs"
  shows "open_with_pool cx (op_catalog oe) (Some \<lparr>migrations_table = migs, tables = t\<rparr>) =
    (Ok (), Some \<lparr>migrations_table = migs, tables = t\<rparr>)"
proof -
  let ?c = "\<lparr>migrations_table = migs, tables = t\<rparr>"
  have m: "applied_map ?c ''001_catalog_schema'' = Some (cx_catalog_digest cx CatalogSchema)"
    "ensure_migrations_table (ca_migrate (op_catalog oe)) ?c = (Ok (), ?c)"
    using assms by (auto simp: catalog_migrated_def applied_map_def ensure_migrations_table_def open_ok_def)
  obtain rows where "migrations_table ?c = Some rows" using assms(2) by (auto simp: catalog_migrated_def)
  then have l: "load_applied_migrations (cx_msgs cx) (ca_migrate (op_catalog oe)) ?c = Ok (applied_map ?c)"
    using assms(1) by (intro load_applied_Ok) (auto simp: open_ok_def)
  show ?thesis
    using assms(1) m l
    by (simp add: open_with_pool_def Let_def open_ok_def run_migrations_def catalog_migrations_def
        with_migration_def runner_new_def verify_migration_checksum_def)
qed

lemma idle_files:
  assumes "log_ok cx s" "map_of (st_files s) n = Some f"
  shows "idle f"
proof (cases "n \<in> cat_names (st_catalog s)")
  case True
  then obtain r where r: "r \<in> set (cat_ranges (st_catalog s))" "rng_name r = n" by (auto simp: cat_names_ranges)
  then obtain h where "content (cx_text cx) (st_files s) n = Some (rows_of (cx_text cx) (st_files s) n, h)"
    using log_inv_ranges[OF log_okD(1)[OF assms(1)] r(1)] by (auto elim: range_soundD)
  with assms(2) show ?thesis by (auto simp: content_def split: if_splits)
next
  case False
  then have "vacant (file_of (st_files s) n)" using log_okD(1)[OF assms(1)] by (simp add: log_inv_def)
  with assms(2) show ?thesis by (simp add: file_of_def vacant_def)
qed

text \<open>A stopped process has no open transaction to lose: every file is idle under the invariant.\<close>

definition stopped :: "stream \<Rightarrow> stream" where
  "stopped s = s\<lparr>st_files := dk_files (disk_of s)\<rparr>"

lemma stopped_files:
  assumes "log_ok cx s"
  shows "map_of (st_files (stopped s)) = map_of (st_files s)"
proof
  fix n
  have "map_of (st_files (stopped s)) n = map_option (\<lambda>f. f\<lparr>pending := None\<rparr>) (map_of (st_files s) n)"
    by (simp add: stopped_def disk_of_def map_of_map)
  also have "\<dots> = map_of (st_files s) n"
    using idle_files[OF assms] by (cases "map_of (st_files s) n") (auto simp: idle_def)
  finally show "map_of (st_files (stopped s)) n = map_of (st_files s) n" .
qed

lemma content_cong: "map_of files' = map_of files \<Longrightarrow> content cr files' = content cr files"
  by (rule ext) (simp add: content_def)

lemma stopped_fields [simp]:
  "st_catalog (stopped s) = st_catalog s" "st_active (stopped s) = st_active s"
  "st_catalog_migrations (stopped s) = st_catalog_migrations s" "unsealed (stopped s) = unsealed s"
  "naming cx (stopped s) = naming cx s"
  by (simp_all add: stopped_def unsealed_def naming_def)

lemma stopped_inv:
  assumes "log_ok cx s"
  shows "log_ok cx (stopped s)" "log_rows cx (stopped s) = log_rows cx s" "recoverable cx (stopped s) = recoverable cx s"
proof -
  let ?files = "dk_files (disk_of s)"
  have m: "map_of ?files = map_of (st_files s)" using stopped_files[OF assms] by (simp add: stopped_def)
  have "vacant (file_of ?files n)" if "n \<notin> cat_names (st_catalog s)" for n
    using that m log_okD(1)[OF assms] by (simp add: log_inv_def file_of_def)
  with files_step[OF assms, of ?files] m
  show "log_ok cx (stopped s)" and log: "log_rows cx (stopped s) = log_rows cx s" by (auto simp: stopped_def)
  have "content (cx_text cx) (st_files (stopped s)) = content (cx_text cx) (st_files s)"
    using content_cong[OF m] by (simp add: stopped_def)
  with log m show "recoverable cx (stopped s) = recoverable cx s"
    by (simp add: recoverable_def log_end_def rows_of_def stopped_files[OF assms])
qed

lemma one_unsealed:
  assumes "log_ok cx s" "unsealed s"
  obtains r where "filter (\<lambda>r. \<not> rng_sealed r) (cat_ranges (st_catalog s)) = [r]" "rng_name r = act_name (st_active s)"
    "rng_path r = rng_name r"
proof -
  let ?R = "cat_ranges (st_catalog s)"
  obtain r where r: "r \<in> set ?R" "rng_name r = act_name (st_active s)" "\<not> rng_sealed r"
    using assms(2) by (auto simp: unsealed_def)
  have dist: "distinct (map rng_name ?R)" using distinct_cat_ranges[OF log_okD(3,4)[OF assms(1)]] .
  have eq: "q = r" if "q \<in> set ?R" "\<not> rng_sealed q" for q
  proof -
    have "rng_name q = rng_name r" using that log_okD(2)[OF assms(1)] r(2) by (simp add: active_inv_def)
    moreover have "inj_on rng_name (set ?R)" using dist by (simp add: distinct_map)
    ultimately show ?thesis using that(1) r(1) by (simp add: inj_on_eq_iff)
  qed
  have set: "set (filter (\<lambda>r. \<not> rng_sealed r) ?R) = {r}" using r by (auto dest: eq)
  moreover have "distinct (filter (\<lambda>r. \<not> rng_sealed r) ?R)" using dist by (simp add: distinct_map)
  ultimately have "length (filter (\<lambda>r. \<not> rng_sealed r) ?R) = card {r}" by (simp only: distinct_card[symmetric])
  then obtain q where "filter (\<lambda>r. \<not> rng_sealed r) ?R = [q]"
    by (cases "filter (\<lambda>r. \<not> rng_sealed r) ?R") auto
  with set have "filter (\<lambda>r. \<not> rng_sealed r) ?R = [r]" by simp
  moreover have "rng_path r = rng_name r"
    using log_inv_ranges[OF log_okD(1)[OF assms(1)] r(1)] by (simp add: range_sound_def)
  ultimately show thesis using that r(2) by blast
qed

lemma names_parse:
  assumes "context_ok cx" "naming cx s"
  obtains ps where "res_map (\<lambda>r. parse_partition_name (cx_digits cx) (cx_time cx) (rng_name r)) (cat_ranges (st_catalog s)) = Ok ps"
proof -
  have "\<exists>p. parse_partition_name (cx_digits cx) (cx_time cx) (rng_name r) = Ok p" if r: "r \<in> set (cat_ranges (st_catalog s))" for r
  proof -
    have "rng_name r \<in> cat_names (st_catalog s)" using r by (simp add: cat_names_ranges)
    then show ?thesis using assms window_name_parses[OF assms(1)] by (fastforce simp: naming_def)
  qed
  then have "\<exists>ps. res_map (\<lambda>r. parse_partition_name (cx_digits cx) (cx_time cx) (rng_name r)) rs = Ok ps"
    if "set rs \<subseteq> set (cat_ranges (st_catalog s))" for rs
    using that by (induction rs) (auto, force)
  with that show thesis by blast
qed

text \<open>By the catalog: exactly one unsealed file.\<close>

lemma initialize_unsealed:
  assumes "context_ok cx" "stream_inv cx s" "unsealed s" "open_ok oe"
  shows "initialize_active_partition cx oe (st_catalog s, st_files s) = (Ok (st_active s), st_catalog s, st_files s)"
proof -
  have ok: "log_ok cx s" and nm: "naming cx s" using assms(2) by (simp_all add: stream_inv_def)
  obtain r where r: "filter (\<lambda>r. \<not> rng_sealed r) (cat_ranges (st_catalog s)) = [r]" "rng_name r = act_name (st_active s)"
    "rng_path r = rng_name r"
    by (rule one_unsealed[OF ok assms(3)])
  obtain ps where ps: "res_map (\<lambda>r. parse_partition_name (cx_digits cx) (cx_time cx) (rng_name r)) (cat_ranges (st_catalog s)) = Ok ps"
    by (rule names_parse[OF assms(1) nm])
  have "parse_partition_name (cx_digits cx) (cx_time cx) (rng_name r) = Ok (act_start_ms (st_active s), act_ordinal (st_active s))"
    using nm window_name_parses[OF assms(1)] by (simp add: r(2) naming_def)
  moreover obtain f where "map_of (st_files s) (rng_path r) = Some f"
    using active_exists[OF ok] r(2,3) by auto
  ultimately show ?thesis
    using assms(4) r ps
    by (simp add: initialize_active_partition_def get_all_Ok open_ok_def unsealed_count_def open_existing)
qed

text \<open>A rebuild without a fault, whatever the catalog held before.\<close>

lemma rebuild_run:
  assumes cx: "context_ok cx" and ok: "log_ok cx s" and nm: "naming cx s" and rec: "recoverable cx s"
    and room: "in_i64 (log_end cx s + 1)"
    and rb: "discover_ok (rb_discover rb)" "\<And>c. rb_replace rb c = None" "rb_listing rb = DirEntries items"
    and items: "list_all item_ok items" "distinct (listed items)" "set (listed items) = {n. map_of (st_files s) n \<noteq> None}"
    and srt: "sort_key (file_key (cx_text cx) (st_files s)) (listed items) = xs @ [x]" and cat: "idle cat"
  shows "rebuild_event_file_ranges cx rb (cat, st_files s) =
    (Ok (rebuilt_ranges (cx_text cx) (st_files s) xs x),
     fresh_db (map range_to_row (rebuilt_ranges (cx_text cx) (st_files s) xs x)), st_files s)"
proof -
  let ?cr = "cx_text cx" and ?files = "st_files s" and ?ns = "listed items"
  note L = last_file[OF ok nm rec items(3) srt]
  have "?ns \<noteq> []" using srt by (metis append_is_Nil_conv not_Cons_self2 set_empty set_sort)
  have "discover_entries cx (rb_discover rb) 0 items ?files = (Ok (map (summary_of ?cr ?files) ?ns), ?files)"
  proof (rule discover_listed[OF rb(1) items(1)])
    show "\<forall>n \<in> set ?ns. complete ?cr ?files n \<and> is_Ok (parse_partition_name (cx_digits cx) (cx_time cx) n)"
      using all_complete[OF ok rec room] L(2) items(3) window_name_parses[OF cx] by fastforce
  qed
  then have "discover_event_file_summaries cx (rb_discover rb) (rb_listing rb) ?files =
      (Ok (map (summary_of ?cr ?files) ?ns), ?files)"
    by (simp add: discover_event_file_summaries_def rb(3))
  moreover have "replace_event_file_ranges (cx_msgs cx) (rb_replace rb) (rebuilt_ranges ?cr ?files xs x) cat =
      (Ok (), fresh_db (map range_to_row (rebuilt_ranges ?cr ?files xs x)))"
  proof (rule replace_ranges_Ok[OF rb(2) cat])
    show "distinct (map rng_name (rebuilt_ranges ?cr ?files xs x))"
      unfolding rebuilt_names using items(2) by (metis distinct_sort srt)
  qed
  ultimately show ?thesis
    using \<open>?ns \<noteq> []\<close> by (simp add: rebuild_event_file_ranges_def ranges_of_summaries_eq[OF srt] Let_def)
qed

text \<open>By a rebuild: a rotation was cut off after it sealed the active file.\<close>

lemma initialize_rebuild:
  assumes "context_ok cx" "stream_inv cx s" "\<not> unsealed s" "recoverable cx s" "in_i64 (log_end cx s + 1)"
    and "open_ok oe" "lists_files oe (st_files s)"
  shows "\<exists>xs x start ord. initialize_active_partition cx oe (st_catalog s, st_files s) =
      (Ok (st_active (rebuilt_state (cx_text cx) xs x start ord s)),
       st_catalog (rebuilt_state (cx_text cx) xs x start ord s), st_files s) \<and>
    stream_inv cx (rebuilt_state (cx_text cx) xs x start ord s) \<and>
    unsealed (rebuilt_state (cx_text cx) xs x start ord s) \<and>
    log_rows cx (rebuilt_state (cx_text cx) xs x start ord s) = log_rows cx s"
proof -
  let ?cr = "cx_text cx" and ?files = "st_files s"
  have ok: "log_ok cx s" and nm: "naming cx s" using assms(2) by (simp_all add: stream_inv_def)
  obtain items where items: "rb_listing (op_rebuild oe) = DirEntries items" "list_all item_ok items"
    "distinct (listed items)" "set (listed items) = {n. map_of ?files n \<noteq> None}"
    using assms(7) by (auto simp: lists_files_def)
  let ?ns = "listed items"
  have "?ns \<noteq> []" using active_exists[OF ok] items(4) by auto
  then have "sort_key (file_key ?cr ?files) ?ns \<noteq> []" by (metis set_empty set_sort)
  then obtain xs x where srt: "sort_key (file_key ?cr ?files) ?ns = xs @ [x]" by (metis rev_exhaust)
  note L = last_file[OF ok nm assms(4) items(4) srt]
  have x: "x \<in> set ?ns" using arg_cong[OF srt, of set] by simp
  then obtain start ord where win: "window_name cx start ord x" using L(2) by blast
  let ?s' = "rebuilt_state ?cr xs x start ord s"
  have sealed: "\<forall>r \<in> set (cat_ranges (st_catalog s)). rng_sealed r"
    using assms(3) log_okD(2)[OF ok] by (auto simp: unsealed_def active_inv_def)
  note S = rebuild_step[OF ok nm assms(4,5) sealed items(3,4) srt win]
  have reb: "rebuild_event_file_ranges cx (op_rebuild oe) (st_catalog s, ?files) =
      (Ok (rebuilt_ranges ?cr ?files xs x), st_catalog ?s', ?files)"
    unfolding rebuilt_state_catalog
    by (rule rebuild_run[OF assms(1) ok nm assms(4,5) _ _ items srt log_okD(3)[OF ok]])
      (use assms(6) in \<open>auto simp: open_ok_def\<close>)
  obtain ps where ps: "res_map (\<lambda>r. parse_partition_name (cx_digits cx) (cx_time cx) (rng_name r)) (cat_ranges (st_catalog s)) = Ok ps"
    by (rule names_parse[OF assms(1) nm])
  have count: "unsealed_count (cat_ranges (st_catalog s)) = 0" using sealed by (simp add: unsealed_count_def)
  have "filter (\<lambda>r. \<not> rng_sealed r) (rebuilt_ranges ?cr ?files xs x) = [unsealed_range x (first_of ?cr ?files x)]"
    by (simp add: rebuilt_ranges_def)
  moreover obtain f where "map_of ?files x = Some f" using x items(4) by auto
  ultimately have "initialize_active_partition cx oe (st_catalog s, ?files) = (Ok (st_active ?s'), st_catalog ?s', ?files)"
    using assms(6) ps reb count window_name_parses[OF assms(1) win]
    by (simp add: initialize_active_partition_def get_all_Ok open_ok_def open_existing)
  with S show ?thesis by blast
qed

lemma open_stopped:
  assumes cx: "context_ok cx" and inv: "stream_inv cx s" and mig: "catalog_migrated cx (st_catalog_migrations s)"
    and room: "in_i64 (log_end cx s + 1)" and oe: "open_ok oe"
    and alt: "unsealed s \<or> recoverable cx s \<and> lists_files oe (st_files s)"
  shows "\<exists>s' d. open_partitioned cx oe (disk_of s) = (Ok s', d) \<and> stream_inv cx s' \<and> unsealed s' \<and>
    log_rows cx s' = log_rows cx s \<and> st_catalog_migrations s' = st_catalog_migrations s \<and>
    map_of (st_files s') = map_of (st_files s)"
proof -
  have ok: "log_ok cx s" and nm: "naming cx s" using inv by (simp_all add: stream_inv_def)
  note stop = stopped_inv[OF ok] stopped_files[OF ok]
  have inv0: "stream_inv cx (stopped s)" using stop(1) nm by (simp add: stream_inv_def)
  have room0: "in_i64 (log_end cx (stopped s) + 1)" using room stop(2) by (simp add: log_end_def)
  have cat: "fresh_db (committed (st_catalog s)) = st_catalog s"
    using log_okD(3)[OF ok] by (cases "st_catalog s") (simp add: fresh_db_def idle_def)
  have files: "dk_files (disk_of s) = st_files (stopped s)" by (simp add: stopped_def)
  have disk_catalog: "dk_catalog (disk_of s) =
      Some \<lparr>migrations_table = st_catalog_migrations s, tables = Some (committed (st_catalog s))\<rparr>"
    by (simp add: disk_of_def)
  have op: "open_partitioned cx oe (disk_of s) =
      (case initialize_active_partition cx oe (st_catalog (stopped s), st_files (stopped s)) of
         (r, c, files) \<Rightarrow>
           (rbind r (\<lambda>active. Ok \<lparr>st_catalog = c, st_catalog_migrations = st_catalog_migrations s, st_files = files,
              st_active = active\<rparr>),
            \<lparr>dk_catalog = Some \<lparr>migrations_table = st_catalog_migrations s, tables = Some (committed c)\<rparr>, dk_files = files\<rparr>))"
    using oe open_migrated[OF oe mig, of "Some (committed (st_catalog s))"]
    by (cases "initialize_active_partition cx oe (st_catalog s, st_files (stopped s))")
      (simp add: open_partitioned_def open_ok_def files cat disk_catalog)
  show ?thesis
  proof (cases "unsealed s")
    case True
    then have "unsealed (stopped s)" by simp
    from initialize_unsealed[OF cx inv0 this oe]
    have "fst (open_partitioned cx oe (disk_of s)) = Ok (stopped s)"
      unfolding op by (simp add: stopped_def)
    with stop inv0 \<open>unsealed (stopped s)\<close> show ?thesis by (metis prod.collapse stopped_fields(3))
  next
    case False
    then have "recoverable cx (stopped s)" "lists_files oe (st_files (stopped s))"
      using alt stop by (auto simp: lists_files_def)
    with False obtain xs x start ord where
      init: "initialize_active_partition cx oe (st_catalog (stopped s), st_files (stopped s)) =
        (Ok (st_active (rebuilt_state (cx_text cx) xs x start ord (stopped s))),
         st_catalog (rebuilt_state (cx_text cx) xs x start ord (stopped s)), st_files (stopped s))"
      and new: "stream_inv cx (rebuilt_state (cx_text cx) xs x start ord (stopped s))"
        "unsealed (rebuilt_state (cx_text cx) xs x start ord (stopped s))"
        "log_rows cx (rebuilt_state (cx_text cx) xs x start ord (stopped s)) = log_rows cx (stopped s)"
      using initialize_rebuild[OF cx inv0 _ _ room0 oe] by auto
    have eta: "\<lparr>st_catalog = st_catalog t, st_catalog_migrations = st_catalog_migrations t, st_files = st_files t,
        st_active = st_active t\<rparr> = t" for t :: stream by simp
    have mf: "st_catalog_migrations (rebuilt_state (cx_text cx) xs x start ord (stopped s)) = st_catalog_migrations s"
      by (simp add: rebuilt_state_def)
    have "fst (open_partitioned cx oe (disk_of s)) = Ok (rebuilt_state (cx_text cx) xs x start ord (stopped s))"
      unfolding op init by (simp add: rebuilt_state_def stopped_def)
    then show ?thesis
      using new stop mf by (metis prod.collapse rebuilt_state_fields(1))
  qed
qed

subsection \<open>A new store\<close>

definition lists_nothing :: "open_env \<Rightarrow> bool" where
  "lists_nothing oe \<longleftrightarrow>
     (case rb_listing (op_rebuild oe) of DirNotFound \<Rightarrow> True | DirErr e \<Rightarrow> False
      | DirEntries items \<Rightarrow> list_all item_ok items \<and> listed items = [])"

definition new_stream :: "string \<Rightarrow> int \<Rightarrow> event_file \<Rightarrow> mig_row list option \<Rightarrow> stream" where
  "new_stream n start f migs =
     \<lparr>st_catalog = fresh_db [range_to_row (unsealed_range n 1)], st_catalog_migrations = migs,
      st_files = [(n, f)], st_active = \<lparr>act_name = n, act_start_ms = start, act_ordinal = None\<rparr>\<rparr>"

lemma new_stream_ranges: "cat_ranges (st_catalog (new_stream n start f migs)) = [unsealed_range n 1]"
  using cat_ranges_fresh[of "[unsealed_range n 1]"] by (simp add: new_stream_def)

lemma new_stream_inv:
  assumes "idle f" "file_content (cx_text cx) (tables (committed f)) = Some ([], 0)" "window_name cx start None n"
  shows "stream_inv cx (new_stream n start f migs)" "unsealed (new_stream n start f migs)"
    "log_rows cx (new_stream n start f migs) = []" "recoverable cx (new_stream n start f migs)"
proof -
  let ?s = "new_stream n start f migs"
  have c: "content (cx_text cx) (st_files ?s) n = Some ([], 0)"
    using assms(1,2) by (simp add: content_def new_stream_def)
  then have rows: "rows_of (cx_text cx) (st_files ?s) n = []" by (simp add: rows_of_def)
  show log: "log_rows cx ?s = []" by (simp add: log_rows_def new_stream_ranges rows)
  have fields: "act_name (st_active ?s) = n" "act_start_ms (st_active ?s) = start" "act_ordinal (st_active ?s) = None"
    "cat_names (st_catalog ?s) = {n}" "idle (st_catalog ?s)" "distinct (map col_name (committed (st_catalog ?s)))"
    unfolding cat_names_ranges new_stream_ranges by (simp_all add: new_stream_def)
  have "vacant (file_of (st_files ?s) m)" if "m \<noteq> n" for m
    using that by (simp add: new_stream_def file_of_def)
  then have "log_inv cx ?s"
    using c log by (simp add: log_inv_def fields new_stream_ranges range_sound_def rows live_def log_decodes_def stream_log_def)
  moreover have "active_inv cx ?s"
    using c log by (simp add: active_inv_def fields new_stream_ranges rows live_def log_end_def)
  moreover have "naming cx ?s" using assms(3) by (auto simp: naming_def fields)
  ultimately show "stream_inv cx ?s" by (simp add: stream_inv_def log_ok_def)
  show "unsealed ?s" by (simp add: unsealed_def new_stream_ranges fields)
  show "recoverable cx ?s" by (simp add: recoverable_def fields) (simp add: new_stream_def)
qed

lemma open_catalog_new:
  assumes "open_ok oe"
  shows "\<exists>migs. open_with_pool cx (op_catalog oe) None = (Ok (), Some \<lparr>migrations_table = migs, tables = Some []\<rparr>) \<and>
    catalog_migrated cx migs"
  using assms
  by (simp add: open_with_pool_def Let_def open_ok_def run_migrations_def catalog_migrations_def with_migration_def
      runner_new_def blank_catalog_def ensure_migrations_table_def load_applied_migrations_def apply_migration_def
      catalog_batch_def catalog_migrated_def applied_map_def)

lemma initialize_new:
  assumes oe: "open_ok oe" "lists_nothing oe"
    and fl: "floor_to_window_ms (clock_ms (nw_nanos (op_new oe))) (cx_window cx) = Ok start"
    and gen: "generate_partition_name (cx_time cx) start (cx_window cx) None = Ok n"
  shows "\<exists>f. initialize_active_partition cx oe (fresh_db [], []) =
      (Ok \<lparr>act_name = n, act_start_ms = start, act_ordinal = None\<rparr>, fresh_db [range_to_row (unsealed_range n 1)], [(n, f)]) \<and>
    idle f \<and> file_content (cx_text cx) (tables (committed f)) = Some ([], 0)"
proof -
  have "discover_event_file_summaries cx (rb_discover (op_rebuild oe)) (rb_listing (op_rebuild oe)) [] = (Ok [], [])"
  proof (cases "rb_listing (op_rebuild oe)")
    case (DirEntries items)
    with oe have i: "list_all item_ok items" "listed items = []" by (simp_all add: lists_nothing_def)
    then have "discover_entries cx (rb_discover (op_rebuild oe)) 0 items [] =
        (Ok (map (summary_of (cx_text cx) []) (listed items)), [])"
      using oe by (intro discover_listed) (auto simp: open_ok_def)
    with DirEntries i show ?thesis by (simp add: discover_event_file_summaries_def)
  qed (use oe in \<open>simp_all add: discover_event_file_summaries_def lists_nothing_def\<close>)
  moreover have "replace_event_file_ranges (cx_msgs cx) (rb_replace (op_rebuild oe)) [] (fresh_db []) = (Ok (), fresh_db [])"
    using oe replace_ranges_Ok[of "rb_replace (op_rebuild oe)" "fresh_db []" "[]" "cx_msgs cx"] by (simp add: open_ok_def)
  ultimately have reb: "rebuild_event_file_ranges cx (op_rebuild oe) (fresh_db [], []) = (Ok [], fresh_db [], [])"
    by (simp add: rebuild_event_file_ranges_def)
  have ce: "create_ok (nw_file (op_new oe))" using oe by (simp add: open_ok_def)
  obtain f where f: "setup_file (cx_msgs cx) (cx_file_digest cx) (nw_file (op_new oe)) 0 None blank_file = (Ok (), f)"
    using setup_file_succeeds[OF ce] by blast
  note S = setup_file_vacant[OF f vacant_blank, of "cx_text cx"]
  have cr: "create_partition_db cx (nw_file (op_new oe)) n 0 None [] = (Ok (), [(n, f)])"
    using ce f by (simp add: create_partition_db_def open_partition_db_def create_ok_def Let_def file_of_def)
  have "cat_ranges (fresh_db []) = []" by (simp add: cat_ranges_def order_rows_def db_view_def fresh_db_def)
  then have "create_event_file_range (nw_range (op_new oe)) (unsealed_range n 1) (fresh_db []) =
      (Ok (), fresh_db [range_to_row (unsealed_range n 1)])"
    using oe by (simp add: create_event_file_range_def open_ok_def upsert_by_def fresh_db_def idle_def db_put_def db_view_def)
  moreover have "get_all_event_file_ranges (cx_msgs cx) (op_ranges oe) (fresh_db []) = Ok []"
    using oe \<open>cat_ranges (fresh_db []) = []\<close> by (simp add: get_all_Ok open_ok_def)
  ultimately have "initialize_active_partition cx oe (fresh_db [], []) =
      (Ok \<lparr>act_name = n, act_start_ms = start, act_ordinal = None\<rparr>, fresh_db [range_to_row (unsealed_range n 1)], [(n, f)])"
    by (simp add: initialize_active_partition_def unsealed_count_def reb create_new_active_partition_def fl gen cr in_i64_def)
  with S show ?thesis by auto
qed

lemma open_new:
  assumes cx: "context_ok cx" and oe: "open_ok oe" "lists_nothing oe"
    and now: "0 \<le> clock_ms (nw_nanos (op_new oe))"
    and fl: "floor_to_window_ms (clock_ms (nw_nanos (op_new oe))) (cx_window cx) = Ok start"
    and gen: "generate_partition_name (cx_time cx) start (cx_window cx) None = Ok n"
  shows "\<exists>s d. open_partitioned cx oe \<lparr>dk_catalog = None, dk_files = []\<rparr> = (Ok s, d) \<and> stream_inv cx s \<and> unsealed s \<and>
    log_rows cx s = [] \<and> recoverable cx s \<and> catalog_migrated cx (st_catalog_migrations s) \<and>
    st_active s = \<lparr>act_name = n, act_start_ms = start, act_ordinal = None\<rparr> \<and> fst ` set (st_files s) = {n}"
proof -
  obtain migs where m: "open_with_pool cx (op_catalog oe) None = (Ok (), Some \<lparr>migrations_table = migs, tables = Some []\<rparr>)"
    "catalog_migrated cx migs"
    using open_catalog_new[OF oe(1)] by blast
  obtain f where f: "initialize_active_partition cx oe (fresh_db [], []) =
      (Ok \<lparr>act_name = n, act_start_ms = start, act_ordinal = None\<rparr>, fresh_db [range_to_row (unsealed_range n 1)], [(n, f)])"
    "idle f" "file_content (cx_text cx) (tables (committed f)) = Some ([], 0)"
    using initialize_new[OF oe fl gen] by blast
  have w: "window_ok (cx_window cx)" using cx by (simp add: context_ok_def window_exact_def)
  have "window_name cx start None n"
    using floor_to_window_Ok_bounds[OF now in_i64_clock w fl] gen by (simp add: window_name_def)
  note N = new_stream_inv[OF f(2,3) this, of migs]
  have "fst (open_partitioned cx oe \<lparr>dk_catalog = None, dk_files = []\<rparr>) = Ok (new_stream n start f migs)"
    using oe m f(1) by (simp add: open_partitioned_def open_ok_def new_stream_def)
  moreover have "st_catalog_migrations (new_stream n start f migs) = migs"
    "st_active (new_stream n start f migs) = \<lparr>act_name = n, act_start_ms = start, act_ordinal = None\<rparr>"
    "fst ` set (st_files (new_stream n start f migs)) = {n}"
    by (simp_all add: new_stream_def)
  ultimately show ?thesis using N m(2) by (metis prod.collapse)
qed

end
