(* ===== verification/StreamProperties.thy ===== *)
theory StreamProperties
  imports StreamOpenLaws
begin

section \<open>The properties of the event stream\<close>

text \<open>
  The correctness of \<open>EventStream\<close> as a caller sees it: appends extend the log or leave it,
  reads return the log, rotation, reopening and recovery keep it. The witnesses run the model on
  a store opened in an empty directory, with an hourly window.
\<close>

subsection \<open>A sample store\<close>

definition sample_context :: "(string, string, int, int) stream_context" where
  "sample_context =
     \<lparr>cx_msgs = quiet_msgs, cx_text = sample_crates, cx_time = gregorian, cx_digits = sample_digits,
      cx_file_digest = (\<lambda>_. ''digest-1''), cx_catalog_digest = (\<lambda>_. ''digest-2''), cx_path_debug = (\<lambda>n. n),
      cx_rotation = TimeWindow (from_secs 3600) (Some (1024 * 1024))\<rparr>"

definition sample_open :: open_env where
  "sample_open =
     \<lparr>op_dir = None, op_pool = None,
      op_catalog = \<lparr>ca_open = (\<lambda>_. None), ca_migrate = (\<lambda>_. None), ca_batch = (\<lambda>_. None), ca_now = 1727884801234\<rparr>,
      op_ranges = (\<lambda>_. None),
      op_rebuild = \<lparr>rb_listing = DirEntries [Entry (Ok True) (Some ''catalog.db'')],
                    rb_discover = (\<lambda>_. \<lparr>ds_open = (\<lambda>_. None), ds_file = (\<lambda>_. None)\<rparr>), rb_replace = (\<lambda>_. None)\<rparr>,
      op_active = (\<lambda>_. None),
      op_new = \<lparr>nw_nanos = 1727884801234000000, nw_file = quiet_create, nw_range = (\<lambda>_. None)\<rparr>\<rparr>"

definition sample_stream :: stream where
  "sample_stream =
     (case open_partitioned sample_context sample_open \<lparr>dk_catalog = None, dk_files = []\<rparr> of
        (Ok s, d) \<Rightarrow> s
      | _ \<Rightarrow> \<lparr>st_catalog = fresh_db [], st_catalog_migrations = None, st_files = [],
              st_active = \<lparr>act_name = [], act_start_ms = 0, act_ordinal = None\<rparr>\<rparr>)"

text \<open>The sample stream as a value, so that the witnesses need not open it again.\<close>

lemma sample_stream_value [code]:
  "sample_stream =
     \<lparr>st_catalog =
        \<lparr>committed =
           [\<lparr>col_name = ''events_20241002T16.db'', col_path = ''events_20241002T16.db'', col_first = 1, col_last = None,
             col_sealed = 0\<rparr>],
         pending = None\<rparr>,
      st_catalog_migrations =
        Some [\<lparr>mr_name = ''001_catalog_schema'', mr_checksum = ''digest-2'', mr_applied_at = 1727884801234\<rparr>],
      st_files =
        [(''events_20241002T16.db'',
          \<lparr>committed =
             \<lparr>migrations_table =
                Some [\<lparr>mr_name = ''001_event_file_schema'', mr_checksum = ''digest-1'', mr_applied_at = 1727884801234\<rparr>],
              tables =
                \<lparr>events_table = Some [], head_table = Some (Some \<lparr>hd_version = 0, hd_last_event_id = None\<rparr>)\<rparr>\<rparr>,
           pending = None\<rparr>)],
      st_active = \<lparr>act_name = ''events_20241002T16.db'', act_start_ms = 1727884800000, act_ordinal = None\<rparr>\<rparr>"
  by code_simp

lemma sample_context_ok: "context_ok sample_context"
  by (simp add: context_ok_def sample_context_def uuid_law_def sample_crates_def gregorian_laws sample_digit_law
      window_exact_hour)

lemma sample_open_ok: "open_ok sample_open" "lists_nothing sample_open"
  by (simp_all add: open_ok_def sample_open_def discover_ok_def create_ok_def quiet_create_def lists_nothing_def)

lemma sample_open_new:
  "\<exists>s d. open_partitioned sample_context sample_open \<lparr>dk_catalog = None, dk_files = []\<rparr> = (Ok s, d) \<and>
     stream_inv sample_context s \<and> unsealed s \<and> log_rows sample_context s = [] \<and> recoverable sample_context s \<and>
     catalog_migrated sample_context (st_catalog_migrations s) \<and>
     st_active s = \<lparr>act_name = ''events_20241002T16.db'', act_start_ms = 1727884800000, act_ordinal = None\<rparr> \<and>
     fst ` set (st_files s) = {''events_20241002T16.db''}"
proof (rule open_new[OF sample_context_ok sample_open_ok])
  show "0 \<le> clock_ms (nw_nanos (op_new sample_open))" by code_simp
  show "floor_to_window_ms (clock_ms (nw_nanos (op_new sample_open))) (cx_window sample_context) = Ok 1727884800000"
    by code_simp
  show "generate_partition_name (cx_time sample_context) 1727884800000 (cx_window sample_context) None =
    Ok ''events_20241002T16.db''" by code_simp
qed

lemma sample_stream_facts:
  "stream_inv sample_context sample_stream" "unsealed sample_stream" "log_rows sample_context sample_stream = []"
  "recoverable sample_context sample_stream" "catalog_migrated sample_context (st_catalog_migrations sample_stream)"
  "act_start_ms (st_active sample_stream) = 1727884800000"
  "act_name (st_active sample_stream) = ''events_20241002T16.db''"
proof -
  obtain s d where s: "open_partitioned sample_context sample_open \<lparr>dk_catalog = None, dk_files = []\<rparr> = (Ok s, d)"
    "stream_inv sample_context s" "unsealed s" "log_rows sample_context s = []" "recoverable sample_context s"
    "catalog_migrated sample_context (st_catalog_migrations s)"
    "st_active s = \<lparr>act_name = ''events_20241002T16.db'', act_start_ms = 1727884800000, act_ordinal = None\<rparr>"
    using sample_open_new by (elim exE conjE) (rule that)
  then have "sample_stream = s" by (simp add: sample_stream_def)
  with s show "stream_inv sample_context sample_stream" "unsealed sample_stream" "log_rows sample_context sample_stream = []"
    "recoverable sample_context sample_stream" "catalog_migrated sample_context (st_catalog_migrations sample_stream)"
    "act_start_ms (st_active sample_stream) = 1727884800000"
    "act_name (st_active sample_stream) = ''events_20241002T16.db''"
    by simp_all
qed

definition quiet_rotation :: rotation_env where
  "quiet_rotation =
     \<lparr>re_conn = None, re_head = (\<lambda>_. None), re_seal = (\<lambda>_. None), re_file = quiet_create, re_range = (\<lambda>_. None)\<rparr>"

definition sample_probe :: "int \<Rightarrow> probe_env" where
  "sample_probe secs =
     \<lparr>pr_size = Some 4096, pr_secs = secs, pr_nanos = secs * 1000000000, pr_rotation = quiet_rotation\<rparr>"

definition sample_append :: "int \<Rightarrow> file_call faults \<Rightarrow> string append_env" where
  "sample_append secs flt =
     \<lparr>ae_probe = sample_probe secs, ae_nanos = secs * 1000000000 + 234000000, ae_rotations = (\<lambda>_. quiet_rotation),
      ae_conn = None, ae_tx = flt,
      ae_ids = \<lparr>new_id = (\<lambda>i. ''id-'' @ fmt_nat i), trace_id = None, span_id = None\<rparr>\<rparr>"

definition sample_event :: "string \<Rightarrow> (string, string) new_event" where
  "sample_event ty =
     \<lparr>ne_type = ty, ne_payload = ''{}'', ne_workflow_kind = Some ''signup'', ne_workflow = StartsThisWorkflow,
      ne_request_id = None, ne_actor_id = ''user_1'', ne_actor_type = User\<rparr>"

definition sample_events :: "(string, string) new_event list" where
  "sample_events = [sample_event ''UserCreated'', sample_event ''UserNamed'']"

lemma sample_runs:
  "is_Ok (fst (append_events sample_context (sample_append 1727884801 (\<lambda>_. None)) NoStream sample_events sample_stream))"
  by code_simp

lemma sample_clock: "clock_forward (sample_append 1727884801 flt) sample_stream"
  unfolding clock_forward_def sample_stream_facts by code_simp

lemma sample_log: "stream_log sample_context sample_stream = Ok []"
  by (simp add: stream_log_def sample_stream_facts)

lemma sample_room: "in_i64 (log_end sample_context sample_stream + 1)"
  by (simp add: log_end_def sample_stream_facts in_i64_def)

lemma sample_payloads: "payloads_readable (cx_text sample_context) sample_events"
  by code_simp

subsection \<open>Appending\<close>

text \<open>An event of the log carries what the caller gave.\<close>

definition carries :: "('j, 'u) new_event \<Rightarrow> ('j, 'u, 'dt) envelope \<Rightarrow> bool" where
  "carries ne e \<longleftrightarrow>
     env_type e = ne_type ne \<and> env_payload e = ne_payload ne \<and> env_workflow_kind e = ne_workflow_kind ne \<and>
     env_request_id e = ne_request_id ne \<and> env_actor_id e = ne_actor_id ne \<and> env_actor_type e = ne_actor_type ne \<and>
     env_workflow_started_by e =
       (case ne_workflow ne of WorkflowNone \<Rightarrow> None | StartsThisWorkflow \<Rightarrow> Some (env_id e) | Continues w \<Rightarrow> Some w)"

lemma envelopes_carry: "list_all2 carries events (envelopes_from ids bt cur sq i events)"
  by (induction events arbitrary: i) (auto simp: carries_def envelope_of_def split: workflow_ref.splits)

lemma log_length: "stream_log cx s = Ok es \<Longrightarrow> log_end cx s = int (length es)"
  by (simp add: stream_log_def log_end_def res_map_length)

lemma append_extends:
  assumes "context_ok cx" "stream_inv cx s" "unsealed s \<or> rotation_due cx (ae_probe env) s"
    and "stream_log cx s = Ok es" "in_i64 (log_end cx s + 1)" "clock_forward env s"
    and "payloads_readable (cx_text cx) events" "events \<noteq> []"
    and "append_events cx env ex events s = (Ok res, s')"
  shows "stream_inv cx s' \<and> unsealed s' \<and> stream_log cx s' = Ok (es @ res_events res) \<and>
    list_all2 carries events (res_events res) \<and>
    map (version_get \<circ> env_version) (res_events res) =
      [int (length es) + 1 .. int (length es) + int (length events)] \<and>
    res_first_version res = EventStreamVersion (int (length es) + 1) \<and>
    res_last_version res = EventStreamVersion (int (length es) + int (length events)) \<and>
    validate_expected_version_against ex (int (length es)) = Ok (int (length es))"
  using assms(1,2,3,5,6,9)
proof (cases rule: append_events_cases)
  case (Tx s2 base_time)
  have log2: "stream_log cx s2 = Ok es" using Tx(3) assms(4) by (simp add: stream_log_def)
  have room: "in_i64 (log_end cx s2)" using assms(5) Tx(3) by (simp add: log_end_def in_i64_def)
  note C = append_active_commits[OF assms(1) Tx(1,2) log2 room in_i64_clock Tx(6) assms(7) Tx(7)]
  then obtain sq where ev: "res_events res = envelopes_from (ae_ids env) base_time (log_end cx s2) sq 0 events" by blast
  have "map (version_get \<circ> env_version) (res_events res) = [log_end cx s2 + 1 .. log_end cx s2 + int (length events)]"
    using versions_envelopes_from[of "ae_ids env" base_time "log_end cx s2" sq 0 events] by (simp add: ev)
  with C ev envelopes_carry[of events] show ?thesis by (simp add: log_length[OF log2])
qed (use assms(8) in auto)

text \<open>
  C3: a successful append extends the log by exactly its events. Under the stream invariant, with
  a clock that does not run behind the active window, the new log is the old one followed by
  the returned events; they carry the given data, their versions continue the log without a gap,
  the expected version held, and the invariant holds again with an unsealed active file. This
  covers every rotation the append may make on the way and a rotation that had failed before.
\<close>

theorem append_extends_log:
  assumes "context_ok cx" "stream_inv cx s" "unsealed s \<or> rotation_due cx (ae_probe env) s"
    and "stream_log cx s = Ok es" "in_i64 (log_end cx s + 1)" "clock_forward env s"
    and "payloads_readable (cx_text cx) events" "events \<noteq> []"
    and "append_events cx env ex events s = (Ok res, s')"
  shows "stream_inv cx s' \<and> unsealed s' \<and> stream_log cx s' = Ok (es @ res_events res) \<and>
    list_all2 carries events (res_events res) \<and>
    map (version_get \<circ> env_version) (res_events res) =
      [int (length es) + 1 .. int (length es) + int (length events)] \<and>
    res_first_version res = EventStreamVersion (int (length es) + 1) \<and>
    res_last_version res = EventStreamVersion (int (length es) + int (length events)) \<and>
    validate_expected_version_against ex (int (length es)) = Ok (int (length es))"
  by (rule append_extends[OF assms])

theorem append_extends_log_witness:
  "\<exists>res s'. append_events sample_context (sample_append 1727884801 (\<lambda>_. None)) NoStream sample_events sample_stream = (Ok res, s') \<and>
     stream_inv sample_context s' \<and> unsealed s' \<and> stream_log sample_context s' = Ok (res_events res) \<and>
     map (version_get \<circ> env_version) (res_events res) = [1 .. 2]"
proof -
  obtain res s' where run: "append_events sample_context (sample_append 1727884801 (\<lambda>_. None)) NoStream sample_events sample_stream = (Ok res, s')"
    using sample_runs by (metis is_Ok.elims(2) prod.collapse)
  have "unsealed sample_stream \<or> rotation_due sample_context (ae_probe (sample_append 1727884801 (\<lambda>_. None))) sample_stream"
    by (simp add: sample_stream_facts)
  from append_extends_log[OF sample_context_ok sample_stream_facts(1) this sample_log sample_room sample_clock sample_payloads _ run] run
  show ?thesis by (simp add: sample_events_def)
qed

lemma append_error:
  assumes "context_ok cx" "stream_inv cx s" "unsealed s \<or> rotation_due cx (ae_probe env) s"
    and "in_i64 (log_end cx s + 1)" "clock_forward env s" "ae_tx env TxRollback = None"
    and "append_events cx env ex events s = (Err e, s')"
  shows "stream_inv cx s' \<and> log_rows cx s' = log_rows cx s \<and> stream_log cx s' = stream_log cx s"
  using assms(1-5,7)
proof (cases rule: append_events_cases)
  case (Tx s2 base_time)
  have "log_ok cx s2" using Tx(1) by (simp add: stream_inv_def)
  from append_active_fails[OF this assms(6) Tx(4,7)] have "s' = s2" .
  with Tx show ?thesis by (simp add: stream_log_def)
qed (auto simp: stream_log_def)

text \<open>What an append that does not return leaves on disk.\<close>

lemma update_stopped:
  assumes "map_of al k = Some f" "g f' = g f"
  shows "map (\<lambda>(n, f). (n, g f)) (AList.update k f' al) = map (\<lambda>(n, f). (n, g f)) al"
  using assms by (induction al) (auto split: if_splits)

lemma append_active_disk:
  assumes "log_ok cx s" "append_active cx env bt ex events s = (r, s')" "\<not> is_Ok r"
  shows "disk_of s' = disk_of s \<and> st_catalog_migrations s' = st_catalog_migrations s"
proof -
  obtain rows where c: "content (cx_text cx) (st_files s) (act_name (st_active s)) = Some (rows, log_end cx s)"
    by (rule active_content[OF assms(1)])
  from assms(2)[unfolded append_active_def] show ?thesis
  proof (cases rule: sbind_cases)
    case (Ok f s0)
    then have f: "map_of (st_files s) (act_name (st_active s)) = Some f" "idle f" "s0 = s"
      using c by (auto simp: get_connection_def content_def split: option.splits if_splits)
    obtain q f' where tx: "append_tx (cx_msgs cx) (cx_text cx) (cx_time cx) (ae_tx env) (ae_ids env) bt ex events f = (q, f')"
      by (cases "append_tx (cx_msgs cx) (cx_text cx) (cx_time cx) (ae_tx env) (ae_ids env) bt ex events f")
    with Ok(2) f(3) have r: "q = r" "s' = s\<lparr>st_files := AList.update (act_name (st_active s)) f' (st_files s)\<rparr>"
      by auto
    have "committed f' = committed f" using append_tx_committed[OF tx f(2)] r(1) assms(3) by simp
    then have "f'\<lparr>pending := None\<rparr> = f\<lparr>pending := None\<rparr>" by (cases f, cases f') simp
    from update_stopped[of _ _ f "\<lambda>f. f\<lparr>pending := None\<rparr>", OF f(1) this] r(2) show ?thesis
      by (simp add: disk_of_def)
  qed simp
qed

lemma append_disk:
  assumes "context_ok cx" "stream_inv cx s" "unsealed s \<or> rotation_due cx (ae_probe env) s"
    and "in_i64 (log_end cx s + 1)" "clock_forward env s"
    and run: "append_events cx env ex events s = (r, s')" and failed: "\<not> is_Ok r"
  obtains s2 where "stream_inv cx s2" "log_rows cx s2 = log_rows cx s" "disk_of s' = disk_of s2"
    "st_catalog_migrations s' = st_catalog_migrations s2" "s2 = s' \<or> unsealed s2"
  using assms(1-6)
proof (cases rule: append_events_cases)
  case (Tx s2 base_time)
  have "log_ok cx s2" using Tx(1) by (simp add: stream_inv_def)
  from append_active_disk[OF this Tx(7) failed] Tx show thesis by (intro that[of s2]) auto
qed (use failed that in auto)

text \<open>
  C5: a failed append commits nothing. Whatever stops an append, an error or a panic, in a rotation,
  a check, the version conflict, a statement of the transaction or the commit (under the invariant,
  with a clock not behind the active window, the active file unsealed or a rotation due): if the
  \<open>ROLLBACK\<close> the code then issues is carried out, the invariant holds again and the log is the one before. The
  code ignores the outcome of that \<open>ROLLBACK\<close>; when it fails, or on a panic, the transaction
  stays open on the pooled connection, but what is on disk is still the disk of a stream with the
  invariant and the same log, which the next start reads.
\<close>

theorem append_error_keeps_log:
  assumes "context_ok cx" "stream_inv cx s" "unsealed s \<or> rotation_due cx (ae_probe env) s"
    and "in_i64 (log_end cx s + 1)" "clock_forward env s"
    and "append_events cx env ex events s = (r, s')" "\<not> is_Ok r"
  shows "(ae_tx env TxRollback = None \<and> (\<exists>e. r = Err e) \<longrightarrow>
       stream_inv cx s' \<and> log_rows cx s' = log_rows cx s \<and> stream_log cx s' = stream_log cx s) \<and>
    (\<exists>s2. stream_inv cx s2 \<and> log_rows cx s2 = log_rows cx s \<and> stream_log cx s2 = stream_log cx s \<and>
       disk_of s' = disk_of s2)"
proof
  show "ae_tx env TxRollback = None \<and> (\<exists>e. r = Err e) \<longrightarrow>
      stream_inv cx s' \<and> log_rows cx s' = log_rows cx s \<and> stream_log cx s' = stream_log cx s"
    using append_error[OF assms(1-5)] assms(6) by auto
  show "\<exists>s2. stream_inv cx s2 \<and> log_rows cx s2 = log_rows cx s \<and> stream_log cx s2 = stream_log cx s \<and>
      disk_of s' = disk_of s2"
    by (rule append_disk[OF assms]) (auto simp: stream_log_def)
qed

definition commit_fails :: "bool \<Rightarrow> file_call faults" where
  "commit_fails rollback_too c = (if c = TxCommit \<or> rollback_too \<and> c = TxRollback then Some (Db ''disk full'') else None)"

lemma sample_commit_fails:
  "\<not> is_Ok (fst (append_events sample_context (sample_append 1727884801 (commit_fails both)) NoStream sample_events sample_stream)) \<and>
   (\<exists>e. fst (append_events sample_context (sample_append 1727884801 (commit_fails both)) NoStream sample_events sample_stream) = Err e)"
proof -
  have "(case fst (append_events sample_context (sample_append 1727884801 (commit_fails both)) NoStream sample_events sample_stream) of
      Err e \<Rightarrow> True | _ \<Rightarrow> False)"
    by (induction both; code_simp)
  then show ?thesis by (auto split: res.splits)
qed

theorem append_error_keeps_log_witness:
  "stream_log sample_context
     (snd (append_events sample_context (sample_append 1727884801 (commit_fails False)) NoStream sample_events sample_stream)) = Ok [] \<and>
   (\<exists>s2. stream_inv sample_context s2 \<and> stream_log sample_context s2 = Ok [] \<and>
     disk_of (snd (append_events sample_context (sample_append 1727884801 (commit_fails True)) NoStream sample_events sample_stream)) = disk_of s2)"
proof -
  have due: "unsealed sample_stream \<or> rotation_due sample_context (ae_probe (sample_append 1727884801 (commit_fails both))) sample_stream"
    for both by (simp add: sample_stream_facts)
  have rollback: "ae_tx (sample_append 1727884801 (commit_fails False)) TxRollback = None"
    by (simp add: sample_append_def commit_fails_def)
  note F = append_error_keeps_log[OF sample_context_ok sample_stream_facts(1) due sample_room sample_clock prod.collapse[symmetric]
      conjunct1[OF sample_commit_fails]]
  show ?thesis
    using F[of False] F[of True] rollback sample_commit_fails[of False] by (auto simp: sample_log)
qed

text \<open>
  An append of no events answers with the start version and an empty list and leaves the log
  alone.
\<close>

theorem append_nothing:
  assumes "context_ok cx" "stream_inv cx s" "unsealed s \<or> rotation_due cx (ae_probe env) s"
    and "in_i64 (log_end cx s + 1)" "clock_forward env s" "append_events cx env ex [] s = (Ok res, s')"
  shows "res = \<lparr>res_first_version = version_start, res_last_version = version_start, res_events = []\<rparr> \<and>
    stream_inv cx s' \<and> log_rows cx s' = log_rows cx s"
  using assms by (cases rule: append_events_cases) auto

theorem append_nothing_witness:
  "\<exists>s'. append_events sample_context (sample_append 1727884801 (\<lambda>_. None)) NoStream [] sample_stream =
     (Ok \<lparr>res_first_version = version_start, res_last_version = version_start, res_events = []\<rparr>, s') \<and>
     log_rows sample_context s' = []"
proof -
  have "is_Ok (fst (append_events sample_context (sample_append 1727884801 (\<lambda>_. None)) NoStream [] sample_stream))"
    by code_simp
  then obtain res s' where run: "append_events sample_context (sample_append 1727884801 (\<lambda>_. None)) NoStream [] sample_stream = (Ok res, s')"
    by (metis is_Ok.elims(2) prod.collapse)
  have "unsealed sample_stream \<or> rotation_due sample_context (ae_probe (sample_append 1727884801 (\<lambda>_. None))) sample_stream"
    by (simp add: sample_stream_facts)
  from append_nothing[OF sample_context_ok sample_stream_facts(1) this sample_room sample_clock run] run
  show ?thesis by (simp add: sample_stream_facts)
qed

end
