(* ===== verification/StreamReads.thy ===== *)
theory StreamReads
  imports StreamProperties
begin

section \<open>The properties of reads\<close>

text \<open>
  What a reader of the stream gets: under the invariant a bounded read is a slice of the log, an
  append is visible to the next read, and \<open>current_version\<close> is the log's length; without any
  assumption, what a read returns is well-formed.
\<close>

subsection \<open>Reading\<close>

lemma stream_log_versions:
  assumes "log_inv cx s" "stream_log cx s = Ok es"
  shows "map (version_get \<circ> env_version) es = [1 .. int (length es)]"
proof -
  have "map (version_get \<circ> env_version) es = map ev_version xs"
    if "res_map (decode_row (cx_msgs cx) (cx_text cx) (cx_time cx)) xs = Ok es" for xs es
    using that by (induction xs arbitrary: es) (auto simp: res_simps decode_row_fields)
  with assms log_versions[OF assms(1)] show ?thesis
    by (simp add: stream_log_def log_end_def res_map_length)
qed

lemma stream_inv_log: "stream_inv cx s \<Longrightarrow> log_inv cx s"
  by (simp add: stream_inv_def log_ok_def)

lemma res_map_inverse:
  assumes "res_map f xs = Ok ys" "res_map g ys = Ok xs" "x \<in> set xs" "f x = Ok e"
  shows "g e = Ok x"
  using assms by (induction xs arbitrary: ys) (auto simp: res_simps)

lemma stored_row:
  assumes "log_inv cx s" "x \<in> set (log_rows cx s)" "decode_row (cx_msgs cx) (cx_text cx) (cx_time cx) x = Ok e"
  shows "row_of_envelope (cx_text cx) (cx_time cx) e = Ok x"
  using assms res_map_inverse by (fastforce simp: log_inv_def log_decodes_def stream_log_def)

lemma load_after_version_log:
  assumes "log_inv cx s" "read_ok rd" "stream_log cx s = Ok es" "1 \<le> limit" "limit \<le> MAX_READ_LIMIT"
  shows "load_after_version cx rd cursor limit s = Ok (take limit (filter (\<lambda>e. cursor < env_version e) es))"
  unfolding load_after_version_def
  by (rule load_events_log[OF assms])
    (auto simp: after_version_def version_order_simps dest!: decode_row_fields(1))

text \<open>The sample stream after an append of two events.\<close>

definition quiet_read :: read_env where
  "quiet_read = \<lparr>rd_catalog = (\<lambda>_. None), rd_conn = (\<lambda>_. None), rd_file = (\<lambda>_ _. None)\<rparr>"

lemma quiet_read_ok: "read_ok quiet_read"
  by (simp add: read_ok_def quiet_read_def)

abbreviation sample_run :: "(string, string, int) append_result result \<times> stream" where
  "sample_run \<equiv> append_events sample_context (sample_append 1727884801 (\<lambda>_. None)) NoStream sample_events sample_stream"

lemma sample_appended:
  obtains res s' where "sample_run = (Ok res, s')" "stream_inv sample_context s'" "unsealed s'"
    "stream_log sample_context s' = Ok (res_events res)" "map (version_get \<circ> env_version) (res_events res) = [1 .. 2]"
    "length (res_events res) = 2"
proof -
  obtain res s' where run: "sample_run = (Ok res, s')" using sample_runs by (metis is_Ok.elims(2) prod.collapse)
  have alt: "unsealed sample_stream \<or> rotation_due sample_context (ae_probe (sample_append 1727884801 (\<lambda>_. None))) sample_stream"
    by (simp add: sample_stream_facts)
  have ne: "sample_events \<noteq> []" by (simp add: sample_events_def)
  have len: "length sample_events = 2" by (simp add: sample_events_def)
  note E = append_extends[OF sample_context_ok sample_stream_facts(1) alt sample_log sample_room sample_clock sample_payloads ne run]
  show thesis
  proof (rule that[OF run])
    show "length (res_events res) = 2" using E len list_all2_lengthD[of carries sample_events "res_events res"] by simp
  qed (use E in \<open>simp_all add: len\<close>)
qed

text \<open>
  C7: a bounded read is a slice of the log. Under the invariant, even half-way through a rotation,
  \<open>load_after_version\<close> returns the first \<open>limit\<close> events of the log whose version is past the
  cursor, in the log's order: the catalog's range filter, the per-file limits, the early exit
  and the final sort and truncation together neither drop nor repeat nor reorder an event.
\<close>

theorem load_after_version_correct:
  assumes "log_inv cx s" "read_ok rd" "stream_log cx s = Ok es" "1 \<le> limit" "limit \<le> MAX_READ_LIMIT"
  shows "load_after_version cx rd cursor limit s = Ok (take limit (filter (\<lambda>e. cursor < env_version e) es))"
  by (rule load_after_version_log[OF assms])

theorem load_after_version_correct_witness:
  "\<exists>res s'. sample_run = (Ok res, s') \<and>
     load_after_version sample_context quiet_read (EventStreamVersion 1) 10 s' =
       Ok (take 10 (filter (\<lambda>e. EventStreamVersion 1 < env_version e) (res_events res))) \<and> length (res_events res) = 2"
proof (rule sample_appended)
  fix res s'
  assume a: "sample_run = (Ok res, s')" "stream_inv sample_context s'" "stream_log sample_context s' = Ok (res_events res)"
    "length (res_events res) = 2"
  have "load_after_version sample_context quiet_read (EventStreamVersion 1) 10 s' =
      Ok (take 10 (filter (\<lambda>e. EventStreamVersion 1 < env_version e) (res_events res)))"
    by (rule load_after_version_correct[OF stream_inv_log[OF a(2)] quiet_read_ok a(3)]) (simp_all add: MAX_READ_LIMIT_def)
  with a show ?thesis by blast
qed

lemma load_workflow_log:
  assumes "log_inv cx s" "uuid_law (cx_text cx)" "read_ok rd" "stream_log cx s = Ok es"
    and "1 \<le> limit" "limit \<le> MAX_READ_LIMIT"
  shows "load_workflow_after_version cx rd w cursor limit s =
    Ok (take limit (filter (\<lambda>e. env_workflow_started_by e = Some w \<and> cursor < env_version e) es))"
  unfolding load_workflow_after_version_def
proof (rule load_events_log[OF assms(1,3,4,5,6)])
  fix x e
  assume x: "x \<in> set (log_rows cx s)" "decode_row (cx_msgs cx) (cx_text cx) (cx_time cx) x = Ok e"
  have "ev_workflow_started_by x = map_option (uuid_to_string (cx_text cx)) (env_workflow_started_by e)"
    using row_of_envelope_fields(4)[OF stored_row[OF assms(1) x]] .
  moreover have "uuid_to_string (cx_text cx) u = uuid_to_string (cx_text cx) w \<longleftrightarrow> u = w" for u
    using uuid_law_inj[OF assms(2)] by (simp add: inj_eq)
  ultimately show "(of_workflow (cx_text cx) w x \<and> after_version (version_get cursor) x) =
      (env_workflow_started_by e = Some w \<and> cursor < env_version e)"
    using decode_row_fields(1)[OF x(2)]
    by (auto simp: of_workflow_def after_version_def version_order_simps)
qed (simp add: after_version_def)

text \<open>
  C8: a workflow read is the same slice of the workflow's events. The filter on the stored text
  of the starting event's id selects exactly the events whose workflow was started by it.
\<close>

theorem load_workflow_after_version_correct:
  assumes "log_inv cx s" "uuid_law (cx_text cx)" "read_ok rd" "stream_log cx s = Ok es"
    and "1 \<le> limit" "limit \<le> MAX_READ_LIMIT"
  shows "load_workflow_after_version cx rd w cursor limit s =
    Ok (take limit (filter (\<lambda>e. env_workflow_started_by e = Some w \<and> cursor < env_version e) es))"
  by (rule load_workflow_log[OF assms])

theorem load_workflow_after_version_correct_witness:
  "\<exists>res s'. sample_run = (Ok res, s') \<and>
     load_workflow_after_version sample_context quiet_read ''id-0'' (EventStreamVersion 0) 10 s' =
       Ok (take 10 (filter (\<lambda>e. env_workflow_started_by e = Some ''id-0'' \<and> EventStreamVersion 0 < env_version e)
             (res_events res)))"
proof (rule sample_appended)
  fix res s'
  assume a: "sample_run = (Ok res, s')" "stream_inv sample_context s'" "stream_log sample_context s' = Ok (res_events res)"
  have "load_workflow_after_version sample_context quiet_read ''id-0'' (EventStreamVersion 0) 10 s' =
       Ok (take 10 (filter (\<lambda>e. env_workflow_started_by e = Some ''id-0'' \<and> EventStreamVersion 0 < env_version e)
             (res_events res)))"
    by (rule load_workflow_after_version_correct[OF stream_inv_log[OF a(2)] _ quiet_read_ok a(3)])
      (use sample_context_ok in \<open>simp_all add: MAX_READ_LIMIT_def context_ok_def\<close>)
  with a show ?thesis by blast
qed

text \<open>
  C9: an append is visible to the next read. After a successful append, reading past the version
  the stream had before returns exactly the appended events.
\<close>

theorem read_your_writes:
  assumes "context_ok cx" "stream_inv cx s" "unsealed s \<or> rotation_due cx (ae_probe env) s"
    and "stream_log cx s = Ok es" "in_i64 (log_end cx s + 1)" "clock_forward env s"
    and "payloads_readable (cx_text cx) events" "events \<noteq> []"
    and "append_events cx env ex events s = (Ok res, s')"
    and "read_ok rd" "length events \<le> limit" "limit \<le> MAX_READ_LIMIT"
  shows "load_after_version cx rd (EventStreamVersion (int (length es))) limit s' = Ok (res_events res)"
proof -
  note C = append_extends[OF assms(1-9)]
  have "version_get (env_version e) \<le> int (length es)" if "e \<in> set es" for e
  proof -
    have "version_get (env_version e) \<in> set (map (version_get \<circ> env_version) es)" using that by simp
    then show ?thesis unfolding stream_log_versions[OF stream_inv_log[OF assms(2)] assms(4)] by simp
  qed
  then have old: "filter (\<lambda>e. EventStreamVersion (int (length es)) < env_version e) es = []"
    by (fastforce simp: filter_empty_conv version_order_simps)
  have "int (length es) < version_get (env_version e)" if "e \<in> set (res_events res)" for e
  proof -
    have "version_get (env_version e) \<in> set (map (version_get \<circ> env_version) (res_events res))" using that by simp
    then show ?thesis using C by simp
  qed
  then have new: "filter (\<lambda>e. EventStreamVersion (int (length es)) < env_version e) (res_events res) = res_events res"
    by (simp add: filter_id_conv version_order_simps)
  have "1 \<le> limit" using assms(8,11) by (cases events) auto
  from load_after_version_log[OF stream_inv_log assms(10) _ this assms(12), of cx s' "es @ res_events res"] C
  have "load_after_version cx rd (EventStreamVersion (int (length es))) limit s' =
      Ok (take limit (filter (\<lambda>e. EventStreamVersion (int (length es)) < env_version e) (es @ res_events res)))"
    by blast
  moreover have "length (res_events res) = length events" using C by (metis list_all2_lengthD)
  ultimately show ?thesis using assms(11) by (simp add: old new)
qed

theorem read_your_writes_witness:
  "\<exists>res s'. sample_run = (Ok res, s') \<and>
     load_after_version sample_context quiet_read (EventStreamVersion 0) 10 s' = Ok (res_events res)"
proof (rule sample_appended)
  fix res s'
  assume run: "sample_run = (Ok res, s')"
  have alt: "unsealed sample_stream \<or> rotation_due sample_context (ae_probe (sample_append 1727884801 (\<lambda>_. None))) sample_stream"
    by (simp add: sample_stream_facts)
  from read_your_writes[OF sample_context_ok sample_stream_facts(1) alt sample_log sample_room sample_clock sample_payloads _ run
    quiet_read_ok, of 10]
  have "load_after_version sample_context quiet_read (EventStreamVersion 0) 10 s' = Ok (res_events res)"
    by (simp add: sample_events_def MAX_READ_LIMIT_def)
  with run show ?thesis by blast
qed

text \<open>
  \<open>current_version\<close> is the length of the log: the start version on an empty stream, otherwise
  the version of the last event.
\<close>

theorem current_version_correct:
  assumes "stream_inv cx s" "stream_log cx s = Ok es" "\<And>c. flt c = None"
  shows "current_version cx None flt s = Ok (EventStreamVersion (int (length es)))"
proof -
  have "log_ok cx s" using assms(1) by (simp add: stream_inv_def)
  then obtain rows where c: "content (cx_text cx) (st_files s) (act_name (st_active s)) = Some (rows, log_end cx s)"
    using active_content by blast
  obtain f where f: "get_connection cx None (st_files s) (act_name (st_active s)) = Ok f" "idle f"
    "file_content (cx_text cx) (tables (committed f)) = Some (rows, log_end cx s)"
    using get_connection_content[OF c] by blast
  have "read_event_file_append_head (cx_msgs cx) (cx_text cx) flt (tables (committed f)) = Ok (int (length es))"
    using read_head_Ok[OF f(3)] assms(3) by (simp add: log_length[OF assms(2)])
  with f show ?thesis
    by (simp add: current_version_def version_start_def version_new_def)
qed

theorem current_version_correct_witness:
  "\<exists>res s'. sample_run = (Ok res, s') \<and> current_version sample_context None (\<lambda>_. None) s' = Ok (EventStreamVersion 2)"
proof (rule sample_appended)
  fix res s'
  assume a: "sample_run = (Ok res, s')" "stream_inv sample_context s'" "stream_log sample_context s' = Ok (res_events res)"
    "length (res_events res) = 2"
  with current_version_correct[OF a(2,3), of "\<lambda>_. None"] show ?thesis by simp
qed

subsection \<open>What any read may return\<close>

lemma decode_row_version: "decode_row tm cr tc r = Ok e \<Longrightarrow> 0 < ev_version r"
  by (auto simp: decode_row_def event_from_row_def event_columns_def column_defs res_simps)

lemma query_decodes:
  assumes "query_events tm cr tc flt p n t = Ok es" "e \<in> set es"
  shows "\<exists>r. p r \<and> decode_row tm cr tc r = Ok e"
proof -
  obtain rows where rows: "res_map (event_from_row tm cr tc) (map event_columns (select_events p n rows)) = Ok es"
    using assms(1) by (auto simp: query_events_def collect_events_from_rows_def split: option.splits)
  have "\<exists>r \<in> set xs. decode_row tm cr tc r = Ok e"
    if "res_map (event_from_row tm cr tc) (map event_columns xs) = Ok ys" "e \<in> set ys" for xs ys
    using that by (induction xs arbitrary: ys) (auto simp: res_simps decode_row_def)
  from this[OF rows assms(2)] show ?thesis by (auto simp: select_events_def dest!: in_set_takeD)
qed

lemma load_ranges_decodes:
  assumes "load_ranges cx rd p limit files i ranges acc = Ok es"
    and "\<forall>e \<in> set acc. \<exists>r. p r \<and> decode_row (cx_msgs cx) (cx_text cx) (cx_time cx) r = Ok e"
  shows "\<forall>e \<in> set es. \<exists>r. p r \<and> decode_row (cx_msgs cx) (cx_text cx) (cx_time cx) r = Ok e"
  using assms
proof (induction ranges arbitrary: i acc)
  case (Cons rng ranges)
  show ?case
  proof (cases "limit - length acc = 0")
    case False
    with Cons.prems(1) obtain f new where
      "query_events (cx_msgs cx) (cx_text cx) (cx_time cx) (rd_file rd i) p (limit - length acc) (file_view f) = Ok new"
      and rest: "load_ranges cx rd p limit files (i + 1) ranges (acc @ new) = Ok es"
      by (auto simp: Let_def res_simps)
    then have "\<forall>e \<in> set (acc @ new). \<exists>r. p r \<and> decode_row (cx_msgs cx) (cx_text cx) (cx_time cx) r = Ok e"
      using query_decodes Cons.prems(2) by fastforce
    with Cons.IH[OF rest] show ?thesis by blast
  qed (use Cons.prems in \<open>auto simp: Let_def\<close>)
qed simp

text \<open>
  C15: whatever a read returns is well-formed, with no assumption on the stream: corrupt files, a
  wrong catalog, faults in any call. \<open>load_after_version\<close> answers with an error, or with at most
  \<open>limit\<close> events, the limit itself being in range, ordered by version, each with a positive
  version past the cursor.
\<close>

theorem loaded_events_wellformed:
  assumes "load_after_version cx rd cursor limit s = Ok es"
  shows "1 \<le> limit \<and> limit \<le> MAX_READ_LIMIT \<and> length es \<le> limit \<and> sorted (map env_version es) \<and>
    (\<forall>e \<in> set es. 0 < version_get (env_version e) \<and> version_get cursor < version_get (env_version e))"
proof -
  obtain ranges all where limit: "1 \<le> limit" "limit \<le> MAX_READ_LIMIT"
    and all: "load_ranges cx rd (after_version (version_get cursor)) limit (st_files s) 0 ranges [] = Ok all"
    and es: "es = take limit (sort_key env_version all)"
    using assms by (auto simp: load_after_version_def load_events_def res_simps)
  have "0 < version_get (env_version e) \<and> version_get cursor < version_get (env_version e)" if "e \<in> set es" for e
  proof -
    have "e \<in> set all" using that by (auto simp: es dest: in_set_takeD)
    with load_ranges_decodes[OF all] obtain r where
      r: "after_version (version_get cursor) r" "decode_row (cx_msgs cx) (cx_text cx) (cx_time cx) r = Ok e" by auto
    show ?thesis
      using r decode_row_version[OF r(2)] decode_row_fields(1)[OF r(2)] by (simp add: after_version_def)
  qed
  moreover have "sorted (map env_version es)"
    unfolding es take_map[symmetric] by (rule sorted_wrt_take) (rule sorted_sort_key)
  ultimately show ?thesis using limit by (simp add: es)
qed

theorem loaded_events_wellformed_witness:
  "\<exists>s es. load_after_version sample_context quiet_read (EventStreamVersion 0) 10 s = Ok es \<and> length es = 2 \<and>
     sorted (map env_version es)"
proof (rule sample_appended)
  fix res s'
  assume a: "sample_run = (Ok res, s')" "stream_inv sample_context s'" "stream_log sample_context s' = Ok (res_events res)"
    "length (res_events res) = 2"
  have "load_after_version sample_context quiet_read (EventStreamVersion 0) 10 s' =
      Ok (take 10 (filter (\<lambda>e. EventStreamVersion 0 < env_version e) (res_events res)))"
    by (rule load_after_version_log[OF stream_inv_log[OF a(2)] quiet_read_ok a(3)]) (simp_all add: MAX_READ_LIMIT_def)
  moreover have "filter (\<lambda>e. EventStreamVersion 0 < env_version e) (res_events res) = res_events res"
  proof -
    have "(version_get \<circ> env_version) ` set (res_events res) = {1 .. int (length (res_events res))}"
      using stream_log_versions[OF stream_inv_log[OF a(2)] a(3)] by (metis set_map set_upto)
    then have "(version_get \<circ> env_version) x \<in> {1 .. int (length (res_events res))}" if "x \<in> set (res_events res)" for x
      using that by (metis imageI)
    then have "0 < version_get (env_version x)" if "x \<in> set (res_events res)" for x using that by fastforce
    then show ?thesis by (simp add: filter_id_conv version_order_simps)
  qed
  ultimately show ?thesis using loaded_events_wellformed a(4) by fastforce
qed

end
