(* ===== verification/StreamReach.thy ===== *)
theory StreamReach
  imports StreamReads
begin

section \<open>Failed rotations, restarts and every history of a stream\<close>

subsection \<open>A rotation that failed leaves a recoverable store\<close>

lemma setup_existing:
  assumes "setup_file tm digest ce v None f = (r, f')" "idle f" "file_content cr (tables (committed f)) = Some (rows, h)"
  shows "idle f' \<and> file_content cr (tables (committed f')) \<in> {Some (rows, h), Some (rows, v)} \<and>
    (r = Ok () \<longrightarrow> file_content cr (tables (committed f')) = Some (rows, v))"
proof -
  obtain hd where tbl: "events_table (tables (committed f)) = Some rows" "head_table (tables (committed f)) = Some (Some hd)"
    using assms(3) by (auto simp: file_content_Some)
  obtain r1 s where run: "run_migrations tm digest (event_file_batch tm (ce_batch ce)) (ce_migrate ce) (ce_now ce)
      partition_migrations (committed f) = (r1, s)"
    by (cases "run_migrations tm digest (event_file_batch tm (ce_batch ce)) (ce_migrate ce) (ce_now ce)
      partition_migrations (committed f)")
  have same: "tables s = tables (committed f)"
    using run tbl
    by (auto simp: run_migrations_def partition_migrations_def with_migration_def runner_new_def
        apply_migration_def event_file_batch_def Let_def
        dest!: ensure_same split: prod.splits res.splits option.splits if_splits)
  have "pending f = None" using assms(2) by (simp add: idle_def)
  then show ?thesis
    using assms(1,3) run same
    by (auto simp: setup_file_def file_content_Some split: res.splits dest!: initialize_head_Ok)
qed

lemma rotate_files:
  assumes "rotate_partition cx re now s = (r, s')"
  shows "st_catalog_migrations s' = st_catalog_migrations s \<and>
    (st_files s' = st_files s \<or>
     (\<exists>n start ord v r1. determine_new_partition_info cx (act_start_ms (st_active s)) (act_ordinal (st_active s)) now = Ok (n, start, ord) \<and>
        rbind (get_connection cx (re_conn re) (st_files s) (act_name (st_active s)))
          (\<lambda>f. read_event_file_append_head (cx_msgs cx) (cx_text cx) (re_head re) (file_view f)) = Ok v \<and>
        create_partition_db cx (re_file re) n v None (st_files s) = (r1, st_files s')))"
  using assms
  by (auto simp: rotate_partition_def on_catalog_def on_files_def elim!: sbind_cases split: prod.splits)

subsection \<open>Rotation\<close>

text \<open>
  C11: a rotation at a clock that is not behind the active window leaves the log alone. Whatever step
  of \<open>rotate_partition\<close> fails, the log is the same list of rows and the invariant holds; a rotation
  that succeeds leaves an unsealed active file whose window has begun, one that fails leaves the
  active partition as it was. For a clock behind the window the code rotates as well, and then
  this does not hold (\<open>StaleRotation\<close>).
\<close>

theorem rotation_keeps_log:
  assumes "context_ok cx" "stream_inv cx s" "in_i64 (log_end cx s + 1)"
    and "act_start_ms (st_active s) \<le> now" "in_i64 now" "rotate_partition cx re now s = (r, s')"
  shows "stream_inv cx s' \<and> log_rows cx s' = log_rows cx s \<and> act_start_ms (st_active s') \<le> now \<and>
    (if r = Ok () then unsealed s' else st_active s' = st_active s)"
  by (rule rotate_partition_inv[OF assms])

lemma sample_rotates:
  "is_Ok (fst (rotate_partition sample_context quiet_rotation 1727888400000 sample_stream))"
  by code_simp

theorem rotation_keeps_log_witness:
  "unsealed (snd (rotate_partition sample_context quiet_rotation 1727888400000 sample_stream)) \<and>
   log_rows sample_context (snd (rotate_partition sample_context quiet_rotation 1727888400000 sample_stream)) = []"
proof -
  have "fst (rotate_partition sample_context quiet_rotation 1727888400000 sample_stream) = Ok ()"
    using sample_rotates by (cases "fst (rotate_partition sample_context quiet_rotation 1727888400000 sample_stream)") auto
  then have "rotate_partition sample_context quiet_rotation 1727888400000 sample_stream =
      (Ok (), snd (rotate_partition sample_context quiet_rotation 1727888400000 sample_stream))"
    by (metis prod.collapse)
  from rotation_keeps_log[OF sample_context_ok sample_stream_facts(1) sample_room _ _ this]
  show ?thesis by (simp add: sample_stream_facts in_i64_def)
qed

text \<open>
  C14: the loop of \<open>rotate_until_current_window\<close> ends and is one conditional rotation: it does
  nothing in the window of the clock, and otherwise is exactly one \<open>rotate_partition\<close>, whatever
  that returns, because a successful rotation moves the stream into the clock's window.
\<close>

theorem rotate_until_is_one_rotation:
  "rotate_until_current_window cx rots now i s =
     sbind (floor_to_window_ms now (cx_window cx), s) (\<lambda>floored s.
       if floored = act_start_ms (st_active s) then (Ok (), s) else rotate_partition cx (rots i) now s)"
proof -
  have stay: "rotate_until_current_window cx rots now (i + 1) s1 = (Ok (), s1)"
    if "rotate_partition cx (rots i) now s = (Ok u, s1)" for u s1
    using rotate_partition_in_window[OF that]
    by (subst rotate_until_current_window.simps) (simp add: in_window_def)
  show ?thesis
    by (subst rotate_until_current_window.simps, rule sbind_cong[OF refl])
      (auto dest: stay split: prod.splits res.splits)
qed

text \<open>
  When the ordinals of the current window are used up, rotation reports exhaustion before it
  has touched anything.
\<close>

theorem rotation_ordinals_exhausted:
  assumes "floor_to_window_ms now (cx_window cx) = Ok (act_start_ms (st_active s))"
    and "act_ordinal (st_active s) = Some MAX_OVERFLOW_ORDINAL"
  shows "rotate_partition cx re now s = (Err (RotationOrdinalExhausted MAX_OVERFLOW_ORDINAL), s)"
  using assms
  by (simp add: rotate_partition_def determine_new_partition_info_def get_next_ordinal_def res_simps)

theorem rotation_ordinals_exhausted_witness:
  "let s = sample_stream\<lparr>st_active := (st_active sample_stream)\<lparr>act_ordinal := Some MAX_OVERFLOW_ORDINAL\<rparr>\<rparr>
   in rotate_partition sample_context quiet_rotation 1727884801234 s = (Err (RotationOrdinalExhausted MAX_OVERFLOW_ORDINAL), s)"
proof -
  have fl: "floor_to_window_ms 1727884801234 (cx_window sample_context) = Ok 1727884800000" by code_simp
  show ?thesis unfolding Let_def
    by (rule rotation_ordinals_exhausted) (simp_all add: sample_stream_facts fl)
qed

end
