(* ===== verification/HalfCreated.thy ===== *)
theory HalfCreated
  imports StreamReach
begin

section \<open>Files whose creation was cut\<close>

text \<open>
  A process that dies, or a call that fails, between the creation of a database file and the end
  of its set-up leaves a \<open>headless\<close> file. Such a file makes every rebuild of the catalog fail; a
  rotation that failed anywhere else leaves a store the next start recovers.
\<close>

definition headless :: "event_file \<Rightarrow> bool" where
  "headless f \<longleftrightarrow> (\<forall>h. head_table (tables (committed f)) \<noteq> Some (Some h))"

subsection \<open>A headless file stops the rebuild\<close>

lemma headless_summary:
  assumes "map_of files n = Some f" "headless f"
    and run: "summarize_file cx ds m files = (r, files')"
  shows "map_of files' n = Some f" "m = n \<Longrightarrow> \<not> is_Ok r"
proof -
  have head: "\<not> is_Ok (read_event_file_append_head (cx_msgs cx) (cx_text cx) flt (tables (committed f)))" for flt
    using assms(2) by (auto simp: headless_def read_event_file_append_head_def split: option.splits)
  have opened: "map_of files1 n = Some f" if "open_partition_db (ds_open ds) m files = (q, files1)" for q files1
    using that assms(1)
    by (auto simp: open_partition_db_def Let_def file_of_def update_conv' split: option.splits)
  show "map_of files' n = Some f"
    using run opened by (auto simp: summarize_file_def Let_def elim!: sbind_cases split: option.splits)
  show "\<not> is_Ok r" if "m = n"
    using run[unfolded summarize_file_def]
  proof (cases rule: sbind_cases)
    case (Ok u files1)
    have "file_of files1 n = f" using opened[OF Ok(1)] by (simp add: file_of_def)
    with Ok(2) head[of "ds_file ds"] that show ?thesis
      by (cases "read_event_file_append_head (cx_msgs cx) (cx_text cx) (ds_file ds) (tables (committed f))")
        (auto split: option.splits)
  qed (cases r, auto)
qed

lemma headless_discover:
  assumes "headless f"
  shows "map_of files n = Some f \<Longrightarrow> n \<in> set (listed items) \<Longrightarrow> \<not> is_Ok (fst (discover_entries cx ds i items files))"
proof (induction items arbitrary: i files)
  case (Cons item items)
  show ?case
  proof (cases "\<exists>m. item = Entry (Ok True) (Some m) \<and> prefix ''events_'' m \<and> suffix ''.db'' m")
    case True
    then obtain m where m: "item = Entry (Ok True) (Some m)" "prefix ''events_'' m" "suffix ''.db'' m" by blast
    obtain r files1 where run: "summarize_file cx (ds i) m files = (r, files1)" by (cases "summarize_file cx (ds i) m files")
    note H = headless_summary[OF Cons.prems(1) assms run]
    show ?thesis
    proof (cases "m = n")
      case True
      then have "item = Entry (Ok True) (Some n)" "prefix ''events_'' n" "suffix ''.db'' n"
        "summarize_file cx (ds i) n files = (r, files1)" "\<not> is_Ok r"
        using m run H(2) by simp_all
      then show ?thesis
        by (cases "parse_partition_name (cx_digits cx) (cx_time cx) n"; cases r) simp_all
    next
      case False
      then have "n \<in> set (listed items)" using Cons.prems(2) m by simp
      from Cons.IH[OF H(1) this, of "i + 1"] show ?thesis
        by (cases "parse_partition_name (cx_digits cx) (cx_time cx) m"; cases r;
            cases "discover_entries cx ds (i + 1) items files1"; cases "fst (discover_entries cx ds (i + 1) items files1)")
          (simp_all add: m run)
    qed
  next
    case False
    then have "listed (item # items) = listed items" by (cases "item # items" rule: listed.cases) auto
    with Cons.prems(2) have "n \<in> set (listed items)" by simp
    from Cons.IH[OF Cons.prems(1) this, of "i + 1"] False show ?thesis
      by (auto split: dir_item.splits res.splits option.splits)
  qed
qed simp

lemma headless_open:
  assumes oe: "open_ok oe" and mig: "catalog_migrated cx migs"
    and cat: "unsealed_count (cat_ranges (fresh_db rows)) \<noteq> 1"
    and f: "map_of files n = Some f" "headless f"
    and items: "rb_listing (op_rebuild oe) = DirEntries items" "n \<in> set (listed items)"
  shows "\<not> is_Ok (fst (open_partitioned cx oe
    \<lparr>dk_catalog = Some \<lparr>migrations_table = migs, tables = Some rows\<rparr>, dk_files = files\<rparr>))"
proof -
  have "\<not> is_Ok (fst (discover_event_file_summaries cx (rb_discover (op_rebuild oe)) (rb_listing (op_rebuild oe)) files))"
    using headless_discover[OF f(2,1) items(2)] by (simp add: discover_event_file_summaries_def items(1))
  then have "\<not> is_Ok (fst (rebuild_event_file_ranges cx (op_rebuild oe) (fresh_db rows, files)))"
    by (cases "discover_event_file_summaries cx (rb_discover (op_rebuild oe)) (rb_listing (op_rebuild oe)) files";
        cases "fst (discover_event_file_summaries cx (rb_discover (op_rebuild oe)) (rb_listing (op_rebuild oe)) files)")
      (auto simp: rebuild_event_file_ranges_def)
  moreover have "get_all_event_file_ranges (cx_msgs cx) (op_ranges oe) (fresh_db rows) = Ok (cat_ranges (fresh_db rows))"
    using oe by (intro get_all_Ok) (simp add: open_ok_def)
  ultimately have "\<not> is_Ok (fst (initialize_active_partition cx oe (fresh_db rows, files)))"
    using cat
    by (cases "res_map (\<lambda>r. parse_partition_name (cx_digits cx) (cx_time cx) (rng_name r)) (cat_ranges (fresh_db rows))";
        cases "rebuild_event_file_ranges cx (op_rebuild oe) (fresh_db rows, files)";
        cases "fst (rebuild_event_file_ranges cx (op_rebuild oe) (fresh_db rows, files))")
      (auto simp: initialize_active_partition_def)
  then show ?thesis
    using oe open_migrated[OF oe mig, of "Some rows"]
    by (cases "initialize_active_partition cx oe (fresh_db rows, files)";
        cases "fst (initialize_active_partition cx oe (fresh_db rows, files))")
      (auto simp: open_partitioned_def open_ok_def)
qed

subsection \<open>What a creation leaves\<close>

lemma event_file_batch_head:
  "event_file_batch tm flt q t = (r, t') \<Longrightarrow> \<forall>h. head_table t \<noteq> Some (Some h) \<Longrightarrow> \<forall>h. head_table t' \<noteq> Some (Some h)"
  by (auto simp: event_file_batch_def Let_def split: option.splits if_splits)

lemma run_migrations_head:
  assumes "run_migrations tm digest (event_file_batch tm bf) flt now partition_migrations s = (r, s')"
    and "\<forall>h. head_table (tables s) \<noteq> Some (Some h)"
  shows "\<forall>h. head_table (tables s') \<noteq> Some (Some h)"
  using assms
  by (auto simp: run_migrations_def partition_migrations_def with_migration_def runner_new_def apply_migration_def Let_def
      dest!: ensure_same event_file_batch_head split: prod.splits res.splits option.splits if_splits)

lemma setup_blank:
  assumes run: "setup_file tm digest ce v None blank_file = (r, f)" and failed: "r \<noteq> Ok ()"
  shows "headless f"
proof -
  obtain r1 s where m: "run_migrations tm digest (event_file_batch tm (ce_batch ce)) (ce_migrate ce) (ce_now ce)
      partition_migrations (committed blank_file) = (r1, s)"
    by (cases "run_migrations tm digest (event_file_batch tm (ce_batch ce)) (ce_migrate ce) (ce_now ce)
      partition_migrations (committed blank_file)")
  have "\<forall>h. head_table (tables s) \<noteq> Some (Some h)"
    by (rule run_migrations_head[OF m]) (simp add: blank_file_def fresh_db_def)
  with run failed m show ?thesis
    by (auto simp: setup_file_def headless_def blank_file_def fresh_db_def split: res.splits)
qed

lemma create_leaves:
  assumes run: "create_partition_db cx ce n v None files = (r, files')"
    and old: "map_of files n = None \<or> content (cx_text cx) files n = Some ([], v)"
  shows "map_of files' = map_of files \<or>
    (\<forall>m. m \<noteq> n \<longrightarrow> map_of files' m = map_of files m) \<and>
      (content (cx_text cx) files' n = Some ([], v) \<or> (\<exists>f. map_of files' n = Some f \<and> headless f))"
proof -
  let ?f = "file_of files n"
  consider (Unchanged) "files' = files" | (Opened) "files' = AList.update n ?f files"
    | (Set) r1 f where "setup_file (cx_msgs cx) (cx_file_digest cx) ce v None ?f = (r1, f)"
        "files' = AList.update n f (AList.update n ?f files)"
    using run
    by (cases "setup_file (cx_msgs cx) (cx_file_digest cx) ce v None ?f")
      (auto simp: create_partition_db_def open_partition_db_def Let_def file_of_update split: option.splits)
  then show ?thesis
  proof cases
    case Opened
    show ?thesis
    proof (cases "map_of files n")
      case None
      then have "headless ?f" by (simp add: file_of_def headless_def blank_file_def fresh_db_def)
      with Opened show ?thesis by (auto simp: update_conv)
    next
      case (Some g)
      with Opened show ?thesis by (simp add: file_of_def alist_update_same)
    qed
  next
    case (Set r1 f)
    have "content (cx_text cx) files' n = Some ([], v) \<or> (\<exists>f. map_of files' n = Some f \<and> headless f)"
    proof (cases "map_of files n")
      case None
      then have blank: "?f = blank_file" by (simp add: file_of_def)
      show ?thesis
      proof (cases "r1 = Ok ()")
        case True
        with setup_file_vacant[OF Set(1), of "cx_text cx"] blank Set(2) show ?thesis by (auto simp: content_def update_conv)
      next
        case False
        with setup_blank[OF Set(1)[unfolded blank]] Set(2) show ?thesis by (simp add: update_conv)
      qed
    next
      case (Some g)
      with old have "content (cx_text cx) files n = Some ([], v)" by simp
      with Some have "idle ?f" "file_content (cx_text cx) (tables (committed ?f)) = Some ([], v)"
        by (auto simp: content_def file_of_def split: if_splits)
      from setup_existing[OF Set(1) this] Set(2) show ?thesis by (auto simp: content_def update_conv)
    qed
    with Set(2) show ?thesis by (simp add: update_conv)
  qed simp
qed

subsection \<open>A rotation that failed\<close>

lemma failed_rotation_leaves:
  assumes cx: "context_ok cx" and inv: "stream_inv cx s" and rec: "recoverable cx s" and room: "in_i64 (log_end cx s + 1)"
    and now: "act_start_ms (st_active s) \<le> now" "in_i64 now"
    and run: "rotate_partition cx re now s = (r, s')" and failed: "r \<noteq> Ok ()"
  shows "recoverable cx s' \<or> (\<exists>n f. map_of (st_files s') n = Some f \<and> headless f)"
proof -
  have ok: "log_ok cx s" and nm: "naming cx s" using inv by (simp_all add: stream_inv_def)
  have fresh: "act_name (st_active s) < n" "n \<notin> cat_names (st_catalog s)" "window_name cx start ord n"
    if "determine_new_partition_info cx (act_start_ms (st_active s)) (act_ordinal (st_active s)) now = Ok (n, start, ord)" for n start ord
    using new_name[OF cx nm now that] nm by (auto simp: naming_def dest: leD)
  have "rotation_frame cx now s r s'"
    by (rule rotate_partition_frame[OF ok room fresh(2) run])
  then have F: "log_end cx s' = log_end cx s" "st_active s' = st_active s" "cat_names (st_catalog s') = cat_names (st_catalog s)"
    using failed by (simp_all add: rotation_frame_def log_end_def)
  have act: "act_name (st_active s) \<in> cat_names (st_catalog s)"
    using log_okD(2)[OF ok] by (simp add: active_inv_def)
  from rotate_files[OF run] show ?thesis
  proof (elim conjE disjE exE)
    assume "st_files s' = st_files s"
    with rec F show ?thesis by (simp add: recoverable_def)
  next
    fix n start ord v r1
    assume det: "determine_new_partition_info cx (act_start_ms (st_active s)) (act_ordinal (st_active s)) now = Ok (n, start, ord)"
      and head: "rbind (get_connection cx (re_conn re) (st_files s) (act_name (st_active s)))
          (\<lambda>f. read_event_file_append_head (cx_msgs cx) (cx_text cx) (re_head re) (file_view f)) = Ok v"
      and create: "create_partition_db cx (re_file re) n v None (st_files s) = (r1, st_files s')"
    note N = fresh[OF det]
    have v: "v = log_end cx s" using active_head[OF log_okD(2)[OF ok] head] .
    have old: "map_of (st_files s) n = None \<or> content (cx_text cx) (st_files s) n = Some ([], v)"
      using rec N v by (fastforce simp: recoverable_def)
    consider (Same) "map_of (st_files s') = map_of (st_files s)"
      | (New) "(\<forall>m. m \<noteq> n \<longrightarrow> map_of (st_files s') m = map_of (st_files s) m) \<and>
          content (cx_text cx) (st_files s') n = Some ([], v)"
      | (Headless) f where "map_of (st_files s') n = Some f" "headless f"
      using create_leaves[OF create old] by blast
    then show ?thesis
    proof cases
      case Headless
      then show ?thesis by blast
    next
      case same: Same
      have c: "content (cx_text cx) (st_files s') m = content (cx_text cx) (st_files s) m" for m
        using same by (simp add: content_def)
      with rec F same show ?thesis by (simp add: recoverable_def rows_of_def)
    next
      case new: New
      have c: "content (cx_text cx) (st_files s') m = content (cx_text cx) (st_files s) m" if "m \<noteq> n" for m
        using new that by (simp add: content_def)
      have rows: "rows_of (cx_text cx) (st_files s') (act_name (st_active s)) = rows_of (cx_text cx) (st_files s) (act_name (st_active s))"
      proof -
        have "act_name (st_active s) \<noteq> n" using N(2) act by auto
        from c[OF this] show ?thesis by (simp add: rows_of_def)
      qed
      have "recoverable cx s'"
        unfolding recoverable_def F rows
      proof (intro allI impI)
        fix m assume m: "map_of (st_files s') m \<noteq> None" "m \<notin> cat_names (st_catalog s)"
        show "(\<exists>start ord. window_name cx start ord m) \<and>
          (\<exists>h. content (cx_text cx) (st_files s') m = Some ([], h) \<and> 0 \<le> h \<and>
             (h = log_end cx s \<and> act_name (st_active s) < m \<or>
              h + int (length (rows_of (cx_text cx) (st_files s) (act_name (st_active s)))) \<le> log_end cx s \<and>
              m < act_name (st_active s)))"
        proof (cases "m = n")
          case True
          with new N v show ?thesis by (auto simp: log_end_def)
        next
          case False
          with m new rec c[OF False] show ?thesis by (simp add: recoverable_def)
        qed
      qed
      then show ?thesis ..
    qed
  qed
qed

text \<open>When the new file was touched, the catalog had been sealed.\<close>

lemma failed_rotation_sealed:
  assumes ok: "log_ok cx s" and run: "rotate_partition cx re now s = (r, s')" and failed: "r \<noteq> Ok ()"
  shows "st_files s' = st_files s \<or> (\<forall>q \<in> set (cat_ranges (st_catalog s')). rng_sealed q)"
  using run unfolding rotate_partition_def
proof (cases rule: sbind_cases)
  case (Ok info s0)
  obtain n start ord where info: "info = (n, start, ord)" and s0: "s0 = s" using Ok(1) by (cases info) auto
  from Ok(2)[unfolded info prod.case s0] show ?thesis
  proof (cases rule: sbind_cases)
    case (Ok v s1)
    then have v: "v = log_end cx s" "s1 = s" using active_head[OF log_okD(2)[OF ok]] by auto
    from Ok(2)[unfolded v] show ?thesis
    proof (cases rule: sbind_cases)
      case (Stop r')
      then show ?thesis by (auto simp: on_catalog_def split: prod.splits)
    next
      case (Ok u s2)
      then have "st_catalog s2 = st_catalog (sealed_state cx s)"
        using seal_outcome log_okD(3)[OF ok] by (fastforce simp: on_catalog_def sealed_state_def split: prod.splits)
      then have sealed: "\<forall>q \<in> set (cat_ranges (st_catalog s2)). rng_sealed q" "idle (st_catalog s2)"
        using seal_step[OF ok] log_okD(3) by auto
      from Ok(2) show ?thesis
      proof (cases rule: sbind_cases)
        case (Stop r')
        with sealed show ?thesis by (auto simp: on_files_def split: prod.splits)
      next
        case (Ok u' s3)
        then have s3: "st_catalog s3 = st_catalog s2" by (auto simp: on_files_def split: prod.splits)
        from Ok(2) show ?thesis
        proof (cases rule: sbind_cases)
          case (Stop r')
          then have "st_catalog s' = st_catalog s3"
            using create_outcome sealed(2) s3 by (fastforce simp: on_catalog_def split: prod.splits)
          with sealed s3 show ?thesis by simp
        qed (use failed in simp)
      qed
    qed
  qed simp
qed simp

lemma content_headed: "content cr files n = Some (rows, h) \<Longrightarrow> map_of files n = Some f \<Longrightarrow> \<not> headless f"
  by (auto simp: content_def file_content_Some headless_def split: if_splits)

lemma headless_blocks:
  assumes cx: "context_ok cx" and inv: "stream_inv cx s" and rec: "recoverable cx s"
    and mig: "catalog_migrated cx (st_catalog_migrations s)" and room: "in_i64 (log_end cx s + 1)"
    and now: "act_start_ms (st_active s) \<le> now" "in_i64 now"
    and run: "rotate_partition cx re now s = (r, s')" "r \<noteq> Ok ()"
    and oe: "open_ok oe" "lists_files oe (st_files s')" and f: "map_of (st_files s') n = Some f" "headless f"
  shows "\<not> is_Ok (fst (open_partitioned cx oe (disk_of s')))"
proof -
  have ok: "log_ok cx s" using inv by (simp add: stream_inv_def)
  have "\<not> headless g" if "map_of (st_files s) n = Some g" for g
    using all_complete[OF ok rec room, of n] that content_headed[OF _ that] by (auto simp: complete_def)
  with f have "st_files s' \<noteq> st_files s" by metis
  with failed_rotation_sealed[OF ok run] have "\<forall>q \<in> set (cat_ranges (st_catalog s')). rng_sealed q" by simp
  then have "unsealed_count (cat_ranges (st_catalog s')) \<noteq> 1"
    by (simp add: unsealed_count_def filter_empty_conv[THEN iffD2])
  moreover have "db_view (st_catalog s') = committed (st_catalog s')"
    using rotate_partition_inv[OF cx inv room now run(1)] log_okD(3)[of cx s']
    by (simp add: stream_inv_def idle_def db_view_def)
  ultimately have count: "unsealed_count (cat_ranges (fresh_db (committed (st_catalog s')))) \<noteq> 1"
    by (simp add: cat_ranges_def db_view_def fresh_db_def)
  have M: "catalog_migrated cx (st_catalog_migrations s')" using rotate_files[OF run(1)] mig by simp
  obtain items where items: "rb_listing (op_rebuild oe) = DirEntries items" "n \<in> set (listed items)"
    using oe(2) f(1) by (auto simp: lists_files_def)
  have disk: "map_of (dk_files (disk_of s')) n = Some (f\<lparr>pending := None\<rparr>)" "headless (f\<lparr>pending := None\<rparr>)"
    using f by (simp_all add: disk_of_def map_of_map headless_def)
  from headless_open[OF oe(1) M count disk items]
  show ?thesis by (simp add: disk_of_def)
qed

end
