(* ===== verification/StreamHistory.thy ===== *)
theory StreamHistory
  imports HalfCreated
begin

section \<open>Restart, recovery and the histories of a stream\<close>

text \<open>
  \<open>reachable\<close> puts the operations of a stream together: from an empty directory, through appends
  that succeed or fail, the rotations on their way, and restarts with or without a rebuild of the
  catalog, also after an append that was cut off. Its second argument is the list of events that
  were acknowledged. Its rules say under which conditions: one handle on the directory, clocks that
  do not go back behind the active window, windows that start on a label (\<open>context_ok\<close>), an append
  that meets an unsealed active file or a due rotation, opens without a fault, and, after a failed
  \<open>ROLLBACK\<close> or a panic, a restart before the next operation. \<open>StreamFindings\<close> has what happens
  outside them.
\<close>

subsection \<open>Restart\<close>

text \<open>
  C12: a restart keeps the log. A stream stopped with an unsealed active file opens again, the
  invariant and the log as they were.
\<close>

theorem reopen_keeps_log:
  assumes "context_ok cx" "stream_inv cx s" "catalog_migrated cx (st_catalog_migrations s)" "in_i64 (log_end cx s + 1)"
    and "open_ok oe" "unsealed s"
  shows "\<exists>s' d. open_partitioned cx oe (disk_of s) = (Ok s', d) \<and> stream_inv cx s' \<and> unsealed s' \<and>
    log_rows cx s' = log_rows cx s \<and> st_catalog_migrations s' = st_catalog_migrations s \<and>
    map_of (st_files s') = map_of (st_files s)"
  by (rule open_stopped[OF assms(1-5)]) (use assms(6) in simp)

theorem reopen_keeps_log_witness:
  "\<exists>s' d. open_partitioned sample_context sample_open (disk_of sample_stream) = (Ok s', d) \<and>
     unsealed s' \<and> log_rows sample_context s' = []"
  using reopen_keeps_log[OF sample_context_ok sample_stream_facts(1,5) sample_room sample_open_ok(1) sample_stream_facts(2)]
  by (metis sample_stream_facts(3))

text \<open>
  C13: a store opened in an empty directory is an empty stream in the window of the clock, with one
  unsealed file, and it can be reopened from then on.
\<close>

theorem open_new_store:
  assumes "context_ok cx" "open_ok oe" "lists_nothing oe" "0 \<le> clock_ms (nw_nanos (op_new oe))"
    and "floor_to_window_ms (clock_ms (nw_nanos (op_new oe))) (cx_window cx) = Ok start"
    and "generate_partition_name (cx_time cx) start (cx_window cx) None = Ok n"
  shows "\<exists>s d. open_partitioned cx oe \<lparr>dk_catalog = None, dk_files = []\<rparr> = (Ok s, d) \<and> stream_inv cx s \<and> unsealed s \<and>
    log_rows cx s = [] \<and> recoverable cx s \<and> catalog_migrated cx (st_catalog_migrations s) \<and>
    st_active s = \<lparr>act_name = n, act_start_ms = start, act_ordinal = None\<rparr> \<and> fst ` set (st_files s) = {n}"
  by (rule open_new[OF assms])

lemma sample_window:
  "0 \<le> clock_ms (nw_nanos (op_new sample_open))"
  "floor_to_window_ms (clock_ms (nw_nanos (op_new sample_open))) (cx_window sample_context) = Ok 1727884800000"
  "generate_partition_name (cx_time sample_context) 1727884800000 (cx_window sample_context) None = Ok ''events_20241002T16.db''"
  by code_simp+

theorem open_new_store_witness:
  "\<exists>s d. open_partitioned sample_context sample_open \<lparr>dk_catalog = None, dk_files = []\<rparr> = (Ok s, d) \<and>
     stream_inv sample_context s \<and> act_name (st_active s) = ''events_20241002T16.db''"
  using open_new_store[OF sample_context_ok sample_open_ok sample_window] by fastforce

subsection \<open>Recovery\<close>

lemma recovery:
  assumes cx: "context_ok cx" and inv: "stream_inv cx s" and rec: "recoverable cx s"
    and mig: "catalog_migrated cx (st_catalog_migrations s)" and room: "in_i64 (log_end cx s + 1)"
    and now: "act_start_ms (st_active s) \<le> now" "in_i64 now"
    and run: "rotate_partition cx re now s = (r, s')" "r \<noteq> Ok ()"
    and oe: "open_ok oe" "lists_files oe (st_files s')"
    and whole: "\<not> (\<exists>n f. map_of (st_files s') n = Some f \<and> headless f)"
  shows "\<exists>s2 d. open_partitioned cx oe (disk_of s') = (Ok s2, d) \<and> stream_inv cx s2 \<and> unsealed s2 \<and>
    log_rows cx s2 = log_rows cx s"
proof -
  have R: "stream_inv cx s'" "log_rows cx s' = log_rows cx s"
    using rotate_partition_inv[OF cx inv room now run(1)] by simp_all
  have M: "st_catalog_migrations s' = st_catalog_migrations s" using rotate_files[OF run(1)] by simp
  have "log_end cx s' = log_end cx s" using R(2) by (simp add: log_end_def)
  moreover have "recoverable cx s'" using failed_rotation_leaves[OF cx inv rec room now run] whole by blast
  ultimately show ?thesis
    using open_stopped[OF cx R(1) _ _ oe(1), unfolded M, OF mig] room R(2) oe(2) by auto
qed


definition range_insert_fails :: rotation_env where
  "range_insert_fails = quiet_rotation\<lparr>re_range := (\<lambda>_. Some (Db ''disk full''))\<rparr>"

definition reopen_two_files :: open_env where
  "reopen_two_files = sample_open\<lparr>op_rebuild := (op_rebuild sample_open)\<lparr>rb_listing :=
     DirEntries [Entry (Ok True) (Some ''events_20241002T17.db''), Entry (Ok True) (Some ''catalog.db''),
                 Entry (Ok True) (Some ''events_20241002T16.db'')]\<rparr>\<rparr>"

definition head_insert_fails :: rotation_env where
  "head_insert_fails = quiet_rotation\<lparr>re_file := quiet_create\<lparr>ce_head := (\<lambda>_. Some (Db ''disk full''))\<rparr>\<rparr>"

definition two_files :: "stream \<Rightarrow> bool" where
  "two_files s \<longleftrightarrow> map fst (st_files s) = [''events_20241002T16.db'', ''events_20241002T17.db'']"

lemma half_rotation:
  "case rotate_partition sample_context range_insert_fails 1727888400000 sample_stream of
     (Err e, s') \<Rightarrow> two_files s' \<and>
       list_all (\<lambda>(n, f). \<exists>h \<in> set_option (head_table (tables (committed f))). h \<noteq> None) (st_files s')
   | _ \<Rightarrow> False"
  "case rotate_partition sample_context head_insert_fails 1727888400000 sample_stream of
     (Err e, s') \<Rightarrow> two_files s' \<and> head_table (tables (committed (snd (last (st_files s'))))) = Some None
   | _ \<Rightarrow> False"
  by code_simp+

lemma two_files_listed:
  assumes "two_files s"
  shows "lists_files reopen_two_files (st_files s)"
proof -
  have "{n. map_of (st_files s) n \<noteq> None} = fst ` set (st_files s)" by (auto simp: map_of_eq_None_iff)
  also have "\<dots> = set (map fst (st_files s))" by simp
  also have "\<dots> = {''events_20241002T16.db'', ''events_20241002T17.db''}"
    unfolding assms[unfolded two_files_def] by simp
  finally have files: "{n. map_of (st_files s) n \<noteq> None} = {''events_20241002T16.db'', ''events_20241002T17.db''}" .
  have items: "list_all item_ok [Entry (Ok True) (Some ''events_20241002T17.db''), Entry (Ok True) (Some ''catalog.db''),
      Entry (Ok True) (Some ''events_20241002T16.db'')] \<and>
    listed [Entry (Ok True) (Some ''events_20241002T17.db''), Entry (Ok True) (Some ''catalog.db''),
      Entry (Ok True) (Some ''events_20241002T16.db'')] = [''events_20241002T17.db'', ''events_20241002T16.db'']"
    by code_simp
  show ?thesis using items files by (auto simp: lists_files_def reopen_two_files_def)
qed

lemma headed_files: "list_all (\<lambda>(n, f). \<exists>h \<in> set_option (head_table (tables (committed f))). h \<noteq> None) files \<Longrightarrow>
    map_of files n = Some f \<Longrightarrow> \<not> headless f"
  by (drule map_of_SomeD) (auto simp: list_all_iff headless_def)

lemma headless_last:
  assumes "two_files s" "head_table (tables (committed (snd (last (st_files s))))) = Some None"
  shows "\<exists>f. map_of (st_files s) ''events_20241002T17.db'' = Some f \<and> headless f"
  using assms by (auto simp: two_files_def headless_def map_eq_Cons_conv)

lemma reopen_two_files_ok: "open_ok reopen_two_files"
  using sample_open_ok(1) by (simp add: open_ok_def reopen_two_files_def)


subsection \<open>Histories\<close>

lemma maybe_rotate_migrations: "maybe_rotate cx pr s = (r, s') \<Longrightarrow> st_catalog_migrations s' = st_catalog_migrations s"
  by (auto simp: maybe_rotate_def Let_def elim!: sbind_cases split: if_splits dest: rotate_files)

lemma append_migrations:
  assumes "append_events cx env ex events s = (r, s')"
  shows "st_catalog_migrations s' = st_catalog_migrations s"
proof -
  have act: "st_catalog_migrations s2 = st_catalog_migrations s1" if "append_active cx env bt ex events s1 = (q, s2)" for s1 s2 bt q
    using that by (auto simp: append_active_def elim!: sbind_cases split: prod.splits)
  have rot: "st_catalog_migrations s2 = st_catalog_migrations s1"
    if "rotate_until_current_window cx rots now i s1 = (q, s2)" for s1 s2 rots now i q
    using that by (cases rule: rotate_until_cases) (auto dest: rotate_files)
  show ?thesis
    using assms
    by (auto simp: append_events_def Let_def elim!: sbind_cases split: if_splits
        dest!: maybe_rotate_migrations act rot)
qed

inductive reachable ::
  "('j, 'u, 'date, 'dt) stream_context \<Rightarrow> stream \<Rightarrow> ('j, 'u, 'dt) envelope list \<Rightarrow> bool"
  for cx :: "('j, 'u, 'date, 'dt) stream_context" where
  opened: "open_ok oe \<Longrightarrow> lists_nothing oe \<Longrightarrow> 0 \<le> clock_ms (nw_nanos (op_new oe)) \<Longrightarrow>
    floor_to_window_ms (clock_ms (nw_nanos (op_new oe))) (cx_window cx) = Ok start \<Longrightarrow>
    generate_partition_name (cx_time cx) start (cx_window cx) None = Ok n \<Longrightarrow>
    open_partitioned cx oe \<lparr>dk_catalog = None, dk_files = []\<rparr> = (Ok s, d) \<Longrightarrow> reachable cx s []"
| appended: "reachable cx s acked \<Longrightarrow> unsealed s \<or> rotation_due cx (ae_probe env) s \<Longrightarrow>
    in_i64 (log_end cx s + 1) \<Longrightarrow> clock_forward env s \<Longrightarrow> payloads_readable (cx_text cx) events \<Longrightarrow>
    append_events cx env ex events s = (Ok res, s') \<Longrightarrow> reachable cx s' (acked @ res_events res)"
| refused: "reachable cx s acked \<Longrightarrow> unsealed s \<or> rotation_due cx (ae_probe env) s \<Longrightarrow>
    in_i64 (log_end cx s + 1) \<Longrightarrow> clock_forward env s \<Longrightarrow> ae_tx env TxRollback = None \<Longrightarrow>
    append_events cx env ex events s = (Err e, s') \<Longrightarrow> reachable cx s' acked"
| interrupted: "reachable cx s acked \<Longrightarrow> unsealed s \<or> rotation_due cx (ae_probe env) s \<Longrightarrow>
    in_i64 (log_end cx s + 1) \<Longrightarrow> clock_forward env s \<Longrightarrow>
    append_events cx env ex events s = (r, s') \<Longrightarrow> \<not> is_Ok r \<Longrightarrow> open_ok oe \<Longrightarrow>
    unsealed s' \<or> recoverable cx s' \<and> lists_files oe (st_files s') \<Longrightarrow>
    open_partitioned cx oe (disk_of s') = (Ok s2, d) \<Longrightarrow> reachable cx s2 acked"
| restarted: "reachable cx s acked \<Longrightarrow> in_i64 (log_end cx s + 1) \<Longrightarrow> open_ok oe \<Longrightarrow>
    unsealed s \<or> recoverable cx s \<and> lists_files oe (st_files s) \<Longrightarrow>
    open_partitioned cx oe (disk_of s) = (Ok s', d) \<Longrightarrow> reachable cx s' acked"

lemma reachable_inv:
  assumes cx: "context_ok cx" and "reachable cx s acked"
  shows "stream_inv cx s \<and> catalog_migrated cx (st_catalog_migrations s) \<and> stream_log cx s = Ok acked"
  using assms(2)
proof (induction rule: reachable.induct)
  case (opened oe start n s d)
  with open_new[OF cx opened(1-5)] show ?case by (auto simp: stream_log_def)
next
  case (appended s acked env events ex res s')
  have M: "st_catalog_migrations s' = st_catalog_migrations s" by (rule append_migrations[OF appended.hyps(6)])
  show ?case
  proof (cases "events = []")
    case True
    from cx _ appended.hyps(2-4,6) have "stream_inv cx s' \<and> log_rows cx s' = log_rows cx s \<and> res_events res = []"
      by (cases rule: append_events_cases) (use appended.IH True in auto)
    with appended.IH M show ?thesis by (simp add: stream_log_def)
  next
    case False
    from append_extends[OF cx _ appended.hyps(2) _ appended.hyps(3,4,5) False appended.hyps(6)] appended.IH M
    show ?thesis by simp
  qed
next
  case (refused s acked env ex events e s')
  from append_error[OF cx _ refused.hyps(2-6)] append_migrations[OF refused.hyps(6)] refused.IH show ?case by simp
next
  case (interrupted s acked env ex events r s' oe s2 d)
  obtain s1 where s1: "stream_inv cx s1" "log_rows cx s1 = log_rows cx s" "disk_of s' = disk_of s1"
    "st_catalog_migrations s' = st_catalog_migrations s1" "s1 = s' \<or> unsealed s1"
    by (rule append_disk[OF cx _ interrupted.hyps(2-6)]) (use interrupted.IH in auto)
  have "catalog_migrated cx (st_catalog_migrations s1)"
    using append_migrations[OF interrupted.hyps(5)] interrupted.IH s1(4) by simp
  moreover have "in_i64 (log_end cx s1 + 1)" using interrupted.hyps(3) s1(2) by (simp add: log_end_def)
  moreover have "unsealed s1 \<or> recoverable cx s1 \<and> lists_files oe (st_files s1)"
    using interrupted.hyps(8) s1(5) by auto
  ultimately show ?case
    using open_stopped[OF cx s1(1) _ _ interrupted.hyps(7)] interrupted.hyps(9) interrupted.IH s1(2)
    unfolding s1(3) by (auto simp: stream_log_def)
next
  case (restarted s acked oe s' d)
  with open_stopped[OF cx _ _ restarted.hyps(2-4)] show ?case by (auto simp: stream_log_def)
qed

text \<open>
  C1: in every history of \<open>reachable\<close> the log is what was acknowledged. One process, one handle: the
  directory starts empty; appends succeed, fail or are cut off by an error or a panic at any call;
  rotations happen on their way and may fail at any step; the process restarts, with or without a
  rebuild of the catalog. As long as the clock does not fall behind the active window, every window
  starts on a label, an append meets an unsealed file or a due rotation, opens meet no fault, no
  creation of a file is cut short (\<open>recoverable\<close>), and an append whose \<open>ROLLBACK\<close> failed, or which
  panicked, is followed by a restart, the log of the stream is exactly the events returned by the
  successful appends, in order, with the versions \<open>1, 2, ..., n\<close>.
\<close>

theorem reachable_log:
  assumes "context_ok cx" "reachable cx s acked"
  shows "stream_inv cx s \<and> stream_log cx s = Ok acked \<and>
    map (version_get \<circ> env_version) acked = [1 .. int (length acked)]"
  using reachable_inv[OF assms] stream_log_versions[OF stream_inv_log] by blast

theorem reachable_log_witness:
  "\<exists>res s'. append_events sample_context (sample_append 1727884801 (\<lambda>_. None)) NoStream sample_events sample_stream = (Ok res, s') \<and>
     reachable sample_context s' (res_events res) \<and> stream_log sample_context s' = Ok (res_events res)"
proof -
  obtain s d where s: "open_partitioned sample_context sample_open \<lparr>dk_catalog = None, dk_files = []\<rparr> = (Ok s, d)"
    using sample_open_new by (elim exE conjE) (rule that)
  then have s_eq: "sample_stream = s" by (simp add: sample_stream_def)
  from reachable.opened[OF sample_open_ok sample_window s]
  have start: "reachable sample_context sample_stream []" by (simp add: s_eq)
  obtain res s' where run: "append_events sample_context (sample_append 1727884801 (\<lambda>_. None)) NoStream sample_events sample_stream = (Ok res, s')"
    using sample_runs by (metis is_Ok.elims(2) prod.collapse)
  from reachable.appended[OF start _ sample_room sample_clock sample_payloads run]
  have step: "reachable sample_context s' (res_events res)" by (simp add: sample_stream_facts)
  from reachable_log[OF sample_context_ok step] run step show ?thesis by (intro exI conjI) (rule run, rule step, simp)
qed

end
