(* ===== verification/StreamLiveness.thy ===== *)
theory StreamLiveness
  imports StreamHistory
begin

section \<open>Appends that succeed\<close>

text \<open>
  The other theories say what holds when an operation of the stream answers; here it answers with
  success. Without faults, with fresh ids and an expected version that holds, an append commits,
  also when a rotation is due on the way, as long as the clock does not cross a window between the
  rotation and the transaction.
\<close>

subsection \<open>Rotations that succeed\<close>

definition rotation_quiet :: "rotation_env \<Rightarrow> bool" where
  "rotation_quiet re \<longleftrightarrow>
     re_conn re = None \<and> (\<forall>c. re_head re c = None) \<and> (\<forall>c. re_seal re c = None) \<and> create_ok (re_file re) \<and>
     (\<forall>c. re_range re c = None)"

text \<open>The next partition has a name, and no file of that name is there.\<close>

definition rotates_to :: "('j, 'u, 'date, 'dt) stream_context \<Rightarrow> int \<Rightarrow> stream \<Rightarrow> string \<Rightarrow> int \<Rightarrow> nat option \<Rightarrow> bool" where
  "rotates_to cx now s n start ord \<longleftrightarrow>
     determine_new_partition_info cx (act_start_ms (st_active s)) (act_ordinal (st_active s)) now = Ok (n, start, ord) \<and>
     map_of (st_files s) n = None"

lemma connection_of_content:
  "content cr files n = Some x \<Longrightarrow> \<exists>f. get_connection cx None files n = Ok f \<and> map_of files n = Some f \<and> idle f \<and>
     file_content cr (tables (committed f)) = Some x"
  by (auto simp: content_def get_connection_def split: option.splits if_splits)

lemma rotate_succeeds:
  assumes ok: "log_ok cx s" and quiet: "rotation_quiet re" and to: "rotates_to cx now s n start ord"
  shows "\<exists>s'. rotate_partition cx re now s = (Ok (), s') \<and> map_of (st_files s') n \<noteq> None \<and>
    st_active s' = \<lparr>act_name = n, act_start_ms = start, act_ordinal = ord\<rparr> \<and>
    rows_of (cx_text cx) (st_files s') n = []"
proof -
  note Q = quiet[unfolded rotation_quiet_def] and T = to[unfolded rotates_to_def]
  obtain rows where "content (cx_text cx) (st_files s) (act_name (st_active s)) = Some (rows, log_end cx s)"
    by (rule active_content[OF ok])
  from connection_of_content[OF this, of cx] obtain f where f: "get_connection cx None (st_files s) (act_name (st_active s)) = Ok f"
    "idle f" "file_content (cx_text cx) (tables (committed f)) = Some (rows, log_end cx s)"
    by auto
  have head: "read_event_file_append_head (cx_msgs cx) (cx_text cx) (re_head re) (file_view f) = Ok (log_end cx s)"
    using Q f(2) by (simp add: read_head_Ok[OF f(3)])
  have seal: "on_catalog (seal_event_file_range (re_seal re) (act_name (st_active s)) (log_end cx s)) s =
      (Ok (), sealed_state cx s)"
    using Q log_okD(3)[OF ok] by (simp add: on_catalog_def seal_event_file_range_def sealed_state_def)
  have blank: "file_of (st_files s) n = blank_file" using T by (simp add: file_of_def)
  from Q setup_file_succeeds obtain g where
    g: "setup_file (cx_msgs cx) (cx_file_digest cx) (re_file re) (log_end cx s) None blank_file = (Ok (), g)" by blast
  have "open_partition_db (ce_open (re_file re)) n (st_files s) = (Ok (), AList.update n blank_file (st_files s))"
    using Q by (simp add: open_partition_db_def create_ok_def Let_def blank)
  then have create: "create_partition_db cx (re_file re) n (log_end cx s) None (st_files s) =
      (Ok (), AList.update n g (AList.update n blank_file (st_files s)))"
    using Q g by (simp add: create_partition_db_def create_ok_def file_of_update)
  have cat: "on_catalog (create_event_file_range (re_range re) rg) s0 =
      (Ok (), s0\<lparr>st_catalog := db_put (upsert_by col_name (range_to_row rg) (db_view (st_catalog s0))) (st_catalog s0)\<rparr>)"
    for rg s0 using Q by (simp add: on_catalog_def create_event_file_range_def)
  let ?s' = "snd (rotate_partition cx re now s)"
  have run: "rotate_partition cx re now s = (Ok (), ?s')"
    and files: "st_files ?s' = AList.update n g (AList.update n blank_file (st_files s))"
    and active: "st_active ?s' = \<lparr>act_name = n, act_start_ms = start, act_ordinal = ord\<rparr>"
    using Q T f(1) head seal create by (simp_all add: rotate_partition_def on_files_def cat)
  have "content (cx_text cx) (st_files ?s') n = Some ([], log_end cx s)"
    using create_files[OF create] blank vacant_blank by (simp add: files)
  then have "rows_of (cx_text cx) (st_files ?s') n = []" by (simp add: rows_of_def)
  moreover have "map_of (st_files ?s') n \<noteq> None" by (simp add: files update_conv)
  ultimately show ?thesis using run active by blast
qed

subsection \<open>Transactions that succeed\<close>

definition fresh_ids :: "('j, 'u, 'date, 'dt) stream_context \<Rightarrow> 'u append_ids \<Rightarrow> stream \<Rightarrow> bool" where
  "fresh_ids cx ids s \<longleftrightarrow>
     inj (new_id ids) \<and>
     (\<forall>k. uuid_to_string (cx_text cx) (new_id ids k) \<notin>
       ev_id ` set (rows_of (cx_text cx) (st_files s) (act_name (st_active s))))"

lemma append_active_succeeds:
  assumes cx: "context_ok cx" and inv: "stream_inv cx s"
    and quiet: "ae_conn env = None" "\<And>c. ae_tx env c = None" "fresh_ids cx (ae_ids env) s"
    and room: "in_i64 (log_end cx s + int (length events))"
    and events: "events \<noteq> []" "list_all (\<lambda>e. is_Ok (json_to_string (cx_text cx) (ne_payload e))) events"
    and expected: "validate_expected_version_against ex (log_end cx s) = Ok (log_end cx s)"
  shows "\<exists>res s'. append_active cx env bt ex events s = (Ok res, s')"
proof -
  have ok: "log_ok cx s" using inv by (simp add: stream_inv_def)
  obtain rows where rows: "content (cx_text cx) (st_files s) (act_name (st_active s)) = Some (rows, log_end cx s)"
    "int (length rows) \<le> log_end cx s" "map ev_sequence rows = [1 .. int (length rows)]"
    "rows_of (cx_text cx) (st_files s) (act_name (st_active s)) = rows"
    "\<And>x. x \<in> set rows \<Longrightarrow> ev_version x \<le> log_end cx s"
    by (rule active_content[OF ok]) blast
  from connection_of_content[OF rows(1), of cx] obtain f where
    f: "get_connection cx None (st_files s) (act_name (st_active s)) = Ok f" "idle f"
      "file_content (cx_text cx) (tables (committed f)) = Some (rows, log_end cx s)" by auto
  have law: "uuid_law (cx_text cx)" using cx by (simp add: context_ok_def)
  have "is_Ok (fst (append_tx (cx_msgs cx) (cx_text cx) (cx_time cx) (ae_tx env) (ae_ids env) bt ex events f))"
    by (rule append_tx_succeeds[OF quiet(2) f(2,3) law _ _ rows(2) room rows(3) _ events expected])
      (use quiet(3) rows(4,5) in \<open>auto simp: fresh_ids_def\<close>)
  then show ?thesis
    using quiet(1) f(1)
    by (cases "append_tx (cx_msgs cx) (cx_text cx) (cx_time cx) (ae_tx env) (ae_ids env) bt ex events f")
      (auto simp: append_active_def elim: is_OkE)
qed

subsection \<open>The whole append\<close>

text \<open>
  Either no rotation is due and the active partition is the one of the append's clock, or one is,
  it can be made, and both clock readings are in one window.
\<close>

definition settled :: "('j, 'u, 'date, 'dt) stream_context \<Rightarrow> 'u append_env \<Rightarrow> stream \<Rightarrow> bool" where
  "settled cx env s \<longleftrightarrow>
     should_rotate (pr_secs (ae_probe env)) (act_name (st_active s)) (cx_rotation cx)
       (case pr_size (ae_probe env) of None \<Rightarrow> 0 | Some n \<Rightarrow> n) (act_start_ms (st_active s)) = Ok False \<and>
     unsealed s \<and> in_window cx (clock_ms (ae_nanos env)) s"

definition turning :: "('j, 'u, 'date, 'dt) stream_context \<Rightarrow> 'u append_env \<Rightarrow> stream \<Rightarrow> bool" where
  "turning cx env s \<longleftrightarrow>
     rotation_due cx (ae_probe env) s \<and> rotation_quiet (pr_rotation (ae_probe env)) \<and>
     act_start_ms (st_active s) \<le> clock_ms (pr_nanos (ae_probe env)) \<and>
     (\<exists>n start ord. rotates_to cx (clock_ms (pr_nanos (ae_probe env))) s n start ord) \<and>
     floor_to_window_ms (clock_ms (ae_nanos env)) (cx_window cx) =
       floor_to_window_ms (clock_ms (pr_nanos (ae_probe env))) (cx_window cx)"

lemma after_probe:
  assumes cx: "context_ok cx" and inv: "stream_inv cx s" and room: "in_i64 (log_end cx s + 1)"
    and way: "settled cx env s \<or> turning cx env s"
  shows "\<exists>s1. maybe_rotate cx (ae_probe env) s = (Ok (), s1) \<and> stream_inv cx s1 \<and> log_rows cx s1 = log_rows cx s \<and>
    in_window cx (clock_ms (ae_nanos env)) s1 \<and>
    (s1 = s \<or> rows_of (cx_text cx) (st_files s1) (act_name (st_active s1)) = [])"
  using way
proof
  assume "settled cx env s"
  with inv show ?thesis by (simp add: settled_def maybe_rotate_def Let_def)
next
  let ?now = "clock_ms (pr_nanos (ae_probe env))"
  assume T: "turning cx env s"
  then obtain n start ord where to: "rotates_to cx ?now s n start ord" by (auto simp: turning_def)
  have ok: "log_ok cx s" using inv by (simp add: stream_inv_def)
  obtain s1 where s1: "rotate_partition cx (pr_rotation (ae_probe env)) ?now s = (Ok (), s1)"
    "st_active s1 = \<lparr>act_name = n, act_start_ms = start, act_ordinal = ord\<rparr>"
    "rows_of (cx_text cx) (st_files s1) n = []"
    using rotate_succeeds[OF ok _ to] T by (auto simp: turning_def)
  then have "maybe_rotate cx (ae_probe env) s = (Ok (), s1)"
    using T by (simp add: maybe_rotate_def rotation_due_def turning_def Let_def)
  moreover have "stream_inv cx s1 \<and> log_rows cx s1 = log_rows cx s"
    using rotate_partition_inv[OF cx inv room _ in_i64_clock s1(1)] T by (simp add: turning_def)
  moreover have "in_window cx (clock_ms (ae_nanos env)) s1"
    using rotate_partition_in_window[OF s1(1)] T by (simp add: in_window_def turning_def)
  ultimately show ?thesis using s1 by auto
qed

lemma valid_payloads:
  "validate_events cr mx events = Ok () \<Longrightarrow> list_all (\<lambda>e. is_Ok (json_to_string cr (ne_payload e))) events"
  unfolding validate_events_correct by (rule list.pred_mono_strong, assumption) (auto split: res.splits)

text \<open>
  C4: an append succeeds. On a stream under its invariant, a valid batch with fresh ids whose
  expected version holds is committed when no call fails: when no rotation is due and the active
  partition is the one of the clock, and also when a rotation is due (even after an earlier one
  failed half-way) whose target is a new file.
\<close>

theorem append_succeeds:
  assumes "context_ok cx" "stream_inv cx s" "settled cx env s \<or> turning cx env s"
    and "in_i64 (log_end cx s + 1)" "in_i64 (log_end cx s + int (length events))"
    and "ae_conn env = None" "\<forall>c. ae_tx env c = None" "fresh_ids cx (ae_ids env) s"
    and "events \<noteq> []" "validate_events (cx_text cx) MAX_PAYLOAD_BYTES events = Ok ()"
    and "validate_expected_version_against ex (log_end cx s) = Ok (log_end cx s)"
    and "tc_from_nanos (cx_time cx) (clock_ms (ae_nanos env) * 1000000) \<noteq> None"
  shows "\<exists>res s'. append_events cx env ex events s = (Ok res, s')"
proof -
  obtain s1 where s1: "maybe_rotate cx (ae_probe env) s = (Ok (), s1)" "stream_inv cx s1" "log_rows cx s1 = log_rows cx s"
    "in_window cx (clock_ms (ae_nanos env)) s1"
    "s1 = s \<or> rows_of (cx_text cx) (st_files s1) (act_name (st_active s1)) = []"
    using after_probe[OF assms(1,2,4,3)] by blast
  have e: "log_end cx s1 = log_end cx s" using s1(3) by (simp add: log_end_def)
  have ids: "fresh_ids cx (ae_ids env) s1" using s1(5) assms(8) by (auto simp: fresh_ids_def)
  obtain bt where bt: "tc_from_nanos (cx_time cx) (clock_ms (ae_nanos env) * 1000000) = Some bt" using assms(12) by blast
  have "rotate_until_current_window cx (ae_rotations env) (clock_ms (ae_nanos env)) 0 s1 = (Ok (), s1)"
    using s1(4) by (subst rotate_until_current_window.simps) (simp add: in_window_def)
  moreover have "\<exists>res s'. append_active cx env bt ex events s1 = (Ok res, s')"
    by (rule append_active_succeeds[OF assms(1) s1(2) assms(6) _ ids _ assms(9) valid_payloads[OF assms(10)]])
      (use assms(5,7,11) in \<open>simp_all add: e\<close>)
  ultimately show ?thesis
    using s1(1) assms(9,10) bt by (auto simp: append_events_def Let_def ok_or_def)
qed

text \<open>Two hours after the sample stream was opened the append has to rotate first.\<close>

theorem append_succeeds_witness:
  "\<exists>res s'. append_events sample_context (sample_append 1727892001 (\<lambda>_. None)) NoStream sample_events sample_stream = (Ok res, s')"
proof -
  let ?env = "sample_append 1727892001 (\<lambda>_. None)"
  have "rotation_due sample_context (ae_probe ?env) sample_stream" by code_simp
  moreover have "determine_new_partition_info sample_context (act_start_ms (st_active sample_stream))
      (act_ordinal (st_active sample_stream)) (clock_ms (pr_nanos (ae_probe ?env))) =
        Ok (''events_20241002T18.db'', 1727892000000, None) \<and>
      map_of (st_files sample_stream) ''events_20241002T18.db'' = None" by code_simp
  moreover have "floor_to_window_ms (clock_ms (ae_nanos ?env)) (cx_window sample_context) =
       floor_to_window_ms (clock_ms (pr_nanos (ae_probe ?env))) (cx_window sample_context)" by code_simp
  moreover have "1727884800000 \<le> clock_ms (pr_nanos (ae_probe ?env))" by code_simp
  ultimately have "turning sample_context ?env sample_stream"
    by (auto simp: turning_def rotates_to_def rotation_quiet_def sample_append_def sample_probe_def quiet_rotation_def
        create_ok_def quiet_create_def sample_stream_facts)
  then have way: "settled sample_context ?env sample_stream \<or> turning sample_context ?env sample_stream" ..
  have "validate_events (cx_text sample_context) MAX_PAYLOAD_BYTES sample_events = Ok ()" by code_simp
  moreover have "tc_from_nanos (cx_time sample_context) (clock_ms (ae_nanos ?env) * 1000000) \<noteq> None" by code_simp
  moreover have "rows_of (cx_text sample_context) (st_files sample_stream) (act_name (st_active sample_stream)) = []"
    by (simp add: rows_of_def content_def sample_stream_value file_content_def idle_def)
  moreover have "inj (\<lambda>i. ''id-'' @ fmt_nat i)" by (rule injI) simp
  ultimately show ?thesis
    using sample_room
    by (intro append_succeeds[OF sample_context_ok sample_stream_facts(1) way])
      (auto simp: sample_append_def fresh_ids_def sample_events_def log_end_def sample_stream_facts in_i64_def
        validate_expected_Ok)
qed

end
