(* ===== verification/CatalogRebuild.thy ===== *)
theory CatalogRebuild
  imports StreamHistory
begin

section \<open>The catalog is an index of the event files\<close>

text \<open>
  What \<open>rebuild_event_file_ranges\<close> makes of the event files of a stream whose catalog names them
  all: the ranges that catalog had, in its order, whatever the catalog it replaces holds.
\<close>

lemma catalog_order:
  assumes inv: "stream_inv cx s" and open_file: "unsealed s"
    and named: "\<And>n. map_of (st_files s) n \<noteq> None \<Longrightarrow> n \<in> cat_names (st_catalog s)"
    and ns: "distinct ns" "set ns = {n. map_of (st_files s) n \<noteq> None}"
    and srt: "sort_key (file_key (cx_text cx) (st_files s)) ns = xs @ [x]"
  shows "cat_ranges (st_catalog s) = rebuilt_ranges (cx_text cx) (st_files s) xs x"
proof -
  let ?cr = "cx_text cx" and ?files = "st_files s" and ?R = "cat_ranges (st_catalog s)"
  have ok: "log_ok cx s" and nm: "naming cx s" using inv by (simp_all add: stream_inv_def)
  have rec: "recoverable cx s" using named by (simp add: recoverable_def)
  have dist: "distinct (map rng_name ?R)" by (rule distinct_cat_ranges[OF log_okD(3,4)[OF ok]])
  have set: "set ns = rng_name ` set ?R"
    using named catalogued_exists[OF ok] ns(2) by (auto simp: cat_names_ranges)
  have key: "map (file_key ?cr ?files) (map rng_name ?R) = map (\<lambda>r. (rng_first r, rng_name r)) ?R"
    using range_bounds(1)[OF ok] by (simp add: file_key_def)
  have "sorted (map (file_key ?cr ?files) (map rng_name ?R))" by (simp only: key cat_ranges_sorted)
  moreover have "sorted (map (file_key ?cr ?files) (xs @ [x]))" by (metis srt sorted_sort_key)
  moreover have "distinct (xs @ [x])" "set (xs @ [x]) = set ns" using ns(1) by (metis distinct_sort set_sort srt)+
  ultimately have names: "map rng_name ?R = xs @ [x]"
    using dist set by (intro key_order_unique) auto
  then obtain rs q where R: "?R = rs @ [q]" "map rng_name rs = xs" "rng_name q = x"
    by (auto simp: map_eq_append_conv)
  have "x = act_name (st_active s)"
  proof (rule antisym)
    have "x \<in> set ns" using arg_cong[OF srt, of set] by simp
    then show "x \<le> act_name (st_active s)" using nm set by (auto simp: naming_def cat_names_ranges)
    have "act_name (st_active s) \<in> set ns" using active_exists[OF ok] ns(2) by simp
    then show "act_name (st_active s) \<le> x" using last_file(2)[OF ok nm rec ns(2) srt] by simp
  qed
  moreover have "rng_name r \<noteq> x" if "r \<in> set rs" for r
    using that dist R(3) by (auto simp: R(1)) (metis imageI)
  moreover have "\<not> rng_sealed r \<longrightarrow> rng_name r = act_name (st_active s)" if "r \<in> set rs" for r
    using log_okD(2)[OF ok] that R(1) by (simp add: active_inv_def)
  ultimately have sealed: "rng_sealed r" if "r \<in> set rs" for r
    using that by auto
  have q: "\<not> rng_sealed q"
    using open_file sealed unfolding unsealed_def R(1) by auto
  have sound: "range_sound ?cr ?files r" if "r \<in> set ?R" for r
    by (rule log_inv_ranges[OF log_okD(1)[OF ok] that])
  have "r = sealed_of ?cr ?files (rng_name r)" if "r \<in> set rs" for r
    using sealed_as_sealed_of[OF sound sealed[OF that]] that R(1) by simp
  then have "map (sealed_of ?cr ?files) xs = rs"
    unfolding R(2)[symmetric] map_map comp_def by (intro map_idI) simp
  moreover have "q = unsealed_range x (first_of ?cr ?files x)"
  proof -
    have m: "q \<in> set ?R" using R(1) by simp
    from sound[OF m] q have "rng_path q = x" "rng_last q = None"
      using R(3) by (auto elim!: range_soundD)
    moreover have "rng_first q = first_of ?cr ?files x" using range_bounds(1)[OF ok m] R(3) by simp
    ultimately show ?thesis using q R(3) by (cases q) (simp add: unsealed_range_def)
  qed
  ultimately show ?thesis by (simp add: rebuilt_ranges_def R(1))
qed

lemma rebuild_restores:
  assumes cx: "context_ok cx" and inv: "stream_inv cx s" and open_file: "unsealed s" and room: "in_i64 (log_end cx s + 1)"
    and named: "\<And>n. map_of (st_files s) n \<noteq> None \<Longrightarrow> n \<in> cat_names (st_catalog s)"
    and rb: "discover_ok (rb_discover (op_rebuild oe))" "\<And>c. rb_replace (op_rebuild oe) c = None"
    and listing: "lists_files oe (st_files s)" and cat: "idle cat"
  obtains cat' where "rebuild_event_file_ranges cx (op_rebuild oe) (cat, st_files s) =
      (Ok (cat_ranges (st_catalog s)), cat', st_files s)"
    "cat_ranges cat' = cat_ranges (st_catalog s)" "idle cat'"
proof -
  have ok: "log_ok cx s" and nm: "naming cx s" using inv by (simp_all add: stream_inv_def)
  have rec: "recoverable cx s" using named by (simp add: recoverable_def)
  obtain items where items: "rb_listing (op_rebuild oe) = DirEntries items" "list_all item_ok items"
    "distinct (listed items)" "set (listed items) = {n. map_of (st_files s) n \<noteq> None}"
    using listing by (auto simp: lists_files_def)
  have "listed items \<noteq> []" using active_exists[OF ok] items(4) by auto
  then have "sort_key (file_key (cx_text cx) (st_files s)) (listed items) \<noteq> []" by (metis set_empty set_sort)
  then obtain xs x where srt: "sort_key (file_key (cx_text cx) (st_files s)) (listed items) = xs @ [x]" by (metis rev_exhaust)
  note E = catalog_order[OF inv open_file named items(3,4) srt]
  note run = rebuild_run[OF cx ok nm rec room rb items srt cat]
  show thesis
  proof (rule that)
    show "rebuild_event_file_ranges cx (op_rebuild oe) (cat, st_files s) =
        (Ok (cat_ranges (st_catalog s)), fresh_db (map range_to_row (cat_ranges (st_catalog s))), st_files s)"
      using run by (simp add: E)
  qed (simp_all add: cat_ranges_fresh cat_ranges_sorted)
qed

text \<open>
  C10: the catalog is no more than an index of the event files. For a stream with an unsealed
  active file and no uncatalogued ones, a rebuild without a fault, from any listing order and
  whatever the idle catalog it replaces holds (nothing, or damaged ranges), finds exactly the
  ranges the stream's catalog had, sealed as they were, writes them in the order reads use, and
  touches no event file.
\<close>

theorem rebuild_restores_catalog:
  assumes "context_ok cx" "stream_inv cx s" "unsealed s" "in_i64 (log_end cx s + 1)"
    and "\<And>n. map_of (st_files s) n \<noteq> None \<Longrightarrow> n \<in> cat_names (st_catalog s)"
    and "discover_ok (rb_discover (op_rebuild oe))" "\<And>c. rb_replace (op_rebuild oe) c = None"
    and "lists_files oe (st_files s)" "idle cat"
  shows "\<exists>cat'. rebuild_event_file_ranges cx (op_rebuild oe) (cat, st_files s) =
      (Ok (cat_ranges (st_catalog s)), cat', st_files s) \<and>
    cat_ranges cat' = cat_ranges (st_catalog s) \<and> idle cat'"
  using rebuild_restores[OF assms(1-4) _ assms(6-9)] assms(5) by metis

definition rotated_sample :: stream where
  "rotated_sample = snd (rotate_partition sample_context quiet_rotation 1727888400000 sample_stream)"

lemma rotated_sample_facts:
  "two_files rotated_sample" "map col_name (committed (st_catalog rotated_sample)) = map fst (st_files rotated_sample)"
  by code_simp+

lemma rotated_sample_inv:
  "stream_inv sample_context rotated_sample" "unsealed rotated_sample" "log_rows sample_context rotated_sample = []"
proof -
  have "fst (rotate_partition sample_context quiet_rotation 1727888400000 sample_stream) = Ok ()"
    using sample_rotates by (cases "fst (rotate_partition sample_context quiet_rotation 1727888400000 sample_stream)") auto
  then have "rotate_partition sample_context quiet_rotation 1727888400000 sample_stream = (Ok (), rotated_sample)"
    by (metis prod.collapse rotated_sample_def)
  from rotate_partition_inv[OF sample_context_ok sample_stream_facts(1) sample_room _ _ this]
  show "stream_inv sample_context rotated_sample" "unsealed rotated_sample" "log_rows sample_context rotated_sample = []"
    by (simp_all add: sample_stream_facts in_i64_def)
qed

theorem rebuild_restores_catalog_witness:
  "\<exists>cat'. rebuild_event_file_ranges sample_context (op_rebuild reopen_two_files) (fresh_db [], st_files rotated_sample) =
      (Ok (cat_ranges (st_catalog rotated_sample)), cat', st_files rotated_sample)"
proof -
  have named: "n \<in> cat_names (st_catalog rotated_sample)" if "map_of (st_files rotated_sample) n \<noteq> None" for n
  proof -
    have "n \<in> set (map fst (st_files rotated_sample))" using that by (auto simp: map_of_eq_None_iff)
    then have "n \<in> set (map col_name (committed (st_catalog rotated_sample)))" by (simp only: rotated_sample_facts(2))
    moreover have "idle (st_catalog rotated_sample)"
      using log_okD(3)[of sample_context rotated_sample] rotated_sample_inv(1) by (simp add: stream_inv_def)
    ultimately show ?thesis by (simp add: cat_names_def)
  qed
  have "in_i64 (log_end sample_context rotated_sample + 1)" by (simp add: log_end_def rotated_sample_inv(3) in_i64_def)
  from rebuild_restores_catalog[OF sample_context_ok rotated_sample_inv(1,2) this named _ _
      two_files_listed[OF rotated_sample_facts(1)], of "fresh_db []"]
  show ?thesis using reopen_two_files_ok by (auto simp: open_ok_def)
qed

end
