(* ===== verification/StreamTasks.thy ===== *)
theory StreamTasks
  imports StreamHistory
begin

section \<open>Appends of concurrent tasks\<close>

text \<open>
  A stream handle is shared: every task that appends goes through the locked sections of
  \<open>EventStream::append\<close>, and other tasks run between them. Here an append is a small program
  whose steps are those sections: the probe under the read lock, the rotation under the write
  lock, the checks and the clock outside of any lock, the window loop and the transaction. Run
  alone it is \<open>append_events\<close>; \<open>concurrently\<close> interleaves any number of them.
\<close>

subsection \<open>The sections of an append\<close>

datatype ('j, 'u, 'dt) append_point =
    AtProbe
  | AtRotate int
  | AtPrepare
  | AtWindow nat int 'dt
  | AtWindowRotate nat int 'dt
  | AtWrite 'dt
  | Finished "('j, 'u, 'dt) append_result result"

text \<open>Go on at the next point, or finish with the error.\<close>

fun proceed ::
  "('a \<Rightarrow> ('j, 'u, 'dt) append_point) \<Rightarrow> 'a result \<times> stream \<Rightarrow> ('j, 'u, 'dt) append_point \<times> stream" where
  "proceed k (Ok x, s) = (k x, s)"
| "proceed k (Err e, s) = (Finished (Err e), s)"
| "proceed k (Panic m, s) = (Finished (Panic m), s)"

definition append_probe ::
  "('j, 'u, 'date, 'dt) stream_context \<Rightarrow> probe_env \<Rightarrow> stream \<Rightarrow> ('j, 'u, 'dt) append_point \<times> stream" where
  "append_probe cx pr s =
     (let file_size = (case pr_size pr of None \<Rightarrow> 0 | Some n \<Rightarrow> n) in
      proceed (\<lambda>rotate. if \<not> rotate then AtPrepare else AtRotate (clock_ms (pr_nanos pr)))
        (should_rotate (pr_secs pr) (act_name (st_active s)) (cx_rotation cx) file_size (act_start_ms (st_active s)), s))"

definition append_prepare ::
  "('j, 'u, 'date, 'dt) stream_context \<Rightarrow> 'u append_env \<Rightarrow> ('j, 'u) new_event list \<Rightarrow> stream
     \<Rightarrow> ('j, 'u, 'dt) append_point \<times> stream" where
  "append_prepare cx env events s =
     (if events = [] then
        (Finished (Ok \<lparr>res_first_version = version_start, res_last_version = version_start, res_events = []\<rparr>), s)
      else
        (let now_ms = clock_ms (ae_nanos env) in
         proceed (\<lambda>base_time. AtWindow 0 now_ms base_time)
           (rbind (validate_events (cx_text cx) MAX_PAYLOAD_BYTES events) (\<lambda>_.
            ok_or (Time (tc_range_error (cx_time cx))) (tc_from_nanos (cx_time cx) (now_ms * 1000000))), s)))"

fun append_step ::
  "('j, 'u, 'date, 'dt) stream_context \<Rightarrow> 'u append_env \<Rightarrow> expected_version \<Rightarrow> ('j, 'u) new_event list
     \<Rightarrow> ('j, 'u, 'dt) append_point \<times> stream \<Rightarrow> ('j, 'u, 'dt) append_point \<times> stream" where
  "append_step cx env expected events (AtProbe, s) = append_probe cx (ae_probe env) s"
| "append_step cx env expected events (AtRotate now_ms, s) =
     proceed (\<lambda>_. AtPrepare) (rotate_partition cx (pr_rotation (ae_probe env)) now_ms s)"
| "append_step cx env expected events (AtPrepare, s) = append_prepare cx env events s"
| "append_step cx env expected events (AtWindow i now_ms base_time, s) =
     proceed (\<lambda>floored. if floored = act_start_ms (st_active s) then AtWrite base_time else AtWindowRotate i now_ms base_time)
       (floor_to_window_ms now_ms (cx_window cx), s)"
| "append_step cx env expected events (AtWindowRotate i now_ms base_time, s) =
     proceed (\<lambda>_. AtWindow (i + 1) now_ms base_time) (rotate_partition cx (ae_rotations env i) now_ms s)"
| "append_step cx env expected events (AtWrite base_time, s) =
     (case append_active cx env base_time expected events s of (r, s) \<Rightarrow> (Finished r, s))"
| "append_step cx env expected events (Finished r, s) = (Finished r, s)"

lemma Finished_stays [simp]: "(append_step cx env ex events ^^ n) (Finished r, s) = (Finished r, s)"
  by (induction n) (simp_all del: funpow.simps add: funpow_Suc_right)

lemma steps_Suc: "(append_step cx env ex events ^^ Suc n) p = (append_step cx env ex events ^^ n) (append_step cx env ex events p)"
  by (simp del: funpow.simps add: funpow_Suc_right)

lemma proceed_eq: "proceed k p = (case p of (Ok x, s) \<Rightarrow> (k x, s) | (Err e, s) \<Rightarrow> (Finished (Err e), s) | (Panic m, s) \<Rightarrow> (Finished (Panic m), s))"
  by (cases p; cases "fst p") auto

subsection \<open>Alone, the sections are the append\<close>

lemma steps_write:
  "(append_step cx env ex events ^^ Suc n) (AtWrite bt, s) =
     (case append_active cx env bt ex events s of (r, s) \<Rightarrow> (Finished r, s))"
  by (simp only: steps_Suc) (simp split: prod.splits)

text \<open>The window loop and the transaction take at most four sections.\<close>

lemma steps_window:
  assumes "4 \<le> n"
  shows "(append_step cx env ex events ^^ n) (AtWindow i now bt, s) =
    (case sbind (rotate_until_current_window cx (ae_rotations env) now i s) (\<lambda>_ s. append_active cx env bt ex events s) of
       (r, s) \<Rightarrow> (Finished r, s))"
proof -
  obtain m where n: "n = Suc (Suc (Suc (Suc m)))" using le_Suc_ex[OF assms] by (auto simp: eval_nat_numeral)
  show ?thesis
  proof (cases "floor_to_window_ms now (cx_window cx)")
    case (Ok fl)
    show ?thesis
    proof (cases "fl = act_start_ms (st_active s)")
      case True
      then show ?thesis
        using Ok unfolding n
        by (simp only: steps_Suc[where n="Suc (Suc (Suc m))"])
          (simp add: steps_write rotate_until_current_window.simps[of cx _ now i s] del: funpow.simps)
    next
      case False
      obtain r s1 where rot: "rotate_partition cx (ae_rotations env i) now s = (r, s1)"
        by (cases "rotate_partition cx (ae_rotations env i) now s")
      show ?thesis
      proof (cases r)
        case R: (Ok u)
        then have w: "floor_to_window_ms now (cx_window cx) = Ok (act_start_ms (st_active s1))"
          using rot rotate_partition_in_window[of cx "ae_rotations env i" now s u s1] by (simp add: in_window_def)
        show ?thesis
          using Ok False rot R w unfolding n
          by (simp only: steps_Suc[where n="Suc (Suc (Suc m))"] steps_Suc[where n="Suc (Suc m)"] steps_Suc[where n="Suc m"])
            (simp add: steps_write rotate_until_current_window.simps[of cx _ now _ s]
              rotate_until_current_window.simps[of cx _ now _ s1] steps_Suc del: funpow.simps split: prod.splits)
      qed (use Ok False rot in \<open>simp_all only: n steps_Suc[where n="Suc (Suc (Suc m))"] steps_Suc[where n="Suc (Suc m)"]\<close>,
           use Ok False rot in \<open>simp_all add: rotate_until_current_window.simps[of cx _ now i s] del: funpow.simps\<close>)
    qed
  qed (simp_all only: n steps_Suc[where n="Suc (Suc (Suc m))"],
       simp_all add: rotate_until_current_window.simps[of cx _ now i s] del: funpow.simps)
qed

lemma steps_prepare:
  assumes "5 \<le> n"
  shows "(append_step cx env ex events ^^ n) (AtPrepare, s) =
    (case (if events = [] then
             (Ok \<lparr>res_first_version = version_start, res_last_version = version_start, res_events = []\<rparr>, s)
           else
             sbind (validate_events (cx_text cx) MAX_PAYLOAD_BYTES events, s) (\<lambda>_ s.
             (let now_ms = clock_ms (ae_nanos env) in
              sbind (ok_or (Time (tc_range_error (cx_time cx))) (tc_from_nanos (cx_time cx) (now_ms * 1000000)), s)
                (\<lambda>base_time s.
              sbind (rotate_until_current_window cx (ae_rotations env) now_ms 0 s) (\<lambda>_ s.
              append_active cx env base_time ex events s))))) of
       (r, s) \<Rightarrow> (Finished r, s))"
proof -
  obtain m where n: "n = Suc m" "4 \<le> m" using assms by (cases n) auto
  show ?thesis
    unfolding n(1) steps_Suc
    by (cases "validate_events (cx_text cx) MAX_PAYLOAD_BYTES events";
        cases "tc_from_nanos (cx_time cx) (clock_ms (ae_nanos env) * 1000000)")
      (simp_all add: append_prepare_def Let_def ok_or_def steps_window[OF n(2)] del: funpow.simps)
qed

text \<open>
  Run without interference, seven steps of the section program finish with the answer and the
  state of \<open>append_events\<close>, on every input.
\<close>

theorem append_is_its_sections:
  "(append_step cx env ex events ^^ 7) (AtProbe, s) = (case append_events cx env ex events s of (r, s') \<Rightarrow> (Finished r, s'))"
proof -
  have seven: "(7::nat) = Suc 6" "(6::nat) = Suc 5" by simp_all
  let ?size = "case pr_size (ae_probe env) of None \<Rightarrow> 0 | Some n \<Rightarrow> n"
  show ?thesis
  proof (cases "should_rotate (pr_secs (ae_probe env)) (act_name (st_active s)) (cx_rotation cx) ?size (act_start_ms (st_active s))")
    case (Ok rotate)
    show ?thesis
    proof (cases rotate)
      case True
      then show ?thesis
        using Ok unfolding seven steps_Suc
        by (cases "rotate_partition cx (pr_rotation (ae_probe env)) (clock_ms (pr_nanos (ae_probe env))) s"; cases "fst (rotate_partition cx (pr_rotation (ae_probe env)) (clock_ms (pr_nanos (ae_probe env))) s)")
          (simp_all add: append_probe_def Let_def append_events_def maybe_rotate_def steps_prepare del: funpow.simps cong: if_cong)
    next
      case False
      then show ?thesis
        using Ok unfolding seven(1) steps_Suc
        by (simp add: append_probe_def Let_def append_events_def maybe_rotate_def steps_prepare del: funpow.simps cong: if_cong)
    qed
  qed (unfold seven(1) steps_Suc, simp_all add: append_probe_def Let_def append_events_def maybe_rotate_def del: funpow.simps)
qed

subsection \<open>Interleaved, they serialize\<close>

record ('j, 'u, 'dt) append_task =
  tk_env :: "'u append_env"
  tk_expected :: expected_version
  tk_events :: "('j, 'u) new_event list"
  tk_point :: "('j, 'u, 'dt) append_point"

definition task_step ::
  "('j, 'u, 'date, 'dt) stream_context \<Rightarrow> ('j, 'u, 'dt) append_task \<Rightarrow> stream \<Rightarrow> ('j, 'u, 'dt) append_point \<times> stream" where
  "task_step cx t s = append_step cx (tk_env t) (tk_expected t) (tk_events t) (tk_point t, s)"

text \<open>The events a section acknowledges: those of a transaction that committed.\<close>

fun acknowledged :: "('j, 'u, 'dt) append_point \<Rightarrow> ('j, 'u, 'dt) append_point \<Rightarrow> ('j, 'u, 'dt) envelope list" where
  "acknowledged (AtWrite base_time) (Finished (Ok res)) = res_events res"
| "acknowledged p q = []"

text \<open>
  What a section needs of the moment it runs: a rotation does not go back to an earlier window, and
  a transaction does not run on a file sealed by a rotation that failed in between. Theory
  \<open>StreamFindings\<close> shows what happens otherwise.
\<close>

definition timely :: "('j, 'u, 'dt) append_task \<Rightarrow> stream \<Rightarrow> bool" where
  "timely t s \<longleftrightarrow>
     (case tk_point t of
        AtRotate now \<Rightarrow> act_start_ms (st_active s) \<le> now
      | AtWindowRotate i now bt \<Rightarrow> act_start_ms (st_active s) \<le> now
      | AtWrite bt \<Rightarrow> unsealed s
      | _ \<Rightarrow> True)"

definition panicked :: "('j, 'u, 'dt) append_point \<Rightarrow> bool" where
  "panicked p \<longleftrightarrow> (case p of Finished (Panic m) \<Rightarrow> True | _ \<Rightarrow> False)"

inductive concurrently ::
  "('j, 'u, 'date, 'dt) stream_context \<Rightarrow> ('j, 'u, 'dt) append_task list \<Rightarrow> stream \<Rightarrow> ('j, 'u, 'dt) envelope list \<Rightarrow> bool"
  for cx :: "('j, 'u, 'date, 'dt) stream_context" where
  begun: "reachable cx s acked \<Longrightarrow> concurrently cx [] s acked"
| spawned: "concurrently cx ts s acked \<Longrightarrow> payloads_readable (cx_text cx) (tk_events t) \<Longrightarrow>
    ae_tx (tk_env t) TxRollback = None \<Longrightarrow> tk_point t = AtProbe \<Longrightarrow> concurrently cx (ts @ [t]) s acked"
| stepped: "concurrently cx (ts @ t # us) s acked \<Longrightarrow> in_i64 (log_end cx s + 1) \<Longrightarrow> timely t s \<Longrightarrow>
    task_step cx t s = (p, s') \<Longrightarrow> \<not> panicked p \<Longrightarrow>
    concurrently cx (ts @ t\<lparr>tk_point := p\<rparr> # us) s' (acked @ acknowledged (tk_point t) p)"

text \<open>What is known of a task at each of its points.\<close>

definition clocked :: "('j, 'u, 'date, 'dt) stream_context \<Rightarrow> int \<Rightarrow> 'dt \<Rightarrow> bool" where
  "clocked cx now bt \<longleftrightarrow> in_i64 now \<and> tc_from_nanos (cx_time cx) (now * 1000000) = Some bt"

definition task_ok ::
  "('j, 'u, 'date, 'dt) stream_context \<Rightarrow> ('j, 'u, 'dt) envelope list \<Rightarrow> ('j, 'u, 'dt) append_task \<Rightarrow> bool" where
  "task_ok cx acked t \<longleftrightarrow>
     payloads_readable (cx_text cx) (tk_events t) \<and> ae_tx (tk_env t) TxRollback = None \<and>
     (case tk_point t of
        AtRotate now \<Rightarrow> in_i64 now
      | AtWindow i now bt \<Rightarrow> clocked cx now bt \<and> tk_events t \<noteq> []
      | AtWindowRotate i now bt \<Rightarrow> clocked cx now bt \<and> tk_events t \<noteq> []
      | AtWrite bt \<Rightarrow> (\<exists>now. clocked cx now bt) \<and> tk_events t \<noteq> []
      | Finished (Ok res) \<Rightarrow> list_all2 carries (tk_events t) (res_events res) \<and> sublist (res_events res) acked
      | _ \<Rightarrow> True)"

lemma task_ok_extend: "task_ok cx acked t \<Longrightarrow> task_ok cx (acked @ later) t"
  by (auto simp: task_ok_def sublist_append split: append_point.splits res.splits)

lemma acknowledged_Finished [simp]: "acknowledged (Finished r) q = []"
  by simp

lemma rotation_section:
  assumes "context_ok cx" "stream_inv cx s" "stream_log cx s = Ok acked" "in_i64 (log_end cx s + 1)"
    and "act_start_ms (st_active s) \<le> now" "in_i64 now" "proceed k (rotate_partition cx re now s) = (p, s')"
  shows "stream_inv cx s' \<and> stream_log cx s' = Ok acked \<and> (p = k () \<or> (\<exists>e. p = Finished (Err e)) \<or> panicked p)"
proof -
  obtain r s1 where run: "rotate_partition cx re now s = (r, s1)" by (cases "rotate_partition cx re now s")
  with rotate_partition_inv[OF assms(1,2,4,5,6) run] assms(3,7) show ?thesis
    by (cases r) (auto simp: stream_log_def panicked_def)
qed

lemma write_section:
  assumes "context_ok cx" "stream_inv cx s" "unsealed s" "stream_log cx s = Ok acked" "in_i64 (log_end cx s + 1)"
    and "clocked cx now bt" "payloads_readable (cx_text cx) events" "events \<noteq> []" "ae_tx env TxRollback = None"
    and "append_active cx env bt ex events s = (r, s')" "\<not> panicked (Finished r)"
  shows "stream_inv cx s' \<and> stream_log cx s' = Ok (acked @ acknowledged (AtWrite bt) (Finished r)) \<and>
    (\<forall>res. r = Ok res \<longrightarrow> list_all2 carries events (res_events res))"
proof (cases r)
  case (Ok res)
  have "in_i64 (log_end cx s)" using assms(5) by (simp add: log_end_def in_i64_def)
  moreover have "in_i64 now" "tc_from_nanos (cx_time cx) (now * 1000000) = Some bt" using assms(6) by (simp_all add: clocked_def)
  ultimately have C: "stream_inv cx s'" "stream_log cx s' = Ok (acked @ res_events res)"
    "\<exists>sq. res_events res = envelopes_from (ae_ids env) bt (log_end cx s) sq 0 events"
    using append_active_commits[OF assms(1-4) _ _ _ assms(7) assms(10)[unfolded Ok]] by blast+
  then show ?thesis using Ok envelopes_carry by auto
next
  case (Err e)
  have "log_ok cx s" using assms(2) by (simp add: stream_inv_def)
  from append_active_fails[OF this assms(9,8) assms(10)[unfolded Err]] assms(2,4) Err show ?thesis by simp
qed (use assms(11) in \<open>simp add: panicked_def\<close>)

lemma task_step_ok:
  assumes cx: "context_ok cx" and inv: "stream_inv cx s" and log: "stream_log cx s = Ok acked" and t: "task_ok cx acked t"
    and room: "in_i64 (log_end cx s + 1)" and timely: "timely t s"
    and run: "task_step cx t s = (p, s')" and calm: "\<not> panicked p"
  shows "stream_inv cx s' \<and> stream_log cx s' = Ok (acked @ acknowledged (tk_point t) p) \<and>
    task_ok cx (acked @ acknowledged (tk_point t) p) (t\<lparr>tk_point := p\<rparr>)"
proof (cases "tk_point t")
  case AtProbe
  with inv log t run calm show ?thesis
    by (auto simp: task_step_def append_probe_def Let_def proceed_eq task_ok_def panicked_def split: res.splits)
next
  case (AtRotate now)
  have "act_start_ms (st_active s) \<le> now" "in_i64 now"
    "proceed (\<lambda>_. AtPrepare) (rotate_partition cx (pr_rotation (ae_probe (tk_env t))) now s) = (p, s')"
    using AtRotate timely t run by (simp_all add: timely_def task_ok_def task_step_def)
  from rotation_section[OF cx inv log room this] t calm AtRotate show ?thesis by (auto simp: task_ok_def)
next
  case AtPrepare
  with inv log t run calm show ?thesis
    by (auto simp: task_step_def append_prepare_def Let_def proceed_eq task_ok_def panicked_def clocked_def res_simps
        ok_or_def split: res.splits if_splits option.splits)
next
  case (AtWindow i now bt)
  with inv log t run calm show ?thesis
    by (auto simp: task_step_def proceed_eq task_ok_def panicked_def split: res.splits if_splits)
next
  case (AtWindowRotate i now bt)
  have "act_start_ms (st_active s) \<le> now" "in_i64 now"
    "proceed (\<lambda>_. AtWindow (i + 1) now bt) (rotate_partition cx (ae_rotations (tk_env t) i) now s) = (p, s')"
    using AtWindowRotate timely t run by (simp_all add: timely_def task_ok_def clocked_def task_step_def)
  from rotation_section[OF cx inv log room this] t calm AtWindowRotate show ?thesis by (auto simp: task_ok_def)
next
  case (AtWrite bt)
  obtain r where r: "append_active cx (tk_env t) bt (tk_expected t) (tk_events t) s = (r, s')" "p = Finished r"
    using AtWrite run by (auto simp: task_step_def split: prod.splits)
  have T: "unsealed s" "tk_events t \<noteq> []" "payloads_readable (cx_text cx) (tk_events t)" "ae_tx (tk_env t) TxRollback = None"
    and clk: "\<exists>now. clocked cx now bt"
    using AtWrite timely t by (simp_all add: timely_def task_ok_def)
  from clk obtain now where now: "clocked cx now bt" ..
  note W = write_section[OF cx inv T(1) log room now T(3,2,4) r(1) calm[unfolded r(2)]]
  have "task_ok cx (acked @ acknowledged (AtWrite bt) (Finished r)) (t\<lparr>tk_point := Finished r\<rparr>)"
    using W T by (cases r) (auto simp: task_ok_def sublist_append)
  with W AtWrite r(2) show ?thesis by simp
next
  case (Finished r)
  then have p: "p = Finished r" "s' = s" using run by (simp_all add: task_step_def)
  with inv log t Finished show ?thesis by (simp add: task_ok_def split: res.splits)
qed

lemma concurrently_inv:
  assumes cx: "context_ok cx" and "concurrently cx ts s acked"
  shows "stream_inv cx s \<and> stream_log cx s = Ok acked \<and> (\<forall>t \<in> set ts. task_ok cx acked t)"
  using assms(2)
proof (induction rule: concurrently.induct)
  case (begun s acked)
  with reachable_inv[OF cx begun] show ?case by simp
next
  case (spawned ts s acked t)
  then show ?case by (auto simp: task_ok_def)
next
  case (stepped ts t us s acked p s')
  then have "stream_inv cx s" "stream_log cx s = Ok acked" "task_ok cx acked t" by simp_all
  from task_step_ok[OF cx this stepped.hyps(2-5)] stepped.IH show ?case by (auto intro: task_ok_extend)
qed

text \<open>
  C2: concurrent appends serialize, while no clock runs behind. However the locked sections of any
  number of appends on one handle interleave, after any history of \<open>reachable\<close>: as long as no
  rotation goes back in time and no transaction meets a file that a failed rotation has sealed
  (\<open>timely\<close>), every \<open>ROLLBACK\<close> is carried out and no section panics, the log is what was
  acknowledged, in the order of the commits, with the versions \<open>1, 2, ..., n\<close>; and the events of
  every append that answered success are one contiguous block of it, carrying that caller's data.
  The first two conditions are not luxury: \<open>StreamFindings\<close> shows what happens without them.
\<close>

theorem concurrent_appends_serialize:
  assumes "context_ok cx" "concurrently cx ts s acked"
  shows "stream_log cx s = Ok acked \<and> map (version_get \<circ> env_version) acked = [1 .. int (length acked)] \<and>
    (\<forall>t res. t \<in> set ts \<and> tk_point t = Finished (Ok res) \<longrightarrow>
       list_all2 carries (tk_events t) (res_events res) \<and> sublist (res_events res) acked)"
proof -
  note I = concurrently_inv[OF assms]
  moreover have "map (version_get \<circ> env_version) acked = [1 .. int (length acked)]"
    using I stream_log_versions[OF stream_inv_log] by blast
  ultimately show ?thesis by (auto simp: task_ok_def split: append_point.splits res.splits)
qed

definition first_task :: "(string, string, int) append_task" where
  "first_task =
     \<lparr>tk_env = sample_append 1727884801 (\<lambda>_. None), tk_expected = AnyVersion, tk_events = sample_events, tk_point = AtProbe\<rparr>"

definition second_task :: "(string, string, int) append_task" where
  "second_task =
     \<lparr>tk_env = sample_append 1727884802 (\<lambda>_. None), tk_expected = NoStream, tk_events = [sample_event ''A''], tk_point = AtProbe\<rparr>"

lemma sample_sections:
  "task_step sample_context first_task sample_stream = (AtPrepare, sample_stream)"
  "task_step sample_context (first_task\<lparr>tk_point := AtPrepare\<rparr>) sample_stream = (AtWindow 0 1727884801234 1727884801234000000, sample_stream)"
  "task_step sample_context (first_task\<lparr>tk_point := AtWindow 0 1727884801234 1727884801234000000\<rparr>) sample_stream =
     (AtWrite 1727884801234000000, sample_stream)"
  "task_step sample_context second_task sample_stream = (AtPrepare, sample_stream)"
  by code_simp+

lemma sample_write:
  "case task_step sample_context (first_task\<lparr>tk_point := AtWrite 1727884801234000000\<rparr>) sample_stream of
     (Finished (Ok res), s) \<Rightarrow> True | _ \<Rightarrow> False"
  by code_simp

theorem concurrent_appends_serialize_witness:
  "\<exists>res s'. concurrently sample_context
       [first_task\<lparr>tk_point := Finished (Ok res)\<rparr>, second_task\<lparr>tk_point := AtPrepare\<rparr>] s' (res_events res) \<and>
     stream_log sample_context s' = Ok (res_events res) \<and> list_all2 carries sample_events (res_events res)"
proof -
  let ?cx = sample_context and ?s = sample_stream
  let ?A = "\<lambda>p. first_task\<lparr>tk_point := p\<rparr>" and ?B = "\<lambda>p. second_task\<lparr>tk_point := p\<rparr>"
  let ?bt = "1727884801234000000 :: int"
  obtain s d where s: "open_partitioned sample_context sample_open \<lparr>dk_catalog = None, dk_files = []\<rparr> = (Ok s, d)"
    using sample_open_new by (elim exE conjE) (rule that)
  then have s_eq: "sample_stream = s" by (simp add: sample_stream_def)
  from concurrently.begun[OF reachable.opened[OF sample_open_ok sample_window s]]
  have "concurrently ?cx [] ?s []" by (simp add: s_eq)
  from concurrently.spawned[OF this, of first_task] have "concurrently ?cx [first_task] ?s []"
    using sample_payloads by (simp add: first_task_def sample_append_def)
  moreover have "payloads_readable (cx_text sample_context) [sample_event ''A'']" by code_simp
  ultimately have start: "concurrently ?cx [first_task, second_task] ?s []"
    using concurrently.spawned[of ?cx "[first_task]" ?s "[]" second_task] by (simp add: second_task_def sample_append_def)
  note step = concurrently.stepped[OF _ sample_room, of "[]" _ "[_]" "[]", simplified]
  note step2 = concurrently.stepped[OF _ sample_room, of "[_]" _ "[]" "[]", simplified]
  have "concurrently ?cx [?A AtPrepare, second_task] ?s []"
    using step[OF start _ sample_sections(1)] by (simp add: timely_def first_task_def panicked_def)
  from step[OF this _ sample_sections(2)]
  have "concurrently ?cx [?A (AtWindow 0 1727884801234 ?bt), second_task] ?s []"
    by (simp add: timely_def first_task_def panicked_def)
  from step2[OF this _ sample_sections(4)]
  have "concurrently ?cx [?A (AtWindow 0 1727884801234 ?bt), ?B AtPrepare] ?s []"
    by (simp add: timely_def first_task_def second_task_def panicked_def)
  from step[OF this _ sample_sections(3)]
  have ready: "concurrently ?cx [?A (AtWrite ?bt), ?B AtPrepare] ?s []"
    by (simp add: timely_def first_task_def panicked_def)
  obtain res s' where "task_step ?cx (?A (AtWrite ?bt)) ?s = (Finished (Ok res), s')"
    using sample_write by (auto split: prod.splits append_point.splits res.splits)
  from step[OF ready _ this] have fin: "concurrently ?cx [?A (Finished (Ok res)), ?B AtPrepare] s' (res_events res)"
    by (simp add: timely_def first_task_def panicked_def sample_stream_facts)
  note S = concurrent_appends_serialize[OF sample_context_ok this]
  from S have "list_all2 carries (tk_events (?A (Finished (Ok res)))) (res_events res)"
    by (elim conjE) (drule spec[of _ "?A (Finished (Ok res))"], simp)
  with fin S show ?thesis by (intro exI[of _ res] exI[of _ s']) (simp add: first_task_def)
qed

end
