(* ===== verification/StaleRotation.thy ===== *)
theory StaleRotation
  imports StreamReach
begin

section \<open>Rotations that reach an existing file\<close>

text \<open>
  A rotation names its file by the window of the clock and does not look whether the file is
  there. Reached by a clock behind the active window or from a stale handle, \<open>create_partition_db\<close>
  finds the file with its events, puts its head to the version the rotation has read, and the
  catalog's upsert moves the file's range to the end of the log.
\<close>

subsection \<open>What such a rotation leaves\<close>

lemma content_head:
  assumes "content cr files n = Some (rows, h)"
    and "rbind (get_connection cx flt files n) (\<lambda>f. read_event_file_append_head tm cr hf (file_view f)) = Ok v"
  shows "v = h"
proof -
  obtain f where f: "get_connection cx flt files n = Ok f" "read_event_file_append_head tm cr hf (file_view f) = Ok v"
    using assms(2) by (auto simp: res_simps)
  then have "idle f" "file_content cr (tables (committed f)) = Some (rows, h)"
    using assms(1) by (auto simp: get_connection_def content_def split: option.splits if_splits)
  with f show ?thesis using read_head_unique by fastforce
qed

lemma create_existing:
  assumes run: "create_partition_db cx ce n v None files = (Ok (), files')"
    and old: "content (cx_text cx) files n = Some (rows, h)"
  shows "(\<forall>m. m \<noteq> n \<longrightarrow> map_of files' m = map_of files m) \<and> content (cx_text cx) files' n = Some (rows, v)"
proof -
  have f: "idle (file_of files n)" "file_content (cx_text cx) (tables (committed (file_of files n))) = Some (rows, h)"
    using old by (auto simp: content_def file_of_def split: option.splits if_splits)
  obtain f' where "setup_file (cx_msgs cx) (cx_file_digest cx) ce v None (file_of files n) = (Ok (), f')"
    "files' = AList.update n f' (AList.update n (file_of files n) files)"
    using run
    by (cases "setup_file (cx_msgs cx) (cx_file_digest cx) ce v None (file_of files n)")
      (auto simp: create_partition_db_def open_partition_db_def Let_def file_of_update split: option.splits)
  with setup_existing[OF _ f] show ?thesis by (auto simp: content_def update_conv)
qed

definition moved_range :: "string \<Rightarrow> int \<Rightarrow> string \<Rightarrow> catalog \<Rightarrow> catalog" where
  "moved_range a h n cat =
     cat\<lparr>committed := upsert_by col_name (range_to_row (unsealed_range n (wrap64 (h + 1)))) (seal_rows a h (committed cat))\<rparr>"

lemma rotate_onto:
  assumes run: "rotate_partition cx re now s = (Ok (), s')" and cat: "idle (st_catalog s)"
    and act: "content (cx_text cx) (st_files s) (act_name (st_active s)) = Some (rows_a, h)"
    and old: "content (cx_text cx) (st_files s) (act_name (st_active s')) = Some (rows, h0)"
  shows "st_catalog s' = moved_range (act_name (st_active s)) h (act_name (st_active s')) (st_catalog s)"
    and "\<forall>m. m \<noteq> act_name (st_active s') \<longrightarrow> map_of (st_files s') m = map_of (st_files s) m"
    and "content (cx_text cx) (st_files s') (act_name (st_active s')) = Some (rows, h)"
proof -
  have "st_catalog s' = moved_range (act_name (st_active s)) h (act_name (st_active s')) (st_catalog s) \<and>
    (\<exists>ce. create_partition_db cx ce (act_name (st_active s')) h None (st_files s) = (Ok (), st_files s'))"
    using run unfolding rotate_partition_def
  proof (cases rule: sbind_cases)
    case (Ok info s0)
    obtain n start ord where info: "info = (n, start, ord)" and s0: "s0 = s" using Ok(1) by (cases info) auto
    from Ok(2)[unfolded info prod.case s0] show ?thesis
    proof (cases rule: sbind_cases)
      case (Ok v s1)
      then have v: "v = h" "s1 = s" using content_head[OF act] by auto
      from Ok(2)[unfolded v] show ?thesis
      proof (cases rule: sbind_cases)
        case (Ok u s2)
        then have s2: "s2 = s\<lparr>st_catalog := (st_catalog s)\<lparr>committed := seal_rows (act_name (st_active s)) h (committed (st_catalog s))\<rparr>\<rparr>"
          using seal_outcome cat by (fastforce simp: on_catalog_def split: prod.splits)
        from Ok(2) show ?thesis
        proof (cases rule: sbind_cases)
          case (Ok u' s3)
          then obtain files' where files': "create_partition_db cx (re_file re) n h None (st_files s) = (Ok (), files')"
            "s3 = s2\<lparr>st_files := files'\<rparr>"
            by (auto simp: on_files_def s2 split: prod.splits)
          from Ok(2) show ?thesis
          proof (cases rule: sbind_cases)
            case (Ok u'' s4)
            have "idle (st_catalog s3)" using cat by (simp add: files'(2) s2)
            with Ok(1) have "st_catalog s4 = (st_catalog s3)\<lparr>committed :=
                upsert_by col_name (range_to_row (unsealed_range n (wrap64 (h + 1)))) (committed (st_catalog s3))\<rparr> \<and>
              st_files s4 = st_files s3"
              using create_outcome by (fastforce simp: on_catalog_def split: prod.splits)
            with Ok(2) files' show ?thesis by (auto simp: moved_range_def s2)
          qed simp
        qed simp
      qed simp
    qed simp
  qed simp
  with create_existing[OF _ old]
  show "st_catalog s' = moved_range (act_name (st_active s)) h (act_name (st_active s')) (st_catalog s)"
    "\<forall>m. m \<noteq> act_name (st_active s') \<longrightarrow> map_of (st_files s') m = map_of (st_files s) m"
    "content (cx_text cx) (st_files s') (act_name (st_active s')) = Some (rows, h)"
    by blast+
qed

subsection \<open>A head behind the events\<close>

lemma insert_loop_taken:
  assumes "\<exists>x \<in> set rows. ev_version x = h + 1" "in_i64 (h + 1)" "events \<noteq> []"
  shows "\<not> is_Ok (fst (insert_loop tm cr tc flt ids bt h sq 0 events rows))"
proof -
  obtain e es where es: "events = e # es" using assms(3) by (cases events) auto
  obtain x where x: "x \<in> set rows" "ev_version x = h + 1" using assms(1) by blast
  have v: "wrap64 (wrap64 (h + 1) + wrap64 (int 0)) = h + 1" using assms(2) by (simp add: in_i64_def)
  have "\<not> is_Ok (rbind (row_of_envelope cr tc (envelope_of ids bt 0 (EventStreamVersion (h + 1)) q e))
      (\<lambda>r. insert_event_row tm flt 0 r rows))" for q
  proof (cases "row_of_envelope cr tc (envelope_of ids bt 0 (EventStreamVersion (h + 1)) q e)")
    case (Ok r)
    then have "ev_version r = h + 1" using row_of_envelope_fields[OF Ok] by simp
    then have "ev_version r \<in> ev_version ` set rows" using x by (metis imageI)
    with Ok show ?thesis by (auto simp: insert_event_row_def split: option.splits)
  qed simp_all
  from this[of "wrap64 (wrap64 (sq + 1) + wrap64 (int 0))"] show ?thesis
    unfolding es insert_loop.simps v by (auto simp: version_new_def Let_def split: res.splits)
qed

lemma behind_append_fails:
  assumes c: "content (cx_text cx) (st_files s) (act_name (st_active s)) = Some (rows, h)"
    and taken: "\<exists>x \<in> set rows. ev_version x = h + 1" "in_i64 (h + 1)" and ne: "events \<noteq> []"
    and run: "append_active cx env bt ex events s = (r, s')"
  shows "\<not> is_Ok r" and "(\<exists>e. r = Err e) \<and> ae_tx env TxRollback = None \<Longrightarrow> s' = s"
proof -
  show "\<not> is_Ok r"
  proof
    assume "is_Ok r"
    then obtain res where "r = Ok res" by (auto elim: is_OkE)
    with run obtain f f' where f: "get_connection cx (ae_conn env) (st_files s) (act_name (st_active s)) = Ok f"
      "append_tx (cx_msgs cx) (cx_text cx) (cx_time cx) (ae_tx env) (ae_ids env) bt ex events f = (Ok res, f')"
      by (auto elim: append_active_tx)
    have F: "idle f" "file_content (cx_text cx) (tables (committed f)) = Some (rows, h)"
      using f(1) c by (auto simp: get_connection_def content_def split: option.splits if_splits)
    obtain cur envs t where T: "read_event_file_append_head (cx_msgs cx) (cx_text cx) (ae_tx env) (tables (committed f)) = Ok cur"
      "insert_events (cx_msgs cx) (cx_text cx) (cx_time cx) (ae_tx env) (ae_ids env) bt cur events (tables (committed f)) = (Ok envs, t)"
      by (rule append_tx_steps[OF f(2) F(1)])
    have "cur = h" by (rule read_head_unique[OF F(2) T(1)])
    moreover have "events_table (tables (committed f)) = Some rows" using F(2) by (auto simp: file_content_Some)
    ultimately have "is_Ok (fst (insert_loop (cx_msgs cx) (cx_text cx) (cx_time cx) (ae_tx env) (ae_ids env) bt h
        (max_sequence rows) 0 events rows))"
      using T(2) by (auto simp: insert_events_def split: option.splits prod.splits)
    then show False by (rule insert_loop_taken[OF taken ne, THEN notE])
  qed
  show "s' = s" if a: "(\<exists>e. r = Err e) \<and> ae_tx env TxRollback = None"
    using run[unfolded append_active_def]
  proof (cases rule: sbind_cases)
    case (Ok f s0)
    then have f: "map_of (st_files s) (act_name (st_active s)) = Some f" "idle f" "s0 = s"
      using c by (auto simp: get_connection_def content_def split: option.splits if_splits)
    obtain q f' where tx: "append_tx (cx_msgs cx) (cx_text cx) (cx_time cx) (ae_tx env) (ae_ids env) bt ex events f = (q, f')"
      by (cases "append_tx (cx_msgs cx) (cx_text cx) (cx_time cx) (ae_tx env) (ae_ids env) bt ex events f")
    with Ok(2) f(3) a obtain e where r: "q = Err e" "s' = s\<lparr>st_files := AList.update (act_name (st_active s)) f' (st_files s)\<rparr>"
      by auto
    with append_tx_rollback[OF tx[unfolded r(1)] f(2) _ ne] a f(1) show ?thesis
      by (simp add: alist_update_same)
  qed simp
qed

subsection \<open>A range out of its place\<close>

lemma sorted_split:
  assumes "sorted (map k xs)" "\<And>x y. x \<in> set xs \<Longrightarrow> y \<in> set xs \<Longrightarrow> P x \<Longrightarrow> \<not> P y \<Longrightarrow> k x < k y"
  shows "xs = filter P xs @ filter (\<lambda>x. \<not> P x) xs"
  using assms
proof (induction xs)
  case (Cons x xs)
  show ?case
  proof (cases "P x")
    case False
    have "\<not> P y" if "y \<in> set xs" for y
      using Cons.prems(1) Cons.prems(2)[of y x] that False by (force simp: not_less)
    with False show ?thesis by (simp add: filter_empty_conv filter_id_conv)
  qed (use Cons in auto)
qed simp

lemma filter_upsert_other: "filter (\<lambda>x. key x \<noteq> key r) (upsert_by key r t) = filter (\<lambda>x. key x \<noteq> key r) t"
proof -
  have "filter (\<lambda>x. key x \<noteq> key r) (map (\<lambda>x. if key x = key r then r else x) t) = filter (\<lambda>x. key x \<noteq> key r) t"
    by (induction t) auto
  then show ?thesis by (simp add: upsert_by_def)
qed

lemma filter_upsert_same:
  assumes "distinct (map key t)"
  shows "filter (\<lambda>x. key x = key r) (upsert_by key r t) = [r]"
proof -
  have none: "filter (\<lambda>x. key x = key r) t = []" if "key r \<notin> key ` set t" for t
    using that by (auto simp: filter_empty_conv image_iff)
  have "filter (\<lambda>x. key x = key r) (map (\<lambda>x. if key x = key r then r else x) t) = [r]" if "key r \<in> key ` set t"
    using that assms
  proof (induction t)
    case (Cons x t)
    show ?case
    proof (cases "key x = key r")
      case True
      then have "map (\<lambda>x. if key x = key r then r else x) t = t" using Cons.prems(2) by (intro map_idI) (auto simp: image_iff)
      with True none[of t] Cons.prems(2) show ?thesis by simp
    qed (use Cons in auto)
  qed simp
  with none[of t] show ?thesis by (simp add: upsert_by_def)
qed

lemma moved_ranges:
  assumes cat: "idle cat" "distinct (map col_name (committed cat))"
    and h: "in_i64 (h + 1)" "\<And>r. r \<in> set (cat_ranges cat) \<Longrightarrow> rng_first r \<le> h"
  shows "cat_ranges (moved_range a h n cat) =
    map (seal_range a h) (filter (\<lambda>r. rng_name r \<noteq> n) (cat_ranges cat)) @ [unsealed_range n (h + 1)]"
proof -
  let ?q = "range_to_row (unsealed_range n (h + 1))" and ?t = "seal_rows a h (committed cat)"
  let ?u = "upsert_by col_name ?q ?t" and ?P = "\<lambda>r. col_name r \<noteq> n"
  have q: "col_name ?q = n" "col_first ?q = h + 1" "row_to_range ?q = unsealed_range n (h + 1)"
    by (simp_all add: range_to_row_def row_to_range_def unsealed_range_def)
  have names: "map col_name ?t = map col_name (committed cat)"
    by (simp add: seal_rows_def comp_def)
  have other: "filter ?P (order_rows ?u) = filter ?P (order_rows ?t)"
    using filter_upsert_other[of col_name ?q ?t] by (simp add: order_rows_filter[symmetric] q(1))
  have same: "filter (\<lambda>r. \<not> ?P r) (order_rows ?u) = [?q]"
    using filter_upsert_same[of col_name ?t ?q] cat(2) names
    by (simp add: order_rows_filter[symmetric] q(1)) (simp add: order_rows_def)
  have first: "col_first x \<le> h" if "x \<in> set ?t" for x
  proof -
    obtain y where "y \<in> set (committed cat)" "col_first x = col_first y"
      using \<open>x \<in> set ?t\<close> by (auto simp: seal_rows_def)
    with h(2)[of "row_to_range y"] cat(1) show ?thesis by (simp add: set_cat_ranges row_to_range_def)
  qed
  have "order_rows ?u = filter ?P (order_rows ?u) @ filter (\<lambda>r. \<not> ?P r) (order_rows ?u)"
  proof (rule sorted_split[where k = "\<lambda>r. (col_first r, col_name r)"])
    show "sorted (map (\<lambda>r. (col_first r, col_name r)) (order_rows ?u))" by (simp add: order_rows_def)
    fix x y assume "x \<in> set (order_rows ?u)" "y \<in> set (order_rows ?u)" "?P x" "\<not> ?P y"
    then have "x \<in> set (filter ?P (order_rows ?u))" "y \<in> set (filter (\<lambda>r. \<not> ?P r) (order_rows ?u))" by auto
    then have "x \<in> set ?t" "y = ?q" unfolding other same by (auto simp: order_rows_def)
    with first q(2) show "(col_first x, col_name x) < (col_first y, col_name y)" by (fastforce simp: less_prod_def)
  qed
  then have "order_rows ?u = filter ?P (order_rows ?t) @ [?q]" unfolding other same .
  moreover have "map row_to_range (filter ?P (order_rows ?t)) =
      map (seal_range a h) (filter (\<lambda>r. rng_name r \<noteq> n) (cat_ranges cat))"
  proof -
    have "map row_to_range (filter ?P (order_rows ?t)) = filter (\<lambda>r. rng_name r \<noteq> n) (map row_to_range (order_rows ?t))"
      by (simp add: filter_map comp_def row_to_range_def)
    also have "map row_to_range (order_rows ?t) = cat_ranges (cat\<lparr>committed := ?t\<rparr>)"
      using cat(1) by (simp add: cat_ranges_idle)
    finally show ?thesis by (simp add: cat_ranges_seal[OF cat(1)] filter_map comp_def)
  qed
  ultimately show ?thesis
    using cat(1) h(1) q(3) by (simp add: moved_range_def cat_ranges_idle)
qed

text \<open>Cutting one range out of the log, for a reader inside that range.\<close>

lemma skip_range:
  assumes dist: "distinct (map ev_version (ranges_log cr files rs))" "distinct (map rng_name rs)"
    and q: "q \<in> set rs" "map ev_version (rows_of cr files (rng_name q)) = [f .. h]" "f \<le> c + 1" "c \<le> h"
  shows "filter (after_version c) (ranges_log cr files (filter (\<lambda>r. rng_name r \<noteq> rng_name q) rs)) =
    filter (after_version h) (ranges_log cr files rs)"
proof -
  obtain as bs where rs: "rs = as @ q # bs" using q(1) by (auto dest: split_list)
  have "filter (\<lambda>r. rng_name r \<noteq> rng_name q) as = as" "filter (\<lambda>r. rng_name r \<noteq> rng_name q) bs = bs"
    using dist(2) by (auto simp: rs filter_id_conv image_iff)
  then have cut: "filter (\<lambda>r. rng_name r \<noteq> rng_name q) rs = as @ bs" by (simp add: rs)
  have inside: "set (map ev_version (rows_of cr files (rng_name q))) = {f..h}" unfolding q(2) by simp
  have apart: "ev_version x \<notin> {f..h}" if "x \<in> set (ranges_log cr files as) \<or> x \<in> set (ranges_log cr files bs)" for x
    using dist(1) that unfolding inside[symmetric] by (auto simp: rs)
  have same: "filter (after_version c) (ranges_log cr files xs) = filter (after_version h) (ranges_log cr files xs)"
    if "xs = as \<or> xs = bs" for xs
  proof (rule filter_cong[OF refl])
    fix x assume "x \<in> set (ranges_log cr files xs)"
    with apart[of x] that have "ev_version x \<notin> {f..h}" by auto
    with q(3,4) show "after_version c x = after_version h x" by (auto simp: after_version_def)
  qed
  have "ev_version x \<le> h" if "x \<in> set (rows_of cr files (rng_name q))" for x
    using that inside by auto
  then have "filter (after_version h) (rows_of cr files (rng_name q)) = []"
    by (fastforce simp: filter_empty_conv after_version_def)
  then show ?thesis unfolding cut by (simp add: rs same)
qed

lemma load_ranges_append:
  "load_ranges cx rd p limit files i (rs @ qs) events =
     rbind (load_ranges cx rd p limit files i rs events) (load_ranges cx rd p limit files (i + length rs) qs)"
proof (induction rs arbitrary: i events)
  case (Cons r rs)
  show ?case
  proof (cases "limit - length events = 0")
    case True
    then show ?thesis by (cases qs) simp_all
  next
    case False
    have assoc: "rbind (rbind m f) g = rbind m (\<lambda>x. rbind (f x) g)" for m :: "'x result" and f g
      by (cases m) simp_all
    from False show ?thesis by (simp add: Let_def Cons.IH assoc)
  qed
qed simp

lemma past_versions:
  assumes "map (version_get \<circ> env_version) es = [1 .. int (length es)]" "0 \<le> h"
  shows "filter (\<lambda>e. EventStreamVersion h < env_version e) es = drop (nat h) es" "sorted (map env_version es)"
proof -
  have nth: "version_get (env_version (es ! i)) = 1 + int i" if "i < length es" for i
  proof -
    have "version_get (env_version (es ! i)) = [1 .. int (length es)] ! i" using that assms(1)[symmetric] by simp
    with that show ?thesis by simp
  qed
  have "filter (\<lambda>e. EventStreamVersion h < env_version e) (take (nat h) es) = []"
    using nth by (auto simp: filter_empty_conv in_set_conv_nth version_order_simps)
  moreover have "filter (\<lambda>e. EventStreamVersion h < env_version e) (drop (nat h) es) = drop (nat h) es"
    using nth by (auto simp: filter_id_conv in_set_conv_nth version_order_simps)
  ultimately show "filter (\<lambda>e. EventStreamVersion h < env_version e) es = drop (nat h) es"
    by (metis append_Nil append_take_drop_id filter_append)
  have "sorted (map (version_get \<circ> env_version) es)" unfolding assms(1) by simp
  then show "sorted (map env_version es)" by (simp add: sorted_map version_order_simps sorted_wrt_map)
qed

lemma moved_read:
  assumes cx: "context_ok cx" and ok: "log_ok cx s" and log: "stream_log cx s = Ok es" and room: "in_i64 (log_end cx s + 1)"
    and run: "rotate_partition cx re now s = (Ok (), s')"
    and old: "act_name (st_active s') \<in> cat_names (st_catalog s)" "act_name (st_active s') \<noteq> act_name (st_active s)"
    and busy: "rows_of (cx_text cx) (st_files s) (act_name (st_active s)) \<noteq> []"
    and c: "first_of (cx_text cx) (st_files s) (act_name (st_active s')) \<le> c + 1" "c \<le> h"
    and h: "h = head_of (cx_text cx) (st_files s) (act_name (st_active s'))"
    and rd: "read_ok rd" and limit: "1 \<le> limit" "limit \<le> MAX_READ_LIMIT" "int limit \<le> log_end cx s - h"
  shows "load_after_version cx rd (EventStreamVersion c) limit s' = Ok (take limit (drop (nat h) es))" "h \<le> int (length es)"
proof -
  let ?cr = "cx_text cx" and ?n = "act_name (st_active s')" and ?a = "act_name (st_active s)" and ?E = "log_end cx s"
  let ?R = "cat_ranges (st_catalog s)" and ?d = "decode_row (cx_msgs cx) (cx_text cx) (cx_time cx)"
  note I = log_okD[OF ok]
  obtain rows_a where act: "content ?cr (st_files s) ?a = Some (rows_a, ?E)" by (rule active_content[OF ok])
  obtain q where q: "q \<in> set ?R" "rng_name q = ?n" using old(1) by (auto simp: cat_names_ranges)
  obtain h' where content: "content ?cr (st_files s) ?n = Some (rows_of ?cr (st_files s) ?n, h')"
    and vs: "map ev_version (rows_of ?cr (st_files s) ?n) = [rng_first q .. h']" and first: "1 \<le> rng_first q"
    and h': "h' = rng_first q + int (length (rows_of ?cr (st_files s) ?n)) - 1"
    using log_inv_ranges[OF I(1) q(1)] q(2) by (auto elim: range_soundD)
  have hh: "h' = h" using h content by (simp add: head_of_def)
  have c1: "rng_first q \<le> c + 1" using c(1) range_bounds(1)[OF ok q(1)] q(2) by simp
  have h0: "0 \<le> h" using first h' hh by simp
  have hE: "h \<le> ?E" using range_bounds(2)[OF ok q(1)] h q(2) by simp
  note onto = rotate_onto[OF run I(3) act content]
  have keep: "content ?cr (st_files s') m = content ?cr (st_files s) m" if "m \<noteq> ?n" for m
    using onto(2) that by (simp add: content_def)
  have "rng_first r \<le> ?E" if "r \<in> set ?R" for r
  proof -
    have "0 < length (rows_of ?cr (st_files s) ?a)" using busy by simp
    moreover have "rng_first r + int (length (rows_of ?cr (st_files s) ?a)) \<le> ?E + 1"
      using I(2) that by (simp add: active_inv_def)
    ultimately show ?thesis by linarith
  qed
  then have R': "cat_ranges (st_catalog s') = map (seal_range ?a ?E) (filter (\<lambda>r. rng_name r \<noteq> ?n) ?R) @ [unsealed_range ?n (?E + 1)]"
    unfolding onto(1) by (rule moved_ranges[OF I(3,4) room])
  let ?past = "\<lambda>r. case rng_last r of None \<Rightarrow> True | Some l \<Rightarrow> c < l"
  let ?rest = "map (seal_range ?a ?E) (filter (\<lambda>r. rng_name r \<noteq> ?n) ?R)"
  have sound: "\<forall>r \<in> set ?rest. range_sound ?cr (st_files s') r"
  proof
    fix r assume "r \<in> set ?rest"
    then have r: "r \<in> set (cat_ranges (st_catalog (sealed_state cx s)))" "rng_name r \<noteq> ?n"
      using sealed_ranges[OF I(3), of cx] by auto
    have "range_sound ?cr (st_files s) r"
      using log_inv_ranges[OF log_okD(1)[OF seal_step(1)[OF ok]] r(1)] by simp
    then show "range_sound ?cr (st_files s') r" using keep[OF r(2)] by (simp add: range_sound_def)
  qed
  have "filter (after_version c) (ranges_log ?cr (st_files s') (filter ?past ?rest)) =
      filter (after_version c) (ranges_log ?cr (st_files s') ?rest)"
    using sound by (rule filter_ranges_log) (simp add: after_version_def)
  also have "ranges_log ?cr (st_files s') ?rest = ranges_log ?cr (st_files s) (filter (\<lambda>r. rng_name r \<noteq> rng_name q) ?R)"
    unfolding ranges_log_seal q(2) by (rule ranges_log_cong) (simp add: rows_of_def keep)
  also have "filter (after_version c) \<dots> = filter (after_version h) (ranges_log ?cr (st_files s) ?R)"
  proof (rule skip_range[OF _ distinct_cat_ranges[OF I(3,4)] q(1)])
    show "distinct (map ev_version (ranges_log ?cr (st_files s) ?R))"
      using log_versions[OF I(1)] by (simp add: log_rows_def)
  qed (use vs q(2) hh c1 c(2) in simp_all)
  finally have rows: "filter (after_version c) (ranges_log ?cr (st_files s') (filter ?past ?rest)) =
      filter (after_version h) (log_rows cx s)" by (simp add: log_rows_def)
  let ?xs = "filter (\<lambda>e. EventStreamVersion h < env_version e) es"
  have "res_map ?d (filter (after_version h) (log_rows cx s)) = Ok ?xs"
    using log by (intro res_map_filter) (auto simp: stream_log_def after_version_def version_order_simps dest: decode_row_fields(1))
  then have loaded: "load_ranges cx rd (after_version c) limit (st_files s') 0 (filter ?past ?rest) [] = Ok (take limit ([] @ ?xs))"
    using sound rows by (intro load_ranges_spec[OF rd]) auto
  have versions: "map (version_get \<circ> env_version) es = [1 .. int (length es)]" by (rule stream_log_versions[OF I(1) log])
  have "int (length es) = ?E" using log by (simp add: stream_log_def log_end_def res_map_length)
  with hE show "h \<le> int (length es)" by simp
  note P = past_versions[OF versions h0]
  have full: "limit \<le> length ?xs" using P(1) limit(3) \<open>int (length es) = ?E\<close> h0 by simp
  have "sorted (map env_version (take limit ?xs))"
    using P(2) by (metis sorted_filter_key sorted_wrt_take take_map)
  then have srt: "sort_key env_version (take limit ?xs) = take limit ?xs" by (rule sort_key_sorted)
  have "load_ranges cx rd (after_version c) limit (st_files s') 0 (filter ?past ?rest @ [unsealed_range ?n (?E + 1)]) [] =
      Ok (take limit ?xs)"
    unfolding load_ranges_append loaded using full by simp
  moreover have "filter ?past (cat_ranges (st_catalog s')) = filter ?past ?rest @ [unsealed_range ?n (?E + 1)]"
    unfolding R' by (simp add: unsealed_range_def)
  ultimately show "load_after_version cx rd (EventStreamVersion c) limit s' = Ok (take limit (drop (nat h) es))"
    using limit rd srt unfolding P(1)
    by (simp add: load_after_version_def load_events_def validate_read_limit_def get_after_Ok read_ok_def)
qed

end
