(* ===== verification/StreamFindings.thy ===== *)
theory StreamFindings
  imports StreamTasks StaleRotation
begin

section \<open>Where the contract ends\<close>

text \<open>
  What the code does where \<open>reachable\<close>, \<open>concurrently\<close> and \<open>recoverable\<close> end: an append whose clock was
  read before another task rotated, two handles on one partition, a process killed while it
  created an event file, and a transaction that meets a sealed file. Each is a theorem over every
  such state; the witnesses run it on a store with an hourly window, where \<open>first_hour\<close> holds one
  event and \<open>second_hour\<close> one more in the next file.
\<close>

subsection \<open>Two hours of a store\<close>

text \<open>An append of one event at a time, whose type serves as its id.\<close>

definition hour_append :: "int \<Rightarrow> string \<Rightarrow> string append_env" where
  "hour_append secs ty =
     \<lparr>ae_probe = sample_probe secs, ae_nanos = secs * 1000000000 + 234000000, ae_rotations = (\<lambda>_. quiet_rotation),
      ae_conn = None, ae_tx = (\<lambda>_. None), ae_ids = \<lparr>new_id = (\<lambda>i. ty), trace_id = None, span_id = None\<rparr>\<rparr>"

abbreviation append_at ::
  "int \<Rightarrow> expected_version \<Rightarrow> string \<Rightarrow> stream \<Rightarrow> (string, string, int) append_result result \<times> stream" where
  "append_at secs expected ty s \<equiv> append_events sample_context (hour_append secs ty) expected [sample_event ty] s"

definition first_hour :: stream where
  "first_hour = snd (append_at 1727884801 NoStream ''A'' sample_stream)"

definition second_hour :: stream where
  "second_hour = snd (append_at 1727888401 AnyVersion ''B'' first_hour)"

definition stored :: "int \<Rightarrow> string \<Rightarrow> int \<Rightarrow> int \<Rightarrow> event_row" where
  "stored secs ty version sq =
     \<lparr>ev_id = ty, ev_type = ty, ev_payload = ''{}'', ev_version = version,
      ev_created_at = secs * 1000 + 234, ev_sequence = sq, ev_workflow_kind = Some ''signup'',
      ev_workflow_started_by = Some ty, ev_trace_id = None, ev_span_id = None,
      ev_request_id = None, ev_actor_id = ''user_1'', ev_actor_type = ''user''\<rparr>"

definition hour_file :: "event_row list \<Rightarrow> event_file" where
  "hour_file rows =
     \<lparr>committed =
        \<lparr>migrations_table =
           Some [\<lparr>mr_name = ''001_event_file_schema'', mr_checksum = ''digest-1'', mr_applied_at = 1727884801234\<rparr>],
         tables =
           \<lparr>events_table = Some rows,
            head_table = Some (Some \<lparr>hd_version = ev_version (last rows), hd_last_event_id = Some (ev_id (last rows))\<rparr>)\<rparr>\<rparr>,
      pending = None\<rparr>"

text \<open>The two states as values, so that the runs need not repeat the appends.\<close>

lemma first_hour_value [code]:
  "first_hour =
     \<lparr>st_catalog =
        \<lparr>committed =
           [\<lparr>col_name = ''events_20241002T16.db'', col_path = ''events_20241002T16.db'', col_first = 1, col_last = None,
             col_sealed = 0\<rparr>],
         pending = None\<rparr>,
      st_catalog_migrations =
        Some [\<lparr>mr_name = ''001_catalog_schema'', mr_checksum = ''digest-2'', mr_applied_at = 1727884801234\<rparr>],
      st_files = [(''events_20241002T16.db'', hour_file [stored 1727884801 ''A'' 1 1])],
      st_active = \<lparr>act_name = ''events_20241002T16.db'', act_start_ms = 1727884800000, act_ordinal = None\<rparr>\<rparr>"
  by code_simp

lemma second_hour_value [code]:
  "second_hour =
     \<lparr>st_catalog =
        \<lparr>committed =
           [\<lparr>col_name = ''events_20241002T16.db'', col_path = ''events_20241002T16.db'', col_first = 1, col_last = Some 1,
             col_sealed = 1\<rparr>,
            \<lparr>col_name = ''events_20241002T17.db'', col_path = ''events_20241002T17.db'', col_first = 2, col_last = None,
             col_sealed = 0\<rparr>],
         pending = None\<rparr>,
      st_catalog_migrations =
        Some [\<lparr>mr_name = ''001_catalog_schema'', mr_checksum = ''digest-2'', mr_applied_at = 1727884801234\<rparr>],
      st_files =
        [(''events_20241002T16.db'', hour_file [stored 1727884801 ''A'' 1 1]),
         (''events_20241002T17.db'', hour_file [stored 1727888401 ''B'' 2 1])],
      st_active = \<lparr>act_name = ''events_20241002T17.db'', act_start_ms = 1727888400000, act_ordinal = None\<rparr>\<rparr>"
  by code_simp

lemma append_at_inv:
  assumes "stream_inv sample_context s" "unsealed s" "stream_log sample_context s = Ok es" "length es < 10"
    and "clock_forward (hour_append secs ty) s" "payloads_readable (cx_text sample_context) [sample_event ty]"
    and "is_Ok (fst (append_at secs expected ty s))"
  obtains es' where "stream_inv sample_context (snd (append_at secs expected ty s))"
    "unsealed (snd (append_at secs expected ty s))"
    "stream_log sample_context (snd (append_at secs expected ty s)) = Ok es'" "length es' = length es + 1"
proof -
  obtain res s' where run: "append_at secs expected ty s = (Ok res, s')"
    using assms(7) by (metis is_Ok.elims(2) prod.collapse)
  have room: "in_i64 (log_end sample_context s + 1)" using assms(4) by (simp add: log_length[OF assms(3)] in_i64_def)
  have "unsealed s \<or> rotation_due sample_context (ae_probe (hour_append secs ty)) s" using assms(2) by simp
  note E = append_extends[OF sample_context_ok assms(1) this assms(3) room assms(5,6) _ run]
  then have "length (res_events res) = 1" by (auto dest: list_all2_lengthD)
  with E that[of "es @ res_events res"] show thesis by (simp add: run)
qed

lemma hour_runs:
  "is_Ok (fst (append_at 1727884801 NoStream ''A'' sample_stream))"
  "payloads_readable (cx_text sample_context) [sample_event ''A'']"
  "clock_forward (hour_append 1727884801 ''A'') sample_stream"
  "is_Ok (fst (append_at 1727888401 AnyVersion ''B'' first_hour))"
  "payloads_readable (cx_text sample_context) [sample_event ''B'']"
  "clock_forward (hour_append 1727888401 ''B'') first_hour"
  by code_simp+

lemma first_hour_inv:
  obtains es where "stream_inv sample_context first_hour" "unsealed first_hour" "stream_log sample_context first_hour = Ok es"
    "length es = 1"
  by (rule append_at_inv[OF sample_stream_facts(1,2) sample_log _ hour_runs(3,2,1), folded first_hour_def]) auto

lemma second_hour_inv:
  obtains es where "stream_inv sample_context second_hour" "unsealed second_hour" "stream_log sample_context second_hour = Ok es"
    "length es = 2"
proof (rule first_hour_inv)
  fix es
  assume first: "stream_inv sample_context first_hour" "unsealed first_hour" "stream_log sample_context first_hour = Ok es"
    "length es = 1"
  then show thesis
    by (elim append_at_inv[OF _ _ _ _ hour_runs(6,5,4), folded second_hour_def]) (auto intro: that)
qed

subsection \<open>A late append\<close>

abbreviation late_step ::
  "(string, string, int) append_point \<times> stream \<Rightarrow> (string, string, int) append_point \<times> stream" where
  "late_step \<equiv> append_step sample_context (hour_append 1727884802 ''C'') AnyVersion [sample_event ''C'']"

text \<open>
  C31: an append that read its clock before another task rotated hides events. When the window loop
  of such an append rotates, with its older clock, back onto a file the catalog already has, that
  file's range moves behind the end of the log. From then on a reader whose cursor \<open>c\<close> lies in
  the file, with events of it still to come, and whose limit is met by the later files, skips the
  rest of the file: it gets the events after the file's last version \<open>h\<close> instead of those after
  \<open>c\<close>, and its next cursor is past the skipped ones. No call fails. The loop compares windows for
  equality and not for order, so it takes the older window as well as a newer one.
\<close>

theorem late_append_hides_event:
  assumes h: "h = head_of (cx_text cx) (st_files s) (act_name (st_active s'))"
    and "context_ok cx" "stream_inv cx s" "stream_log cx s = Ok es" "in_i64 (log_end cx s + 1)"
    and "append_step cx env ex events (AtWindowRotate i now bt, s) = (AtWindow (i + 1) now bt, s')"
    and "act_name (st_active s') \<in> cat_names (st_catalog s)" "act_name (st_active s') \<noteq> act_name (st_active s)"
    and "rows_of (cx_text cx) (st_files s) (act_name (st_active s)) \<noteq> []"
    and "first_of (cx_text cx) (st_files s) (act_name (st_active s')) \<le> c + 1" "0 \<le> c" "c < h"
    and "read_ok rd" "1 \<le> limit" "limit \<le> MAX_READ_LIMIT" "int limit \<le> log_end cx s - h"
  shows "h \<le> int (length es) \<and>
    load_after_version cx rd (EventStreamVersion c) limit s = Ok (take limit (drop (nat c) es)) \<and>
    load_after_version cx rd (EventStreamVersion c) limit s' = Ok (take limit (drop (nat h) es))"
proof -
  have ok: "log_ok cx s" using assms(3) by (simp add: stream_inv_def)
  have run: "rotate_partition cx (ae_rotations env i) now s = (Ok (), s')"
    using assms(6) by (auto simp: proceed_eq split: prod.splits res.splits)
  have "c \<le> h" using assms(12) by simp
  note M = moved_read[OF assms(2) ok assms(4,5) run assms(7-10) this h assms(13-16)]
  have "load_after_version cx rd (EventStreamVersion c) limit s =
      Ok (take limit (filter (\<lambda>e. EventStreamVersion c < env_version e) es))"
    by (rule load_after_version_log[OF log_okD(1)[OF ok] assms(13,4,14,15)])
  with M past_versions(1)[OF stream_log_versions[OF log_okD(1)[OF ok] assms(4)] assms(11)] show ?thesis by simp
qed

text \<open>An append that passed its checks in the first hour and goes on in the second.\<close>

definition late_hour :: stream where
  "late_hour = snd (late_step (AtWindowRotate 0 1727884802234 1727884802234000000, second_hour))"

lemma late_start:
  "late_step (late_step (AtProbe, first_hour)) = (AtWindow 0 1727884802234 1727884802234000000, first_hour)"
  "late_step (AtWindow 0 1727884802234 1727884802234000000, second_hour) =
     (AtWindowRotate 0 1727884802234 1727884802234000000, second_hour)"
  by code_simp+

lemma late_hour_value:
  "late_step (AtWindowRotate 0 1727884802234 1727884802234000000, second_hour) =
     (AtWindow 1 1727884802234 1727884802234000000,
      second_hour\<lparr>
       st_catalog := fresh_db
         [\<lparr>col_name = ''events_20241002T16.db'', col_path = ''events_20241002T16.db'', col_first = 3, col_last = None,
           col_sealed = 0\<rparr>,
          \<lparr>col_name = ''events_20241002T17.db'', col_path = ''events_20241002T17.db'', col_first = 2, col_last = Some 2,
           col_sealed = 1\<rparr>],
       st_files :=
         [(''events_20241002T16.db'',
           (hour_file [stored 1727884801 ''A'' 1 1])\<lparr>committed :=
             (committed (hour_file [stored 1727884801 ''A'' 1 1]))\<lparr>tables :=
               \<lparr>events_table = Some [stored 1727884801 ''A'' 1 1],
                head_table = Some (Some \<lparr>hd_version = 2, hd_last_event_id = None\<rparr>)\<rparr>\<rparr>\<rparr>),
          (''events_20241002T17.db'', hour_file [stored 1727888401 ''B'' 2 1])],
       st_active := st_active first_hour\<rparr>)"
  by code_simp

lemma late_facts:
  "late_step (AtWindowRotate 0 1727884802234 1727884802234000000, second_hour) =
     (AtWindow 1 1727884802234 1727884802234000000, late_hour)"
  "act_name (st_active late_hour) = ''events_20241002T16.db''"
  by (simp_all add: late_hour_def late_hour_value first_hour_value del: append_step.simps)

lemma second_hour_facts:
  "act_name (st_active second_hour) = ''events_20241002T17.db''" "act_start_ms (st_active second_hour) = 1727888400000"
  "map col_name (committed (st_catalog second_hour)) = [''events_20241002T16.db'', ''events_20241002T17.db'']"
  by (simp_all add: second_hour_value)

lemma hour_content:
  assumes "map_of files n = Some (hour_file [stored secs ty v sq])" "0 \<le> v"
  shows "content sample_crates files n = Some ([stored secs ty v sq], v)"
  using assms by (simp add: content_def hour_file_def idle_def file_content_def sample_crates_def stored_def)

lemma second_hour_content:
  "content (cx_text sample_context) (st_files second_hour) ''events_20241002T17.db'' = Some ([stored 1727888401 ''B'' 2 1], 2)"
  "content (cx_text sample_context) (st_files second_hour) ''events_20241002T16.db'' = Some ([stored 1727884801 ''A'' 1 1], 1)"
  using hour_content[of "st_files second_hour"] by (simp_all add: second_hour_value sample_context_def)

lemma second_hour_files:
  "rows_of (cx_text sample_context) (st_files second_hour) ''events_20241002T17.db'' = [stored 1727888401 ''B'' 2 1]"
  "first_of (cx_text sample_context) (st_files second_hour) ''events_20241002T17.db'' = 2"
  "first_of (cx_text sample_context) (st_files second_hour) ''events_20241002T16.db'' = 1"
  "head_of (cx_text sample_context) (st_files second_hour) ''events_20241002T16.db'' = 1"
  by (simp_all add: rows_of_def first_of_def head_of_def second_hour_content)

theorem late_append_hides_event_witness:
  "\<exists>es. stream_log sample_context second_hour = Ok es \<and> length es = 2 \<and>
     late_step (late_step (AtWindow 0 1727884802234 1727884802234000000, second_hour)) =
       (AtWindow 1 1727884802234 1727884802234000000, late_hour) \<and>
     load_after_version sample_context quiet_read (EventStreamVersion 0) 1 second_hour = Ok (take 1 es) \<and>
     load_after_version sample_context quiet_read (EventStreamVersion 0) 1 late_hour = Ok (take 1 (drop 1 es))"
proof (rule second_hour_inv)
  fix es
  assume s: "stream_inv sample_context second_hour" "stream_log sample_context second_hour = Ok es" "length es = 2"
  have room: "in_i64 (log_end sample_context second_hour + 1)" by (simp add: log_length[OF s(2)] s(3) in_i64_def)
  have run: "late_step (AtWindowRotate 0 1727884802234 1727884802234000000, second_hour) =
      (AtWindow (0 + 1) 1727884802234 1727884802234000000, late_hour)"
    using late_facts(1) by simp
  have "idle (st_catalog second_hour)" using log_okD(3)[of sample_context second_hour] s(1) by (simp add: stream_inv_def)
  then have named: "act_name (st_active late_hour) \<in> cat_names (st_catalog second_hour)"
    using second_hour_facts(3)[THEN arg_cong, of set] by (simp add: cat_names_def late_facts(2))
  have "load_after_version sample_context quiet_read (EventStreamVersion 0) 1 second_hour = Ok (take 1 (drop (nat 0) es)) \<and>
      load_after_version sample_context quiet_read (EventStreamVersion 0) 1 late_hour = Ok (take 1 (drop (nat 1) es))"
    by (rule late_append_hides_event[OF _ sample_context_ok s(1,2) room run named _ _ _ _ _ quiet_read_ok, THEN conjunct2])
      (simp_all add: MAX_READ_LIMIT_def log_length[OF s(2)] s(3) late_facts(2) second_hour_facts second_hour_files)
  with s run late_start(2) show ?thesis by (intro exI[of _ es] conjI) simp_all
qed

subsection \<open>A second handle\<close>


text \<open>The stale handle still has the first hour's file when the other one has begun the second.\<close>

definition wedged :: stream where
  "wedged = snd (rotate_partition sample_context quiet_rotation 1727888402000 (second_hour\<lparr>st_active := st_active first_hour\<rparr>))"

lemma wedged_run:
  "rotate_partition sample_context quiet_rotation 1727888402000 (second_hour\<lparr>st_active := st_active first_hour\<rparr>) =
     (Ok (), second_hour\<lparr>st_files :=
       [(''events_20241002T16.db'', hour_file [stored 1727884801 ''A'' 1 1]),
        (''events_20241002T17.db'',
         (hour_file [stored 1727888401 ''B'' 2 1])\<lparr>committed :=
           (committed (hour_file [stored 1727888401 ''B'' 2 1]))\<lparr>tables :=
             \<lparr>events_table = Some [stored 1727888401 ''B'' 2 1],
              head_table = Some (Some \<lparr>hd_version = 1, hd_last_event_id = None\<rparr>)\<rparr>\<rparr>\<rparr>)]\<rparr>)"
  by code_simp

lemma wedged_facts:
  "rotate_partition sample_context quiet_rotation 1727888402000 (second_hour\<lparr>st_active := st_active first_hour\<rparr>) = (Ok (), wedged)"
  "st_active wedged = st_active second_hour"
  by (simp_all add: wedged_def wedged_run)

lemma wedged_probe:
  "floor_to_window_ms (clock_ms (ae_nanos (hour_append 1727888403 ''Y''))) (cx_window sample_context) = Ok 1727888400000"
  "should_rotate 1727888403 ''events_20241002T17.db'' (cx_rotation sample_context) 4096 1727888400000 = Ok False"
  by code_simp+


subsection \<open>A half-created file\<close>

text \<open>
  C32: a half-created event file blocks every restart. When a process dies after the database file of
  a new partition exists and before its tables do (the rotation has sealed the old file by
  then), the catalog names no unsealed file, so the next start rebuilds it from the directory,
  and the rebuild fails on the file without an append head. No start of the partition succeeds
  any more, whatever the order of the listing, though no call fails and no event is lost.
\<close>

theorem half_created_file_blocks_restart:
  assumes "open_ok oe" "catalog_migrated cx migs" "unsealed_count (cat_ranges (fresh_db rows)) \<noteq> 1"
    and "map_of files n = Some f" "head_table (tables (committed f)) = None"
    and "rb_listing (op_rebuild oe) = DirEntries items" "n \<in> set (listed items)"
  shows "\<not> is_Ok (fst (open_partitioned cx oe
    \<lparr>dk_catalog = Some \<lparr>migrations_table = migs, tables = Some rows\<rparr>, dk_files = files\<rparr>))"
  by (rule headless_open[OF assms(1-4) _ assms(6,7)]) (simp add: headless_def assms(5))

text \<open>The process dies in \<open>create_partition_db\<close> once the database file is built.\<close>

definition creation_cut :: rotation_env where
  "creation_cut = quiet_rotation\<lparr>re_file := quiet_create\<lparr>ce_open := (\<lambda>c. if c = ConfigureDb then Some (Db ''killed'') else None)\<rparr>\<rparr>"

definition cut_hour :: stream where
  "cut_hour =
     first_hour\<lparr>
       st_catalog := fresh_db
         [\<lparr>col_name = ''events_20241002T16.db'', col_path = ''events_20241002T16.db'', col_first = 1, col_last = Some 1,
           col_sealed = 1\<rparr>],
       st_files :=
         [(''events_20241002T16.db'', hour_file [stored 1727884801 ''A'' 1 1]), (''events_20241002T17.db'', blank_file)]\<rparr>"

lemma cut_rotation:
  "rotate_partition sample_context creation_cut 1727888400000 first_hour = (Err (Db ''killed''), cut_hour)"
  by code_simp

theorem half_created_file_blocks_restart_witness:
  "\<exists>s. rotate_partition sample_context creation_cut 1727888400000 first_hour = (Err (Db ''killed''), s) \<and>
     \<not> is_Ok (fst (open_partitioned sample_context reopen_two_files (disk_of s)))"
proof -
  have mig: "catalog_migrated sample_context (st_catalog_migrations cut_hour)"
    using sample_stream_facts(5) by (simp add: cut_hour_def first_hour_value sample_stream_value)
  have disk: "disk_of cut_hour = \<lparr>dk_catalog = Some \<lparr>migrations_table = st_catalog_migrations cut_hour,
      tables = Some (committed (st_catalog cut_hour))\<rparr>, dk_files = dk_files (disk_of cut_hour)\<rparr>"
    by (simp add: disk_of_def)
  have "unsealed_count (cat_ranges (fresh_db (committed (st_catalog cut_hour)))) \<noteq> 1"
    "map_of (dk_files (disk_of cut_hour)) ''events_20241002T17.db'' = Some blank_file"
    "head_table (tables (committed blank_file)) = None"
    by code_simp+
  moreover have "case rb_listing (op_rebuild reopen_two_files) of
      DirEntries items \<Rightarrow> ''events_20241002T17.db'' \<in> set (listed items) | _ \<Rightarrow> False"
    by code_simp
  then obtain items where "rb_listing (op_rebuild reopen_two_files) = DirEntries items"
    "''events_20241002T17.db'' \<in> set (listed items)"
    by (auto split: dir_listing.splits)
  ultimately have "\<not> is_Ok (fst (open_partitioned sample_context reopen_two_files (disk_of cut_hour)))"
    by (subst disk) (rule half_created_file_blocks_restart[OF reopen_two_files_ok mig])
  with cut_rotation show ?thesis by blast
qed

subsection \<open>A sealed file\<close>

text \<open>When no range of the active file is open, the catalog ends every file at or before the log's end.\<close>

lemma sealed_ends:
  assumes ok: "log_ok cx s" and sealed: "\<not> unsealed s" and r: "r \<in> set (cat_ranges (st_catalog s))"
  obtains l where "rng_last r = Some l" "l \<le> log_end cx s"
proof -
  have "rng_sealed r" using sealed r log_okD(2)[OF ok] by (auto simp: unsealed_def active_inv_def)
  then have "rng_last r = Some (head_of (cx_text cx) (st_files s) (rng_name r))"
    using arg_cong[OF sealed_as_sealed_of[OF log_inv_ranges[OF log_okD(1)[OF ok] r]], of rng_last] by simp
  then show thesis using range_bounds(2)[OF ok r] that by blast
qed

lemma sealed_reads_nothing:
  assumes ok: "log_ok cx s" and sealed: "\<not> unsealed s" and cat: "st_catalog s' = st_catalog s"
    and rd: "read_ok rd" and limit: "1 \<le> limit" "limit \<le> MAX_READ_LIMIT" and c: "log_end cx s \<le> version_get c"
  shows "load_after_version cx rd c limit s' = Ok []" "load_workflow_after_version cx rd w c limit s' = Ok []"
proof -
  have "filter (\<lambda>r. case rng_last r of None \<Rightarrow> True | Some l \<Rightarrow> version_get c < l) (cat_ranges (st_catalog s)) = []"
  proof -
    have "\<not> (case rng_last r of None \<Rightarrow> True | Some l \<Rightarrow> version_get c < l)" if "r \<in> set (cat_ranges (st_catalog s))" for r
      by (rule sealed_ends[OF ok sealed that]) (use c in simp)
    then show ?thesis by (simp add: filter_empty_conv)
  qed
  then have "load_events cx rd p (version_get c) limit s' = Ok []" for p
    using rd limit by (simp add: load_events_def validate_read_limit_def get_after_Ok read_ok_def cat)
  then show "load_after_version cx rd c limit s' = Ok []" "load_workflow_after_version cx rd w c limit s' = Ok []"
    by (simp_all add: load_after_version_def load_workflow_after_version_def)
qed

lemma sealed_append:
  assumes cx: "context_ok cx" and ok: "log_ok cx s" and room: "in_i64 (log_end cx s)"
    and run: "append_step cx env ex events (AtWrite bt, s) = (Finished (Ok res), s')"
  shows "res_first_version res = EventStreamVersion (log_end cx s + 1)" "st_catalog s' = st_catalog s" "res_events res \<noteq> []"
proof -
  have tx: "append_active cx env bt ex events s = (Ok res, s')" using run by (auto split: prod.splits)
  obtain rows where rows: "content (cx_text cx) (st_files s) (act_name (st_active s)) = Some (rows, log_end cx s)"
    "int (length rows) \<le> log_end cx s" "map ev_sequence rows = [1 .. int (length rows)]"
    by (rule active_content[OF ok])
  obtain f f' where f: "get_connection cx (ae_conn env) (st_files s) (act_name (st_active s)) = Ok f"
    "append_tx (cx_msgs cx) (cx_text cx) (cx_time cx) (ae_tx env) (ae_ids env) bt ex events f = (Ok res, f')"
    "s' = committed_state f' s"
    by (rule append_active_tx[OF tx])
  have F: "idle f" "file_content (cx_text cx) (tables (committed f)) = Some (rows, log_end cx s)"
    using f(1) rows(1) by (auto simp: get_connection_def content_def split: option.splits if_splits)
  have law: "uuid_law (cx_text cx)" using cx by (simp add: context_ok_def)
  from append_tx_commit[OF f(2) F law rows(2) room rows(3)] f(3)
  show "res_first_version res = EventStreamVersion (log_end cx s + 1)" "st_catalog s' = st_catalog s" "res_events res \<noteq> []"
    by auto
qed

text \<open>
  C33: an append that meets a failed rotation is acknowledged and not readable. Its transaction runs
  after another task's rotation sealed the active file and failed: whatever the append, when the
  transaction commits it returns the next version, but the catalog still ends every file at the
  old end of the log, so every read from there on, by version or by workflow, returns nothing: a
  subscriber that has seen all earlier events never sees the acknowledged ones.
\<close>

theorem sealed_append_unreadable:
  assumes "context_ok cx" "stream_inv cx s" "\<not> unsealed s" "in_i64 (log_end cx s)"
    and "append_step cx env ex events (AtWrite bt, s) = (Finished (Ok res), s')"
    and "read_ok rd" "1 \<le> limit" "limit \<le> MAX_READ_LIMIT" "log_end cx s \<le> version_get c"
  shows "res_events res \<noteq> [] \<and> res_first_version res = EventStreamVersion (log_end cx s + 1) \<and>
    load_after_version cx rd c limit s' = Ok [] \<and> load_workflow_after_version cx rd w c limit s' = Ok []"
proof -
  have ok: "log_ok cx s" using assms(2) by (simp add: stream_inv_def)
  note S = sealed_append[OF assms(1) ok assms(4,5)]
  from S sealed_reads_nothing[OF ok assms(3) S(2) assms(6-9)] show ?thesis by blast
qed

lemma cut_hour_inv: "stream_inv sample_context cut_hour" "log_end sample_context cut_hour = 1"
proof -
  obtain es where first: "stream_inv sample_context first_hour" "stream_log sample_context first_hour = Ok es" "length es = 1"
    by (rule first_hour_inv)
  have "log_end sample_context first_hour = 1" using first(3) by (simp add: log_length[OF first(2)])
  moreover have "act_start_ms (st_active first_hour) \<le> 1727888400000" by code_simp
  ultimately show "stream_inv sample_context cut_hour" "log_end sample_context cut_hour = 1"
    using rotate_partition_inv[OF sample_context_ok first(1) _ _ _ cut_rotation]
    by (simp_all add: in_i64_def log_end_def)
qed

lemma sealed_run:
  "case late_step (AtWrite 1727884802234000000, cut_hour) of (Finished (Ok res), s) \<Rightarrow> True | _ \<Rightarrow> False"
  "list_all rng_sealed (cat_ranges (st_catalog cut_hour))"
  by code_simp+

theorem sealed_append_unreadable_witness:
  "\<exists>res s'. late_step (AtWrite 1727884802234000000, cut_hour) = (Finished (Ok res), s') \<and>
     res_first_version res = EventStreamVersion 2 \<and>
     load_after_version sample_context quiet_read (EventStreamVersion 1) 100 s' = Ok []"
proof -
  obtain res s' where run: "late_step (AtWrite 1727884802234000000, cut_hour) = (Finished (Ok res), s')"
    using sealed_run(1)
    by (cases "late_step (AtWrite 1727884802234000000, cut_hour)";
        cases "fst (late_step (AtWrite 1727884802234000000, cut_hour))" rule: append_point.exhaust)
      (auto simp del: append_step.simps split: res.splits)
  have "\<not> unsealed cut_hour" using sealed_run(2) by (auto simp: unsealed_def list_all_iff)
  from sealed_append_unreadable[OF sample_context_ok cut_hour_inv(1) this _ run quiet_read_ok, of 100 "EventStreamVersion 1"] run
  show ?thesis by (auto simp: cut_hour_inv(2) in_i64_def MAX_READ_LIMIT_def)
qed

end
