(* ===== verification/Broadcast.thy ===== *)
theory Broadcast
  imports Errors "HOL-Library.AList"
begin

section \<open>Broadcasting stream events (\<open>src/broadcast.rs\<close>)\<close>

text \<open>
  Projectors put events into a bounded mpsc channel; one loop takes them out and hands each to
  every subscriber. The two channels are tokio's: a crate record holds their operations, and
  \<open>mpsc_law\<close> and \<open>broadcast_law\<close> say of them what tokio documents. The components of this theory
  are the events with their constructors, the handles, the loop, and \<open>relaying\<close>, the
  interleavings of senders, subscribers and loop.
\<close>

subsection \<open>Events\<close>

datatype event_kind = Progress | Completed | Failed

fun kind_is_terminal :: "event_kind \<Rightarrow> bool" where
  "kind_is_terminal Progress = False"
| "kind_is_terminal Completed = True"
| "kind_is_terminal Failed = True"

datatype item_status = ItemPending | ItemInProgress | ItemCompleted | ItemFailed

record item_progress =
  ip_item_id :: string
  ip_status :: item_status
  ip_message :: string

record 'j stream_event =
  se_request_id :: string
  se_stream_id :: string
  se_timestamp :: int
  se_kind :: event_kind
  se_current_step :: nat
  se_total_steps :: nat
  se_step_name :: string
  se_payload :: "'j option"
  se_error_message :: "string option"
  se_retriable :: "bool option"
  se_items :: "item_progress list"

text \<open>The constructors; \<open>now\<close> is the clock in seconds.\<close>

definition progress :: "int \<Rightarrow> string \<Rightarrow> string \<Rightarrow> nat \<Rightarrow> nat \<Rightarrow> string \<Rightarrow> 'j stream_event" where
  "progress now request_id stream_id current_step total_steps step_name =
     \<lparr>se_request_id = request_id, se_stream_id = stream_id, se_timestamp = now, se_kind = Progress,
      se_current_step = current_step, se_total_steps = total_steps, se_step_name = step_name, se_payload = None,
      se_error_message = None, se_retriable = None, se_items = []\<rparr>"

definition completed :: "int \<Rightarrow> string \<Rightarrow> string \<Rightarrow> nat \<Rightarrow> 'j option \<Rightarrow> 'j stream_event" where
  "completed now request_id stream_id total_steps payload =
     \<lparr>se_request_id = request_id, se_stream_id = stream_id, se_timestamp = now, se_kind = Completed,
      se_current_step = total_steps, se_total_steps = total_steps, se_step_name = ''Completed'', se_payload = payload,
      se_error_message = None, se_retriable = None, se_items = []\<rparr>"

definition failed :: "int \<Rightarrow> string \<Rightarrow> string \<Rightarrow> nat \<Rightarrow> nat \<Rightarrow> string \<Rightarrow> bool \<Rightarrow> 'j stream_event" where
  "failed now request_id stream_id current_step total_steps err retriable =
     \<lparr>se_request_id = request_id, se_stream_id = stream_id, se_timestamp = now, se_kind = Failed,
      se_current_step = current_step, se_total_steps = total_steps, se_step_name = ''Failed'', se_payload = None,
      se_error_message = Some err, se_retriable = Some retriable, se_items = []\<rparr>"

definition with_items :: "item_progress list \<Rightarrow> 'j stream_event \<Rightarrow> 'j stream_event" where
  "with_items items e = e\<lparr>se_items := items\<rparr>"

definition event_is_terminal :: "'j stream_event \<Rightarrow> bool" where
  "event_is_terminal e = kind_is_terminal (se_kind e)"

subsection \<open>The channels of tokio\<close>

text \<open>
  A bounded mpsc channel: \<open>mp_send\<close> is \<open>None\<close> while the sender has to wait for room, \<open>mp_recv\<close>
  answers \<open>RecvWait\<close> while the loop has to wait and \<open>RecvEnd\<close> once every sender is gone and the
  channel is empty. \<open>mp_items\<close>, \<open>mp_capacity\<close> and \<open>mp_open\<close> are the views the laws speak of.
\<close>

datatype try_send_outcome = TrySent | TryFull | TryClosed

datatype 'e recv_outcome = RecvEvent 'e | RecvWait | RecvEnd

record ('q, 'e) mpsc_crate =
  mp_channel :: "nat \<Rightarrow> 'q result"
  mp_send :: "'e \<Rightarrow> 'q \<Rightarrow> (bool \<times> 'q) option"
  mp_try_send :: "'e \<Rightarrow> 'q \<Rightarrow> try_send_outcome \<times> 'q"
  mp_recv :: "'q \<Rightarrow> 'e recv_outcome \<times> 'q"
  mp_items :: "'q \<Rightarrow> 'e list"
  mp_capacity :: "'q \<Rightarrow> nat"
  mp_open :: "'q \<Rightarrow> bool"

definition same_channel :: "('q, 'e) mpsc_crate \<Rightarrow> 'q \<Rightarrow> 'q \<Rightarrow> bool" where
  "same_channel mp q q' \<longleftrightarrow> mp_capacity mp q' = mp_capacity mp q \<and> mp_open mp q' = mp_open mp q"

definition channel_law :: "('q, 'e) mpsc_crate \<Rightarrow> bool" where
  "channel_law mp \<longleftrightarrow>
     (\<forall>n q. mp_channel mp n = Ok q \<longrightarrow> mp_items mp q = [] \<and> mp_capacity mp q = n \<and> mp_open mp q)"

definition send_law :: "('q, 'e) mpsc_crate \<Rightarrow> bool" where
  "send_law mp \<longleftrightarrow>
     (\<forall>e q. mp_send mp e q = None \<longrightarrow> mp_open mp q \<and> mp_capacity mp q \<le> length (mp_items mp q)) \<and>
     (\<forall>e q ok q'. mp_send mp e q = Some (ok, q') \<longrightarrow>
        ok = mp_open mp q \<and> (ok \<longrightarrow> length (mp_items mp q) < mp_capacity mp q) \<and>
        mp_items mp q' = mp_items mp q @ (if ok then [e] else []) \<and> same_channel mp q q')"

definition try_send_law :: "('q, 'e) mpsc_crate \<Rightarrow> bool" where
  "try_send_law mp \<longleftrightarrow>
     (\<forall>e q r q'. mp_try_send mp e q = (r, q') \<longrightarrow>
        r = (if \<not> mp_open mp q then TryClosed
             else if length (mp_items mp q) < mp_capacity mp q then TrySent else TryFull) \<and>
        mp_items mp q' = mp_items mp q @ (if r = TrySent then [e] else []) \<and> same_channel mp q q')"

definition recv_law :: "('q, 'e) mpsc_crate \<Rightarrow> bool" where
  "recv_law mp \<longleftrightarrow>
     (\<forall>q r q'. mp_recv mp q = (r, q') \<longrightarrow>
        (case mp_items mp q of
           [] \<Rightarrow> r \<in> {RecvWait, RecvEnd} \<and> mp_items mp q' = []
         | e # es \<Rightarrow> r = RecvEvent e \<and> mp_items mp q' = es) \<and> same_channel mp q q')"

definition mpsc_law :: "('q, 'e) mpsc_crate \<Rightarrow> bool" where
  "mpsc_law mp \<longleftrightarrow> channel_law mp \<and> send_law mp \<and> try_send_law mp \<and> recv_law mp"

text \<open>
  A broadcast channel: every receiver has its own queue, \<open>None\<close> for a receiver that is gone. A
  value is kept for a receiver as long as at most \<open>bc_capacity\<close> values are queued for it; beyond
  that the oldest may be dropped, which the next \<open>bc_recv\<close> reports as \<open>Lagged\<close>.
\<close>

datatype 'e bc_recv_outcome = BcEvent 'e | BcLagged nat | BcEmpty

record ('b, 'e) broadcast_crate =
  bc_channel :: "nat \<Rightarrow> ('b \<times> nat) result"
  bc_subscribe :: "'b \<Rightarrow> nat \<times> 'b"
  bc_drop :: "nat \<Rightarrow> 'b \<Rightarrow> 'b"
  bc_send :: "'e \<Rightarrow> 'b \<Rightarrow> nat option \<times> 'b"
  bc_recv :: "nat \<Rightarrow> 'b \<Rightarrow> 'e bc_recv_outcome \<times> 'b"
  bc_count :: "'b \<Rightarrow> nat"
  bc_queued :: "'b \<Rightarrow> nat \<Rightarrow> 'e list option"
  bc_capacity :: "'b \<Rightarrow> nat"

definition queued_after :: "nat \<Rightarrow> 'e \<Rightarrow> 'e list \<Rightarrow> 'e list \<Rightarrow> bool" where
  "queued_after cap e es es' \<longleftrightarrow> suffix es' (es @ [e]) \<and> (length es < cap \<longrightarrow> es' = es @ [e])"

definition receivers_law :: "('b, 'e) broadcast_crate \<Rightarrow> bool" where
  "receivers_law bc \<longleftrightarrow>
     (\<forall>n b r. bc_channel bc n = Ok (b, r) \<longrightarrow> bc_queued bc b = [r \<mapsto> []] \<and> bc_capacity bc b = n) \<and>
     (\<forall>b r b'. bc_subscribe bc b = (r, b') \<longrightarrow>
        bc_queued bc b r = None \<and> bc_queued bc b' = (bc_queued bc b)(r \<mapsto> []) \<and> bc_capacity bc b' = bc_capacity bc b) \<and>
     (\<forall>b r. bc_queued bc (bc_drop bc r b) = (bc_queued bc b)(r := None) \<and> bc_capacity bc (bc_drop bc r b) = bc_capacity bc b) \<and>
     (\<forall>b. bc_count bc b = 0 \<longleftrightarrow> bc_queued bc b = Map.empty)"

definition bc_send_law :: "('b, 'e) broadcast_crate \<Rightarrow> bool" where
  "bc_send_law bc \<longleftrightarrow>
     (\<forall>b e n b'. bc_send bc e b = (n, b') \<longrightarrow>
        n = (if bc_count bc b = 0 then None else Some (bc_count bc b)) \<and> bc_capacity bc b' = bc_capacity bc b \<and>
        (\<forall>r. rel_option (queued_after (bc_capacity bc b) e) (bc_queued bc b r) (bc_queued bc b' r)))"

definition bc_recv_law :: "('b, 'e) broadcast_crate \<Rightarrow> bool" where
  "bc_recv_law bc \<longleftrightarrow>
     (\<forall>b r x b'. bc_recv bc r b = (x, b') \<longrightarrow> bc_capacity bc b' = bc_capacity bc b \<and>
        (case x of
           BcEvent e \<Rightarrow> \<exists>es. bc_queued bc b r = Some (e # es) \<and> bc_queued bc b' = (bc_queued bc b)(r \<mapsto> es)
         | _ \<Rightarrow> bc_queued bc b' = bc_queued bc b))"

definition broadcast_law :: "('b, 'e) broadcast_crate \<Rightarrow> bool" where
  "broadcast_law bc \<longleftrightarrow> receivers_law bc \<and> bc_send_law bc \<and> bc_recv_law bc"

subsection \<open>Handles\<close>

text \<open>The two channels that the sender, the subscriber and the loop share.\<close>

record ('q, 'b) broadcast_system =
  sys_mpsc :: 'q
  sys_broadcast :: 'b

datatype stream_event_send_error = ChannelClosed | ChannelFull

fun send_error_display :: "stream_event_send_error \<Rightarrow> string" where
  "send_error_display ChannelClosed = ''Stream event channel is closed''"
| "send_error_display ChannelFull = ''Stream event channel is full''"

text \<open>\<open>send\<close> is \<open>None\<close> while it waits.\<close>

definition send ::
  "('q, 'e) mpsc_crate \<Rightarrow> 'e \<Rightarrow> ('q, 'b) broadcast_system
     \<Rightarrow> ((stream_event_send_error, unit) res \<times> ('q, 'b) broadcast_system) option" where
  "send mp event sys =
     map_option (\<lambda>(ok, q). (if ok then Ok () else Err ChannelClosed, sys\<lparr>sys_mpsc := q\<rparr>))
       (mp_send mp event (sys_mpsc sys))"

definition try_send ::
  "('q, 'e) mpsc_crate \<Rightarrow> 'e \<Rightarrow> ('q, 'b) broadcast_system
     \<Rightarrow> (stream_event_send_error, unit) res \<times> ('q, 'b) broadcast_system" where
  "try_send mp event sys =
     (case mp_try_send mp event (sys_mpsc sys) of
        (r, q) \<Rightarrow>
          (case r of TrySent \<Rightarrow> Ok () | TryFull \<Rightarrow> Err ChannelFull | TryClosed \<Rightarrow> Err ChannelClosed, sys\<lparr>sys_mpsc := q\<rparr>))"

definition subscribe :: "('b, 'e) broadcast_crate \<Rightarrow> ('q, 'b) broadcast_system \<Rightarrow> nat \<times> ('q, 'b) broadcast_system" where
  "subscribe bc sys = (case bc_subscribe bc (sys_broadcast sys) of (r, b) \<Rightarrow> (r, sys\<lparr>sys_broadcast := b\<rparr>))"

definition subscriber_count :: "('b, 'e) broadcast_crate \<Rightarrow> ('q, 'b) broadcast_system \<Rightarrow> nat" where
  "subscriber_count bc sys = bc_count bc (sys_broadcast sys)"

subsection \<open>The loop\<close>

datatype loop_outcome = LoopWaits | LoopStopped | LoopContinues

text \<open>One turn of \<open>while let Some(event) = self.rx.recv().await\<close>.\<close>

definition loop_turn ::
  "('q, 'e) mpsc_crate \<Rightarrow> ('b, 'e) broadcast_crate \<Rightarrow> ('q, 'b) broadcast_system
     \<Rightarrow> loop_outcome \<times> ('q, 'b) broadcast_system" where
  "loop_turn mp bc sys =
     (case mp_recv mp (sys_mpsc sys) of
        (RecvWait, q) \<Rightarrow> (LoopWaits, sys\<lparr>sys_mpsc := q\<rparr>)
      | (RecvEnd, q) \<Rightarrow> (LoopStopped, sys\<lparr>sys_mpsc := q\<rparr>)
      | (RecvEvent event, q) \<Rightarrow>
          (let sys = sys\<lparr>sys_mpsc := q\<rparr> in
           if bc_count bc (sys_broadcast sys) = 0 then (LoopContinues, sys)
           else
             (case bc_send bc event (sys_broadcast sys) of
                (n, b) \<Rightarrow> (LoopContinues, sys\<lparr>sys_broadcast := b\<rparr>))))"

text \<open>The loop with nobody else acting, until it waits or stops; \<open>None\<close> when the fuel runs out.\<close>

fun run_loop ::
  "nat \<Rightarrow> ('q, 'e) mpsc_crate \<Rightarrow> ('b, 'e) broadcast_crate \<Rightarrow> ('q, 'b) broadcast_system
     \<Rightarrow> (loop_outcome \<times> ('q, 'b) broadcast_system) option" where
  "run_loop 0 mp bc sys = None"
| "run_loop (Suc fuel) mp bc sys =
     (case loop_turn mp bc sys of
        (LoopContinues, sys) \<Rightarrow> run_loop fuel mp bc sys
      | (outcome, sys) \<Rightarrow> Some (outcome, sys))"

subsection \<open>Creation\<close>

definition BROADCAST_CAPACITY :: nat where "BROADCAST_CAPACITY = 1024"

definition SENDER_CAPACITY :: nat where "SENDER_CAPACITY = 256"

text \<open>The receiver that \<open>broadcast::channel\<close> returns is dropped at once.\<close>

definition create_broadcast_system_with_capacity ::
  "('q, 'e) mpsc_crate \<Rightarrow> ('b, 'e) broadcast_crate \<Rightarrow> nat \<Rightarrow> nat \<Rightarrow> ('q, 'b) broadcast_system result" where
  "create_broadcast_system_with_capacity mp bc sender_capacity broadcast_capacity =
     rbind (mp_channel mp sender_capacity) (\<lambda>q.
     rbind (bc_channel bc broadcast_capacity) (\<lambda>(b, r).
     Ok \<lparr>sys_mpsc = q, sys_broadcast = bc_drop bc r b\<rparr>))"

definition create_broadcast_system ::
  "('q, 'e) mpsc_crate \<Rightarrow> ('b, 'e) broadcast_crate \<Rightarrow> ('q, 'b) broadcast_system result" where
  "create_broadcast_system mp bc = create_broadcast_system_with_capacity mp bc SENDER_CAPACITY BROADCAST_CAPACITY"

subsection \<open>A concrete pair of channels\<close>

definition list_mpsc :: "(nat \<times> 'e list, 'e) mpsc_crate" where
  "list_mpsc =
     \<lparr>mp_channel = (\<lambda>n. if n = 0 then Panic ''mpsc bounded channel requires buffer > 0'' else Ok (n, [])),
      mp_send = (\<lambda>e (n, es). if length es < n then Some (True, n, es @ [e]) else None),
      mp_try_send = (\<lambda>e (n, es). if length es < n then (TrySent, n, es @ [e]) else (TryFull, n, es)),
      mp_recv = (\<lambda>(n, es). case es of [] \<Rightarrow> (RecvWait, n, []) | e # es \<Rightarrow> (RecvEvent e, n, es)),
      mp_items = snd, mp_capacity = fst, mp_open = (\<lambda>_. True)\<rparr>"

definition newest :: "nat \<Rightarrow> 'e list \<Rightarrow> 'e list" where
  "newest n es = drop (length es - n) es"

definition list_broadcast :: "(nat \<times> (nat \<times> 'e list) list, 'e) broadcast_crate" where
  "list_broadcast =
     \<lparr>bc_channel = (\<lambda>n. if n = 0 then Panic ''broadcast channel capacity cannot be zero'' else Ok ((n, [(0, [])]), 0)),
      bc_subscribe = (\<lambda>(n, al). (Suc (sum_list (map fst al)), n, (Suc (sum_list (map fst al)), []) # al)),
      bc_drop = (\<lambda>r (n, al). (n, filter (\<lambda>p. fst p \<noteq> r) al)),
      bc_send = (\<lambda>e (n, al). (if al = [] then None else Some (length al), n, map (\<lambda>(r, es). (r, newest n (es @ [e]))) al)),
      bc_recv = (\<lambda>r (n, al).
        case map_of al r of Some (e # es) \<Rightarrow> (BcEvent e, n, AList.update r es al) | _ \<Rightarrow> (BcEmpty, n, al)),
      bc_count = (\<lambda>(n, al). length al), bc_queued = (\<lambda>(n, al). map_of al), bc_capacity = fst\<rparr>"

lemma list_mpsc_law: "mpsc_law list_mpsc"
  by (auto simp: mpsc_law_def channel_law_def send_law_def try_send_law_def recv_law_def list_mpsc_def same_channel_def
      split: list.splits if_splits)

lemma map_of_fresh: "map_of al (Suc (sum_list (map fst al))) = None"
proof -
  have "r \<le> sum_list (map fst al)" if "r \<in> fst ` set al" for r :: nat
    using that by (intro member_le_sum_list) auto
  then show ?thesis by (force simp: map_of_eq_None_iff)
qed

lemma map_of_filter_other: "map_of (filter (\<lambda>p. fst p \<noteq> r) al) = (map_of al)(r := None)"
  by (induction al) auto

lemma queued_newest: "queued_after n e es (newest n (es @ [e]))"
  using suffix_drop[of "length (es @ [e]) - n" "es @ [e]"] unfolding queued_after_def newest_def by auto

lemma list_broadcast_law: "broadcast_law list_broadcast"
proof -
  have "receivers_law list_broadcast"
    by (auto simp: receivers_law_def list_broadcast_def map_of_fresh map_of_filter_other split: if_splits)
  moreover have "bc_send_law list_broadcast"
    by (auto simp: bc_send_law_def list_broadcast_def map_of_map queued_newest option.rel_map intro: option.rel_refl)
  moreover have "bc_recv_law list_broadcast"
    by (auto simp: bc_recv_law_def list_broadcast_def update_conv' split: option.splits list.splits)
  ultimately show ?thesis by (simp add: broadcast_law_def)
qed

subsection \<open>Interleavings\<close>

text \<open>
  The histories of a broadcast system: the events accepted by the channel, those the loop has
  taken out, and for every receiver the position it subscribed at, what it has received and
  whether an event arrived while its queue was full.
\<close>

record 'e broadcast_history =
  bh_sent :: "'e list"
  bh_relayed :: "'e list"
  bh_start :: "nat \<Rightarrow> nat"
  bh_got :: "nat \<Rightarrow> 'e list"
  bh_lagged :: "nat \<Rightarrow> bool"

definition full_queues :: "('b, 'e) broadcast_crate \<Rightarrow> 'b \<Rightarrow> nat \<Rightarrow> bool" where
  "full_queues bc b r = (case bc_queued bc b r of None \<Rightarrow> False | Some es \<Rightarrow> bc_capacity bc b \<le> length es)"

fun received :: "'e bc_recv_outcome \<Rightarrow> 'e list" where
  "received (BcEvent e) = [e]"
| "received _ = []"

inductive relaying ::
  "('q, 'e) mpsc_crate \<Rightarrow> ('b, 'e) broadcast_crate \<Rightarrow> ('q, 'b) broadcast_system \<Rightarrow> 'e broadcast_history \<Rightarrow> bool"
  for mp :: "('q, 'e) mpsc_crate" and bc :: "('b, 'e) broadcast_crate" where
  created: "create_broadcast_system_with_capacity mp bc n m = Ok sys \<Longrightarrow>
    relaying mp bc sys \<lparr>bh_sent = [], bh_relayed = [], bh_start = (\<lambda>_. 0), bh_got = (\<lambda>_. []), bh_lagged = (\<lambda>_. False)\<rparr>"
| sent: "relaying mp bc sys h \<Longrightarrow> send mp e sys = Some (r, sys') \<Longrightarrow>
    relaying mp bc sys' (if r = Ok () then h\<lparr>bh_sent := bh_sent h @ [e]\<rparr> else h)"
| tried: "relaying mp bc sys h \<Longrightarrow> try_send mp e sys = (r, sys') \<Longrightarrow>
    relaying mp bc sys' (if r = Ok () then h\<lparr>bh_sent := bh_sent h @ [e]\<rparr> else h)"
| subscribed: "relaying mp bc sys h \<Longrightarrow> subscribe bc sys = (r, sys') \<Longrightarrow>
    relaying mp bc sys' (h\<lparr>bh_start := (bh_start h)(r := length (bh_relayed h)), bh_got := (bh_got h)(r := []),
                          bh_lagged := (bh_lagged h)(r := False)\<rparr>)"
| unsubscribed: "relaying mp bc sys h \<Longrightarrow> relaying mp bc (sys\<lparr>sys_broadcast := bc_drop bc r (sys_broadcast sys)\<rparr>) h"
| turned: "relaying mp bc sys h \<Longrightarrow> loop_turn mp bc sys = (LoopContinues, sys') \<Longrightarrow>
    mp_recv mp (sys_mpsc sys) = (RecvEvent e, q) \<Longrightarrow>
    relaying mp bc sys' (h\<lparr>bh_relayed := bh_relayed h @ [e],
                          bh_lagged := (\<lambda>r. bh_lagged h r \<or> full_queues bc (sys_broadcast sys) r)\<rparr>)"
| waited: "relaying mp bc sys h \<Longrightarrow> loop_turn mp bc sys = (x, sys') \<Longrightarrow> x \<noteq> LoopContinues \<Longrightarrow> relaying mp bc sys' h"
| taken: "relaying mp bc sys h \<Longrightarrow> bc_recv bc r (sys_broadcast sys) = (x, b) \<Longrightarrow>
    relaying mp bc (sys\<lparr>sys_broadcast := b\<rparr>) (h\<lparr>bh_got := (bh_got h)(r := bh_got h r @ received x)\<rparr>)"


text \<open>What a receiver has and will get: in the order of the loop, complete unless it lagged.\<close>

definition in_order :: "'e broadcast_history \<Rightarrow> nat \<Rightarrow> 'e list \<Rightarrow> bool" where
  "in_order h r q \<longleftrightarrow>
     bh_start h r \<le> length (bh_relayed h) \<and>
     subseq (bh_got h r @ q) (drop (bh_start h r) (bh_relayed h)) \<and>
     (\<not> bh_lagged h r \<longrightarrow> bh_got h r @ q = drop (bh_start h r) (bh_relayed h))"

definition relay_inv ::
  "('q, 'e) mpsc_crate \<Rightarrow> ('b, 'e) broadcast_crate \<Rightarrow> ('q, 'b) broadcast_system \<Rightarrow> 'e broadcast_history \<Rightarrow> bool" where
  "relay_inv mp bc sys h \<longleftrightarrow>
     bh_sent h = bh_relayed h @ mp_items mp (sys_mpsc sys) \<and>
     (\<forall>r q. bc_queued bc (sys_broadcast sys) r = Some q \<longrightarrow> in_order h r q)"

lemma send_items:
  assumes "mpsc_law mp" "send mp e sys = Some (r, sys')"
  shows "sys_broadcast sys' = sys_broadcast sys"
    "mp_items mp (sys_mpsc sys') = mp_items mp (sys_mpsc sys) @ (if r = Ok () then [e] else [])"
proof -
  obtain x q where x: "mp_send mp e (sys_mpsc sys) = Some (x, q)" "r = (if x then Ok () else Err ChannelClosed)"
    "sys' = sys\<lparr>sys_mpsc := q\<rparr>"
    using assms(2) by (auto simp: send_def)
  have "mp_items mp q = mp_items mp (sys_mpsc sys) @ (if x then [e] else [])"
    using assms(1) x(1) unfolding mpsc_law_def send_law_def by blast
  with x show "sys_broadcast sys' = sys_broadcast sys"
    "mp_items mp (sys_mpsc sys') = mp_items mp (sys_mpsc sys) @ (if r = Ok () then [e] else [])" by auto
qed

lemma try_send_items:
  assumes "mpsc_law mp" "try_send mp e sys = (r, sys')"
  shows "sys_broadcast sys' = sys_broadcast sys"
    "mp_items mp (sys_mpsc sys') = mp_items mp (sys_mpsc sys) @ (if r = Ok () then [e] else [])"
    "r = (if \<not> mp_open mp (sys_mpsc sys) then Err ChannelClosed
          else if length (mp_items mp (sys_mpsc sys)) < mp_capacity mp (sys_mpsc sys) then Ok () else Err ChannelFull)"
proof -
  obtain x q where x: "mp_try_send mp e (sys_mpsc sys) = (x, q)" by (cases "mp_try_send mp e (sys_mpsc sys)")
  have L: "x = (if \<not> mp_open mp (sys_mpsc sys) then TryClosed
             else if length (mp_items mp (sys_mpsc sys)) < mp_capacity mp (sys_mpsc sys) then TrySent else TryFull)"
    "mp_items mp q = mp_items mp (sys_mpsc sys) @ (if x = TrySent then [e] else [])"
    using assms(1) x unfolding mpsc_law_def try_send_law_def by blast+
  have S: "sys' = sys\<lparr>sys_mpsc := q\<rparr>"
    "r = (case x of TrySent \<Rightarrow> Ok () | TryFull \<Rightarrow> Err ChannelFull | TryClosed \<Rightarrow> Err ChannelClosed)"
    using assms(2) x by (simp_all add: try_send_def)
  show "sys_broadcast sys' = sys_broadcast sys"
    "mp_items mp (sys_mpsc sys') = mp_items mp (sys_mpsc sys) @ (if r = Ok () then [e] else [])"
    "r = (if \<not> mp_open mp (sys_mpsc sys) then Err ChannelClosed
          else if length (mp_items mp (sys_mpsc sys)) < mp_capacity mp (sys_mpsc sys) then Ok () else Err ChannelFull)"
    using L S by auto
qed

lemma recv_items:
  assumes "mpsc_law mp" "mp_recv mp q = (r, q')"
  shows "case mp_items mp q of [] \<Rightarrow> r \<in> {RecvWait, RecvEnd} \<and> mp_items mp q' = [] | e # es \<Rightarrow> r = RecvEvent e \<and> mp_items mp q' = es"
  using assms by (auto simp: mpsc_law_def recv_law_def)

lemma turn_event:
  assumes "mpsc_law mp" "loop_turn mp bc sys = (x, sys')" "mp_items mp (sys_mpsc sys) = e # es"
  shows "x = LoopContinues" "mp_items mp (sys_mpsc sys') = es"
    "sys_broadcast sys' = (if bc_count bc (sys_broadcast sys) = 0 then sys_broadcast sys else snd (bc_send bc e (sys_broadcast sys)))"
proof -
  obtain r q where r: "mp_recv mp (sys_mpsc sys) = (r, q)" by (cases "mp_recv mp (sys_mpsc sys)")
  with recv_items[OF assms(1) r] assms(2,3)
  show "x = LoopContinues" "mp_items mp (sys_mpsc sys') = es"
    "sys_broadcast sys' = (if bc_count bc (sys_broadcast sys) = 0 then sys_broadcast sys else snd (bc_send bc e (sys_broadcast sys)))"
    by (auto simp: loop_turn_def Let_def split: if_splits prod.splits)
qed

lemma turn_idle:
  assumes "mpsc_law mp" "loop_turn mp bc sys = (x, sys')" "mp_items mp (sys_mpsc sys) = []"
  shows "x \<noteq> LoopContinues" "mp_items mp (sys_mpsc sys') = []" "sys_broadcast sys' = sys_broadcast sys"
proof -
  obtain r q where r: "mp_recv mp (sys_mpsc sys) = (r, q)" by (cases "mp_recv mp (sys_mpsc sys)")
  with recv_items[OF assms(1) r] assms(2,3)
  show "x \<noteq> LoopContinues" "mp_items mp (sys_mpsc sys') = []" "sys_broadcast sys' = sys_broadcast sys"
    by (auto simp: loop_turn_def)
qed

lemma no_receivers: "broadcast_law bc \<Longrightarrow> bc_count bc b = 0 \<Longrightarrow> bc_queued bc b r = None"
  by (simp add: broadcast_law_def receivers_law_def)

lemma send_queued:
  assumes "broadcast_law bc"
  shows "rel_option (queued_after (bc_capacity bc b) e) (bc_queued bc b r) (bc_queued bc (snd (bc_send bc e b)) r)"
  using assms by (cases "bc_send bc e b") (auto simp: broadcast_law_def bc_send_law_def)

lemma in_order_relay:
  assumes "in_order h r q" "queued_after cap e q q'" "cap \<le> length q \<longrightarrow> l r" "bh_lagged h r \<longrightarrow> l r"
  shows "in_order (h\<lparr>bh_relayed := bh_relayed h @ [e], bh_lagged := l\<rparr>) r q'"
proof -
  have "subseq q' (q @ [e])" using assms(2) by (auto simp: queued_after_def intro: suffix_imp_subseq)
  then have "subseq (bh_got h r @ q') (bh_got h r @ q @ [e])" by (intro list_emb_append_mono) simp_all
  moreover have "subseq ((bh_got h r @ q) @ [e]) (drop (bh_start h r) (bh_relayed h) @ [e])"
    using assms(1) by (intro list_emb_append_mono) (simp_all add: in_order_def)
  ultimately have "subseq (bh_got h r @ q') (drop (bh_start h r) (bh_relayed h) @ [e])"
    by (metis append.assoc subseq_order.order_trans)
  then show ?thesis using assms by (auto simp: in_order_def queued_after_def)
qed

lemma in_order_take:
  "in_order h r (e # q) \<Longrightarrow> in_order (h\<lparr>bh_got := (bh_got h)(r := bh_got h r @ [e])\<rparr>) r q"
  by (simp add: in_order_def)

lemma relaying_inv:
  assumes laws: "mpsc_law mp" "broadcast_law bc" and "relaying mp bc sys h"
  shows "relay_inv mp bc sys h"
  using assms(3)
proof (induction rule: relaying.induct)
  case (created n m sys)
  then obtain q b r where "mp_channel mp n = Ok q" "bc_channel bc m = Ok (b, r)"
    "sys = \<lparr>sys_mpsc = q, sys_broadcast = bc_drop bc r b\<rparr>"
    by (auto simp: create_broadcast_system_with_capacity_def res_simps)
  with laws show ?case
    by (auto simp: relay_inv_def mpsc_law_def channel_law_def broadcast_law_def receivers_law_def)
next
  case (sent sys h e r sys')
  with send_items[OF laws(1) sent.hyps(2)] show ?case by (auto simp: relay_inv_def in_order_def)
next
  case (tried sys h e r sys')
  with try_send_items[OF laws(1) tried.hyps(2)] show ?case by (auto simp: relay_inv_def in_order_def)
next
  case (subscribed sys h r sys')
  then obtain b where "bc_subscribe bc (sys_broadcast sys) = (r, b)" "sys' = sys\<lparr>sys_broadcast := b\<rparr>"
    by (auto simp: subscribe_def split: prod.splits)
  with laws(2) subscribed.IH show ?case
    by (auto simp: relay_inv_def in_order_def broadcast_law_def receivers_law_def)
next
  case (unsubscribed sys h r)
  then show ?case using laws(2) by (auto simp: relay_inv_def broadcast_law_def receivers_law_def)
next
  case (turned sys h sys' e q)
  let ?b = "sys_broadcast sys"
  from recv_items[OF laws(1) turned.hyps(3)] obtain es where es: "mp_items mp (sys_mpsc sys) = e # es"
    by (cases "mp_items mp (sys_mpsc sys)") auto
  note T = turn_event[OF laws(1) turned.hyps(2) es]
  let ?h = "h\<lparr>bh_relayed := bh_relayed h @ [e], bh_lagged := (\<lambda>r. bh_lagged h r \<or> full_queues bc ?b r)\<rparr>"
  have "in_order ?h r q'" if q': "bc_queued bc (sys_broadcast sys') r = Some q'" for r q'
  proof (cases "bc_count bc ?b = 0")
    case True
    with T(3) q' no_receivers[OF laws(2) True] show ?thesis by simp
  next
    case False
    with T(3) q' send_queued[OF laws(2), of ?b e r] obtain q where
      q: "bc_queued bc ?b r = Some q" "queued_after (bc_capacity bc ?b) e q q'" by (auto simp: rel_option_iff split: option.splits)
    with turned.IH have "in_order h r q" by (simp add: relay_inv_def)
    from in_order_relay[OF this q(2)] q(1) show ?thesis by (simp add: full_queues_def)
  qed
  with turned.IH es T(2) show ?case by (simp add: relay_inv_def)
next
  case (waited sys h x sys')
  then have "mp_items mp (sys_mpsc sys) = []"
    using turn_event(1)[OF laws(1) waited.hyps(2)] by (cases "mp_items mp (sys_mpsc sys)") auto
  with turn_idle[OF laws(1) waited.hyps(2)] waited.IH show ?case by (simp add: relay_inv_def)
next
  case (taken sys h r x b)
  have R: "case x of BcEvent e \<Rightarrow> \<exists>es. bc_queued bc (sys_broadcast sys) r = Some (e # es) \<and>
      bc_queued bc b = (bc_queued bc (sys_broadcast sys))(r \<mapsto> es)
    | _ \<Rightarrow> bc_queued bc b = bc_queued bc (sys_broadcast sys)"
    using laws(2) taken.hyps(2) by (simp add: broadcast_law_def bc_recv_law_def)
  with taken.IH show ?case
    by (cases x) (auto simp: relay_inv_def in_order_def)
qed

text \<open>
  C26: every subscriber gets the events in the order in which the projectors sent them. Whatever
  the interleaving of senders, subscribers and the loop, the accepted events are those the loop
  has taken followed by those in the channel; what a receiver has got and still has queued is a
  subsequence of the events the loop took since it subscribed, and all of them, without a gap,
  if it never let its queue fill up.
\<close>

theorem broadcast_in_order:
  assumes "mpsc_law mp" "broadcast_law bc" "relaying mp bc sys h" "bc_queued bc (sys_broadcast sys) r = Some q"
  shows "bh_sent h = bh_relayed h @ mp_items mp (sys_mpsc sys) \<and>
    subseq (bh_got h r @ q) (drop (bh_start h r) (bh_relayed h)) \<and>
    (\<not> bh_lagged h r \<longrightarrow> bh_got h r @ q = drop (bh_start h r) (bh_relayed h))"
  using relaying_inv[OF assms(1-3)] assms(4) by (auto simp: relay_inv_def in_order_def)

definition sample_relay :: "(nat \<times> nat list, nat \<times> (nat \<times> nat list) list) broadcast_system" where
  "sample_relay = \<lparr>sys_mpsc = (2, [8]), sys_broadcast = (4, [(1, [7])])\<rparr>"

definition sample_relay_history :: "nat broadcast_history" where
  "sample_relay_history =
     \<lparr>bh_sent = [7, 8], bh_relayed = [7], bh_start = (\<lambda>_. 0)(1 := 0), bh_got = (\<lambda>_. [])(1 := []),
      bh_lagged = (\<lambda>r. ((\<lambda>_. False)(1 := False)) r \<or> full_queues list_broadcast (4, [(1, [] :: nat list)]) r)\<rparr>"

lemma sample_relaying: "relaying list_mpsc list_broadcast sample_relay sample_relay_history"
proof -
  let ?h0 = "\<lparr>bh_sent = [], bh_relayed = [], bh_start = (\<lambda>_. 0), bh_got = (\<lambda>_. []), bh_lagged = (\<lambda>_. False)\<rparr> :: nat broadcast_history"
  let ?h1 = "?h0\<lparr>bh_start := (\<lambda>_. 0)(1 := 0), bh_got := (\<lambda>_. [])(1 := []), bh_lagged := (\<lambda>_. False)(1 := False)\<rparr>"
  have "relaying list_mpsc list_broadcast \<lparr>sys_mpsc = (2, []), sys_broadcast = (4, [])\<rparr> ?h0"
    by (rule relaying.created[of _ _ 2 4])
      (simp add: create_broadcast_system_with_capacity_def list_mpsc_def list_broadcast_def)
  from relaying.subscribed[OF this, of 1 "\<lparr>sys_mpsc = (2, []), sys_broadcast = (4, [(1, [])])\<rparr>"]
  have "relaying list_mpsc list_broadcast \<lparr>sys_mpsc = (2, []), sys_broadcast = (4, [(1, [])])\<rparr> ?h1"
    by (simp add: subscribe_def list_broadcast_def)
  from relaying.sent[OF this, of 7 "Ok ()" "\<lparr>sys_mpsc = (2, [7]), sys_broadcast = (4, [(1, [])])\<rparr>"]
  have "relaying list_mpsc list_broadcast \<lparr>sys_mpsc = (2, [7]), sys_broadcast = (4, [(1, [])])\<rparr> (?h1\<lparr>bh_sent := [7]\<rparr>)"
    by (simp add: send_def list_mpsc_def)
  from relaying.tried[OF this, of 8 "Ok ()" "\<lparr>sys_mpsc = (2, [7, 8]), sys_broadcast = (4, [(1, [])])\<rparr>"]
  have "relaying list_mpsc list_broadcast \<lparr>sys_mpsc = (2, [7, 8]), sys_broadcast = (4, [(1, [])])\<rparr> (?h1\<lparr>bh_sent := [7, 8]\<rparr>)"
    by (simp add: try_send_def list_mpsc_def)
  from relaying.turned[OF this, of sample_relay 7 "(2, [8])"]
  show ?thesis
    by (simp add: loop_turn_def list_mpsc_def list_broadcast_def sample_relay_def sample_relay_history_def newest_def)
qed

theorem broadcast_in_order_witness:
  "\<not> bh_lagged sample_relay_history 1 \<and> bh_got sample_relay_history 1 @ [7] = drop (bh_start sample_relay_history 1) (bh_relayed sample_relay_history)"
proof -
  have "bc_queued list_broadcast (sys_broadcast sample_relay) 1 = Some [7]" "\<not> bh_lagged sample_relay_history 1"
    by (simp_all add: list_broadcast_def sample_relay_def sample_relay_history_def full_queues_def)
  with broadcast_in_order[OF list_mpsc_law list_broadcast_law sample_relaying] show ?thesis by blast
qed

lemma run_loop_drain:
  assumes "mpsc_law mp" "broadcast_law bc" "length (mp_items mp (sys_mpsc sys)) < fuel"
  shows "\<exists>x sys'. run_loop fuel mp bc sys = Some (x, sys') \<and> x \<noteq> LoopContinues \<and> mp_items mp (sys_mpsc sys') = [] \<and>
    (\<forall>r q. bc_queued bc (sys_broadcast sys) r = Some q \<longrightarrow>
       length q + length (mp_items mp (sys_mpsc sys)) \<le> bc_capacity bc (sys_broadcast sys) \<longrightarrow>
       bc_queued bc (sys_broadcast sys') r = Some (q @ mp_items mp (sys_mpsc sys)))"
  using assms(3)
proof (induction fuel arbitrary: sys)
  case (Suc fuel)
  obtain x sys1 where turn: "loop_turn mp bc sys = (x, sys1)" by (cases "loop_turn mp bc sys")
  show ?case
  proof (cases "mp_items mp (sys_mpsc sys)")
    case Nil
    with turn_idle[OF assms(1) turn] turn show ?thesis by (cases x) auto
  next
    case (Cons e es)
    note T = turn_event[OF assms(1) turn Cons]
    let ?b = "sys_broadcast sys"
    have cap: "bc_capacity bc (sys_broadcast sys1) = bc_capacity bc ?b"
      using T(3) assms(2) by (cases "bc_send bc e ?b") (auto simp: broadcast_law_def bc_send_law_def)
    have q: "bc_queued bc (sys_broadcast sys1) r = Some (q @ [e])"
      if "bc_queued bc ?b r = Some q" "length q < bc_capacity bc ?b" for r q
      using that T(3) send_queued[OF assms(2), of ?b e r] no_receivers[OF assms(2), of ?b r]
      by (auto simp: rel_option_iff queued_after_def split: option.splits if_splits)
    from Suc T(2) Cons obtain y sys' where
      "run_loop fuel mp bc sys1 = Some (y, sys')" "y \<noteq> LoopContinues" "mp_items mp (sys_mpsc sys') = []"
      "\<forall>r q. bc_queued bc (sys_broadcast sys1) r = Some q \<longrightarrow>
       length q + length es \<le> bc_capacity bc (sys_broadcast sys1) \<longrightarrow>
       bc_queued bc (sys_broadcast sys') r = Some (q @ es)"
      using Suc.IH[of sys1] by auto
    with T(1) turn Cons cap q show ?thesis by fastforce
  qed
qed simp

text \<open>
  C27: the loop drains its channel. With fuel for one turn per waiting event and one more, a run
  of the loop ends waiting or stopped with an empty channel, and every receiver with room for
  them has exactly the waiting events, in order, behind what it had.
\<close>

theorem run_loop_drains:
  assumes "mpsc_law mp" "broadcast_law bc" "length (mp_items mp (sys_mpsc sys)) < fuel"
  shows "\<exists>x sys'. run_loop fuel mp bc sys = Some (x, sys') \<and> x \<noteq> LoopContinues \<and> mp_items mp (sys_mpsc sys') = [] \<and>
    (\<forall>r q. bc_queued bc (sys_broadcast sys) r = Some q \<longrightarrow>
       length q + length (mp_items mp (sys_mpsc sys)) \<le> bc_capacity bc (sys_broadcast sys) \<longrightarrow>
       bc_queued bc (sys_broadcast sys') r = Some (q @ mp_items mp (sys_mpsc sys)))"
  by (rule run_loop_drain[OF assms])

theorem run_loop_drains_witness:
  "\<exists>x sys'. run_loop 2 list_mpsc list_broadcast sample_relay = Some (x, sys') \<and>
     bc_queued list_broadcast (sys_broadcast sys') 1 = Some [7, 8]"
proof -
  have "length (mp_items list_mpsc (sys_mpsc sample_relay)) < 2" "mp_items list_mpsc (sys_mpsc sample_relay) = [8]"
    "bc_queued list_broadcast (sys_broadcast sample_relay) 1 = Some [7]" "bc_capacity list_broadcast (sys_broadcast sample_relay) = 4"
    by (simp_all add: list_mpsc_def list_broadcast_def sample_relay_def)
  with run_loop_drains[OF list_mpsc_law list_broadcast_law this(1)] show ?thesis by fastforce
qed

end
