(* ===== verification/Notifications.thy ===== *)
theory Notifications
  imports Broadcast Sql
begin

section \<open>The notifications store (\<open>src/notifications_store.rs\<close>)\<close>

text \<open>
  A separate database keeps, for every request, its latest stream event until it expires. The
  state is the tables of that database; a call takes the clock in seconds and the errors of the
  database calls it makes. \<open>json_crate\<close> holds what the store uses of serde_json. The contract is
  \<open>latest\<close>: the store as a map from requests to the last recorded event and its expiry.
\<close>

record 'j json_crate =
  value_to_string :: "'j \<Rightarrow> string"
  value_from_str :: "string \<Rightarrow> 'j option"
  items_to_string :: "item_progress list \<Rightarrow> string option"
  items_from_str :: "string \<Rightarrow> item_progress list option"

record notification_row =
  nr_request_id :: string
  nr_stream_id :: string
  nr_timestamp :: int
  nr_kind :: string
  nr_current_step :: int
  nr_total_steps :: int
  nr_step_name :: string
  nr_payload :: "string option"
  nr_error_message :: "string option"
  nr_retriable :: "int option"
  nr_items :: "string option"
  nr_created_at :: int
  nr_expires_at :: int

record notification_tables =
  nt_completions :: bool
  nt_stream_events :: "notification_row list option"
  nt_expires_index :: bool

record notifications_store =
  ns_tables :: notification_tables
  ns_ttl :: duration

datatype notif_call =
  NtPath | NtBuild | NtConnect | NtDropCompletions | NtCreateTable | NtCreateIndex | NtExecute | NtQuery | NtRow

subsection \<open>Opening\<close>

definition DEFAULT_TTL_SECS :: nat where "DEFAULT_TTL_SECS = 300"

definition no_tables :: notification_tables where
  "no_tables = \<lparr>nt_completions = False, nt_stream_events = None, nt_expires_index = False\<rparr>"

text \<open>\<open>db\<close> is the database found at the path, \<open>None\<close> when there is none; the failure of the DROP is ignored.\<close>

definition with_ttl ::
  "notif_call faults \<Rightarrow> duration \<Rightarrow> notification_tables option
     \<Rightarrow> notifications_store result \<times> notification_tables option" where
  "with_ttl flt ttl db =
     (case flt NtPath of Some e \<Rightarrow> (Err e, db) | None \<Rightarrow>
     (case flt NtBuild of Some e \<Rightarrow> (Err e, db) | None \<Rightarrow>
      (let t = (case db of None \<Rightarrow> no_tables | Some t \<Rightarrow> t) in
       case flt NtConnect of Some e \<Rightarrow> (Err e, Some t) | None \<Rightarrow>
       (let t = (case flt NtDropCompletions of Some _ \<Rightarrow> t | None \<Rightarrow> t\<lparr>nt_completions := False\<rparr>) in
        case flt NtCreateTable of Some e \<Rightarrow> (Err e, Some t) | None \<Rightarrow>
        (let t = t\<lparr>nt_stream_events := Some (case nt_stream_events t of None \<Rightarrow> [] | Some rows \<Rightarrow> rows)\<rparr> in
         case flt NtCreateIndex of Some e \<Rightarrow> (Err e, Some t) | None \<Rightarrow>
         (let t = t\<lparr>nt_expires_index := True\<rparr> in (Ok \<lparr>ns_tables = t, ns_ttl = ttl\<rparr>, Some t)))))))"

definition store_new ::
  "notif_call faults \<Rightarrow> notification_tables option \<Rightarrow> notifications_store result \<times> notification_tables option" where
  "store_new flt db = with_ttl flt (from_secs DEFAULT_TTL_SECS) db"

subsection \<open>Recording\<close>

fun kind_text :: "event_kind \<Rightarrow> string" where
  "kind_text Progress = ''progress''"
| "kind_text Completed = ''completed''"
| "kind_text Failed = ''failed''"

definition notification_of :: "'j json_crate \<Rightarrow> int \<Rightarrow> duration \<Rightarrow> 'j stream_event \<Rightarrow> notification_row" where
  "notification_of js now ttl event =
     \<lparr>nr_request_id = se_request_id event, nr_stream_id = se_stream_id event, nr_timestamp = se_timestamp event,
      nr_kind = kind_text (se_kind event), nr_current_step = int (se_current_step event),
      nr_total_steps = int (se_total_steps event), nr_step_name = se_step_name event,
      nr_payload = map_option (value_to_string js) (se_payload event), nr_error_message = se_error_message event,
      nr_retriable = map_option (\<lambda>r. if r then 1 else 0) (se_retriable event),
      nr_items =
        (if se_items event = [] then None
         else Some (case items_to_string js (se_items event) of None \<Rightarrow> '''' | Some s \<Rightarrow> s)),
      nr_created_at = now, nr_expires_at = wrap64 (now + wrap64 (int (as_secs ttl)))\<rparr>"

definition with_rows ::
  "turso_msgs \<Rightarrow> (notification_row list \<Rightarrow> 'a result \<times> notification_row list) \<Rightarrow> notifications_store
     \<Rightarrow> 'a result \<times> notifications_store" where
  "with_rows tm f store =
     (case nt_stream_events (ns_tables store) of
        None \<Rightarrow> (Err (Db (no_such_table tm ''stream_events'')), store)
      | Some rows \<Rightarrow>
          (case f rows of (r, rows) \<Rightarrow> (r, store\<lparr>ns_tables := (ns_tables store)\<lparr>nt_stream_events := Some rows\<rparr>\<rparr>)))"

definition record_event ::
  "turso_msgs \<Rightarrow> 'j json_crate \<Rightarrow> notif_call faults \<Rightarrow> int \<Rightarrow> 'j stream_event \<Rightarrow> notifications_store
     \<Rightarrow> unit result \<times> notifications_store" where
  "record_event tm js flt now event store =
     (case flt NtConnect of Some e \<Rightarrow> (Err e, store) | None \<Rightarrow>
     (case flt NtExecute of Some e \<Rightarrow> (Err e, store) | None \<Rightarrow>
      with_rows tm (\<lambda>rows. (Ok (), upsert_by nr_request_id (notification_of js now (ns_ttl store) event) rows)) store))"

subsection \<open>Reading\<close>

definition notification_columns :: "notification_row \<Rightarrow> sql_row" where
  "notification_columns r =
     [Text (nr_stream_id r), Integer (nr_timestamp r), Text (nr_kind r), Integer (nr_current_step r),
      Integer (nr_total_steps r), Text (nr_step_name r), opt_text (nr_payload r), opt_text (nr_error_message r),
      opt_integer (nr_retriable r), opt_text (nr_items r)]"

definition kind_of_text :: "string \<Rightarrow> event_kind" where
  "kind_of_text s = (if s = ''progress'' then Progress else if s = ''completed'' then Completed else Failed)"

text \<open>\<open>as u32\<close>, and the accessors that fall back when the column is missing or of another type.\<close>

definition as_u32 :: "int \<Rightarrow> nat" where
  "as_u32 i = nat (i mod 4294967296)"

definition step_column :: "turso_msgs \<Rightarrow> sql_row \<Rightarrow> nat \<Rightarrow> nat result" where
  "step_column tm row i =
     rbind (get_value tm row i) (\<lambda>v. Ok (as_u32 (case as_integer v of None \<Rightarrow> 0 | Some n \<Rightarrow> n)))"

definition text_or_none :: "turso_msgs \<Rightarrow> sql_row \<Rightarrow> nat \<Rightarrow> string option" where
  "text_or_none tm row i = (case get_value tm row i of Ok v \<Rightarrow> as_text v | _ \<Rightarrow> None)"

definition integer_or_none :: "turso_msgs \<Rightarrow> sql_row \<Rightarrow> nat \<Rightarrow> int option" where
  "integer_or_none tm row i = (case get_value tm row i of Ok v \<Rightarrow> as_integer v | _ \<Rightarrow> None)"

definition notification_from_row ::
  "turso_msgs \<Rightarrow> 'j json_crate \<Rightarrow> string \<Rightarrow> sql_row \<Rightarrow> 'j stream_event result" where
  "notification_from_row tm js request_id row =
     rbind (get_value tm row 0) (\<lambda>v. rbind (ok_or (Cursor ''Expected text for stream_id'') (as_text v)) (\<lambda>stream_id.
     rbind (get_value tm row 1) (\<lambda>v. rbind (ok_or (Cursor ''Expected integer for timestamp'') (as_integer v)) (\<lambda>timestamp.
     rbind (get_value tm row 2) (\<lambda>v. rbind (ok_or (Cursor ''Expected text for kind'') (as_text v)) (\<lambda>kind_str.
     rbind (step_column tm row 3) (\<lambda>current_step.
     rbind (step_column tm row 4) (\<lambda>total_steps.
     Ok \<lparr>se_request_id = request_id, se_stream_id = stream_id, se_timestamp = timestamp, se_kind = kind_of_text kind_str,
         se_current_step = current_step, se_total_steps = total_steps,
         se_step_name = (case text_or_none tm row 5 of None \<Rightarrow> '''' | Some s \<Rightarrow> s),
         se_payload = Option.bind (text_or_none tm row 6) (value_from_str js),
         se_error_message = text_or_none tm row 7,
         se_retriable = map_option (\<lambda>r. r \<noteq> 0) (integer_or_none tm row 8),
         se_items = (case Option.bind (text_or_none tm row 9) (items_from_str js) of None \<Rightarrow> [] | Some items \<Rightarrow> items)\<rparr>))))))))"

definition select_notification :: "string \<Rightarrow> int \<Rightarrow> notification_row list \<Rightarrow> notification_row list" where
  "select_notification request_id now rows =
     filter (\<lambda>r. nr_request_id r = request_id \<and> now < nr_expires_at r) rows"

definition get_event ::
  "turso_msgs \<Rightarrow> 'j json_crate \<Rightarrow> notif_call faults \<Rightarrow> int \<Rightarrow> string \<Rightarrow> notifications_store
     \<Rightarrow> 'j stream_event option result" where
  "get_event tm js flt now request_id store =
     (case flt NtConnect of Some e \<Rightarrow> Err e | None \<Rightarrow>
     (case flt NtQuery of Some e \<Rightarrow> Err e | None \<Rightarrow>
      fst (with_rows tm (\<lambda>rows.
        (case flt NtRow of Some e \<Rightarrow> Err e | None \<Rightarrow>
         (case select_notification request_id now rows of
            [] \<Rightarrow> Ok None
          | r # _ \<Rightarrow> rbind (notification_from_row tm js request_id (notification_columns r)) (\<lambda>event. Ok (Some event))), rows))
        store)))"

subsection \<open>Cleanup\<close>

definition cleanup ::
  "turso_msgs \<Rightarrow> notif_call faults \<Rightarrow> int \<Rightarrow> notifications_store \<Rightarrow> nat result \<times> notifications_store" where
  "cleanup tm flt now store =
     (case flt NtConnect of Some e \<Rightarrow> (Err e, store) | None \<Rightarrow>
     (case flt NtExecute of Some e \<Rightarrow> (Err e, store) | None \<Rightarrow>
      with_rows tm (\<lambda>rows.
        (Ok (length (filter (\<lambda>r. nr_expires_at r < now) rows)), filter (\<lambda>r. \<not> nr_expires_at r < now) rows)) store))"

subsection \<open>The store as a map\<close>

interpretation notif: keyed_table nr_request_id "upsert_by nr_request_id"
  by (rule keyed_table_upsert)

text \<open>An event the store can give back: \<open>u32\<close> steps, JSON texts that parse back.\<close>

definition event_storable :: "'j json_crate \<Rightarrow> 'j stream_event \<Rightarrow> bool" where
  "event_storable js event \<longleftrightarrow>
     se_current_step event < 4294967296 \<and> se_total_steps event < 4294967296 \<and>
     (case se_payload event of None \<Rightarrow> True | Some j \<Rightarrow> value_from_str js (value_to_string js j) = Some j) \<and>
     (se_items event = [] \<or> Option.bind (items_to_string js (se_items event)) (items_from_str js) = Some (se_items event))"

definition row_event :: "turso_msgs \<Rightarrow> 'j json_crate \<Rightarrow> notification_row \<Rightarrow> 'j stream_event result" where
  "row_event tm js r = notification_from_row tm js (nr_request_id r) (notification_columns r)"

definition rows_of_store :: "notifications_store \<Rightarrow> notification_row list" where
  "rows_of_store store = (case nt_stream_events (ns_tables store) of None \<Rightarrow> [] | Some rows \<Rightarrow> rows)"

definition notifications_inv :: "turso_msgs \<Rightarrow> 'j json_crate \<Rightarrow> notifications_store \<Rightarrow> bool" where
  "notifications_inv tm js store \<longleftrightarrow>
     nt_stream_events (ns_tables store) \<noteq> None \<and> distinct (map nr_request_id (rows_of_store store)) \<and>
     (\<forall>r \<in> set (rows_of_store store). \<exists>event. row_event tm js r = Ok event)"

definition latest :: "turso_msgs \<Rightarrow> 'j json_crate \<Rightarrow> notifications_store \<Rightarrow> string \<Rightarrow> ('j stream_event \<times> int) option" where
  "latest tm js store request_id =
     (case find_by nr_request_id request_id (rows_of_store store) of
        None \<Rightarrow> None
      | Some r \<Rightarrow> (case row_event tm js r of Ok event \<Rightarrow> Some (event, nr_expires_at r) | _ \<Rightarrow> None))"

lemma as_u32_id: "n < 4294967296 \<Longrightarrow> as_u32 (int n) = n"
  by (simp add: as_u32_def)

lemma kind_roundtrip: "kind_of_text (kind_text k) = k"
  by (cases k) (simp_all add: kind_of_text_def)

lemma notification_decodes:
  assumes "event_storable js event"
  shows "row_event tm js (notification_of js now ttl event) = Ok event"
proof -
  have "map_option (\<lambda>r. r \<noteq> 0) (map_option (\<lambda>r. if r then 1 else (0 :: int)) b) = b" for b
    by (cases b) auto
  then show ?thesis
    using assms
    by (cases event; cases "se_items event"; cases "se_payload event"; cases "items_to_string js (se_items event)")
      (auto simp: row_event_def notification_from_row_def notification_columns_def notification_of_def step_column_def
        text_or_none_def integer_or_none_def kind_roundtrip as_u32_id event_storable_def ok_or_def)
qed

lemma with_rows_some:
  "nt_stream_events (ns_tables store) \<noteq> None \<Longrightarrow> with_rows tm f store =
     (fst (f (rows_of_store store)), store\<lparr>ns_tables := (ns_tables store)\<lparr>nt_stream_events := Some (snd (f (rows_of_store store)))\<rparr>\<rparr>)"
  by (auto simp: with_rows_def rows_of_store_def split: option.splits prod.splits)

lemma store_rows_update [simp]:
  "rows_of_store (store\<lparr>ns_tables := t\<lparr>nt_stream_events := Some rows\<rparr>\<rparr>) = rows"
  by (simp add: rows_of_store_def)

lemma latest_find:
  assumes "notifications_inv tm js store" "find_by nr_request_id request_id (rows_of_store store) = Some r"
  obtains event where "row_event tm js r = Ok event" "latest tm js store request_id = Some (event, nr_expires_at r)"
    "nr_request_id r = request_id"
proof -
  have r: "r \<in> set (rows_of_store store)" "nr_request_id r = request_id"
    using assms notif.find_iff[of "rows_of_store store"] by (auto simp: notifications_inv_def)
  with assms(1) obtain event where "row_event tm js r = Ok event" by (auto simp: notifications_inv_def)
  with that r assms(2) show thesis by (simp add: latest_def)
qed

lemma record_latest:
  assumes "notifications_inv tm js store" "event_storable js event" "flt NtConnect = None" "flt NtExecute = None"
  shows "fst (record_event tm js flt now event store) = Ok ()"
    "notifications_inv tm js (snd (record_event tm js flt now event store))"
    "ns_ttl (snd (record_event tm js flt now event store)) = ns_ttl store"
    "latest tm js (snd (record_event tm js flt now event store)) =
       (latest tm js store)(se_request_id event \<mapsto> (event, wrap64 (now + wrap64 (int (as_secs (ns_ttl store))))))"
proof -
  let ?row = "notification_of js now (ns_ttl store) event"
  let ?rows = "upsert_by nr_request_id ?row (rows_of_store store)"
  have tab: "nt_stream_events (ns_tables store) \<noteq> None" and dist: "distinct (map nr_request_id (rows_of_store store))"
    using assms(1) by (simp_all add: notifications_inv_def)
  have run: "record_event tm js flt now event store =
      (Ok (), store\<lparr>ns_tables := (ns_tables store)\<lparr>nt_stream_events := Some ?rows\<rparr>\<rparr>)"
    using assms(3,4) by (simp add: record_event_def with_rows_some[OF tab])
  have key: "nr_request_id ?row = se_request_id event" "nr_expires_at ?row = wrap64 (now + wrap64 (int (as_secs (ns_ttl store))))"
    by (simp_all add: notification_of_def)
  note dec = notification_decodes[OF assms(2), of tm now "ns_ttl store"]
  show "fst (record_event tm js flt now event store) = Ok ()"
    "ns_ttl (snd (record_event tm js flt now event store)) = ns_ttl store" by (simp_all add: run)
  show "notifications_inv tm js (snd (record_event tm js flt now event store))"
    using assms(1) dec notif.put_distinct[OF dist] by (auto simp: run notifications_inv_def notif.put_rows[OF dist])
  show "latest tm js (snd (record_event tm js flt now event store)) =
       (latest tm js store)(se_request_id event \<mapsto> (event, wrap64 (now + wrap64 (int (as_secs (ns_ttl store))))))"
  proof
    fix q
    show "latest tm js (snd (record_event tm js flt now event store)) q =
       ((latest tm js store)(se_request_id event \<mapsto> (event, wrap64 (now + wrap64 (int (as_secs (ns_ttl store))))))) q"
      using notif.find_put_same[OF dist, of ?row] notif.find_put_other[OF dist, of q ?row] dec key
      by (simp add: run latest_def)
  qed
qed

lemma select_find:
  "distinct (map nr_request_id rows) \<Longrightarrow> select_notification request_id now rows =
     (case find_by nr_request_id request_id rows of None \<Rightarrow> [] | Some r \<Rightarrow> if now < nr_expires_at r then [r] else [])"
proof (induction rows)
  case (Cons r rows)
  have "select_notification request_id now rows = []" if "nr_request_id r = request_id"
    using Cons.prems that by (auto simp: select_notification_def filter_empty_conv image_iff)
  with Cons show ?case by (auto simp: find_by_def select_notification_def)
qed (simp add: find_by_def select_notification_def)

lemma get_latest:
  assumes "notifications_inv tm js store" "flt NtConnect = None" "flt NtQuery = None" "flt NtRow = None"
  shows "get_event tm js flt now request_id store =
    Ok (case latest tm js store request_id of None \<Rightarrow> None
        | Some (event, expires) \<Rightarrow> if now < expires then Some event else None)"
proof -
  have tab: "nt_stream_events (ns_tables store) \<noteq> None" and dist: "distinct (map nr_request_id (rows_of_store store))"
    using assms(1) by (simp_all add: notifications_inv_def)
  show ?thesis
  proof (cases "find_by nr_request_id request_id (rows_of_store store)")
    case None
    with assms(2-4) show ?thesis
      by (simp add: get_event_def with_rows_some[OF tab] select_find[OF dist] latest_def)
  next
    case (Some r)
    from latest_find[OF assms(1) Some] obtain event where
      "row_event tm js r = Ok event" "latest tm js store request_id = Some (event, nr_expires_at r)" "nr_request_id r = request_id" .
    with assms(2-4) Some show ?thesis
      by (auto simp: get_event_def with_rows_some[OF tab] select_find[OF dist] row_event_def)
  qed
qed

lemma find_filter:
  assumes "distinct (map key t)"
  shows "find_by key k (filter P t) = (case find_by key k t of None \<Rightarrow> None | Some x \<Rightarrow> if P x then Some x else None)"
  using assms
proof (induction t)
  case (Cons x t)
  have "find_by key k t = None" if "key x = k"
    using Cons.prems that by (auto simp: find_by_def find_None_iff image_iff)
  with Cons show ?case by (auto simp: find_by_def split: option.splits)
qed (simp add: find_by_def)

lemma cleanup_latest:
  assumes "notifications_inv tm js store" "flt NtConnect = None" "flt NtExecute = None"
  shows "fst (cleanup tm flt now store) = Ok (length (filter (\<lambda>r. nr_expires_at r < now) (rows_of_store store)))"
    "notifications_inv tm js (snd (cleanup tm flt now store))"
    "latest tm js (snd (cleanup tm flt now store)) q =
       (case latest tm js store q of None \<Rightarrow> None
        | Some (event, expires) \<Rightarrow> if expires < now then None else Some (event, expires))"
proof -
  have tab: "nt_stream_events (ns_tables store) \<noteq> None" and dist: "distinct (map nr_request_id (rows_of_store store))"
    using assms(1) by (simp_all add: notifications_inv_def)
  let ?rows = "filter (\<lambda>r. \<not> nr_expires_at r < now) (rows_of_store store)"
  have run: "cleanup tm flt now store =
      (Ok (length (filter (\<lambda>r. nr_expires_at r < now) (rows_of_store store))),
       store\<lparr>ns_tables := (ns_tables store)\<lparr>nt_stream_events := Some ?rows\<rparr>\<rparr>)"
    using assms(2,3) by (simp add: cleanup_def with_rows_some[OF tab])
  show "fst (cleanup tm flt now store) = Ok (length (filter (\<lambda>r. nr_expires_at r < now) (rows_of_store store)))"
    by (simp add: run)
  show "notifications_inv tm js (snd (cleanup tm flt now store))"
    using assms(1) by (simp add: run notifications_inv_def distinct_map_filter)
  show "latest tm js (snd (cleanup tm flt now store)) q =
       (case latest tm js store q of None \<Rightarrow> None
        | Some (event, expires) \<Rightarrow> if expires < now then None else Some (event, expires))"
    by (simp add: run latest_def find_filter[OF dist] split: option.splits res.splits)
qed

subsection \<open>Properties\<close>

text \<open>Sample values for the witnesses.\<close>

definition sample_json :: "string json_crate" where
  "sample_json =
     \<lparr>value_to_string = (\<lambda>j. j), value_from_str = Some, items_to_string = (\<lambda>_. None), items_from_str = (\<lambda>_. None)\<rparr>"

definition sample_event_done :: "string stream_event" where
  "sample_event_done = completed 1000 ''req-1'' ''stream-1'' 3 (Some ''{}'')"

definition sample_store :: notifications_store where
  "sample_store = \<lparr>ns_tables = no_tables\<lparr>nt_stream_events := Some []\<rparr>, ns_ttl = from_secs 300\<rparr>"

lemma sample_store_inv: "notifications_inv quiet_msgs sample_json sample_store"
  by (simp add: notifications_inv_def sample_store_def rows_of_store_def)

lemma sample_event_storable: "event_storable sample_json sample_event_done"
  by (simp add: event_storable_def sample_event_done_def sample_json_def completed_def)

text \<open>
  C23: the store is a map from requests to their latest event. \<open>record\<close> succeeds, keeps the store
  well-formed and is exactly the update of the map at the event's request, with the clock plus
  the TTL as its expiry: an upsert replaces the older event and touches no other request.
\<close>

theorem record_refines_map:
  assumes "notifications_inv tm js store" "event_storable js event" "flt NtConnect = None" "flt NtExecute = None"
  shows "\<exists>store'. record_event tm js flt now event store = (Ok (), store') \<and> notifications_inv tm js store' \<and>
    latest tm js store' =
      (latest tm js store)(se_request_id event \<mapsto> (event, wrap64 (now + wrap64 (int (as_secs (ns_ttl store))))))"
  using record_latest[OF assms] by (metis prod.collapse)

theorem record_refines_map_witness:
  "latest quiet_msgs sample_json
     (snd (record_event quiet_msgs sample_json (\<lambda>_. None) 1000 sample_event_done sample_store)) ''req-1'' =
   Some (sample_event_done, 1300)"
proof -
  have "se_request_id sample_event_done = ''req-1''" "as_secs (ns_ttl sample_store) = 300"
    by (simp_all add: sample_event_done_def completed_def sample_store_def)
  with record_refines_map[OF sample_store_inv sample_event_storable, of "\<lambda>_. None" 1000]
  show ?thesis by (auto simp: in_i64_def)
qed

text \<open>
  C24: \<open>get\<close> reads the map. It answers the latest event of the request as it was recorded, every
  field of it, until its expiry, and nothing from then on.
\<close>

theorem get_reads_map:
  assumes "notifications_inv tm js store" "flt NtConnect = None" "flt NtQuery = None" "flt NtRow = None"
  shows "get_event tm js flt now request_id store =
    Ok (case latest tm js store request_id of None \<Rightarrow> None
        | Some (event, expires) \<Rightarrow> if now < expires then Some event else None)"
  by (rule get_latest[OF assms])

theorem get_reads_map_witness:
  "get_event quiet_msgs sample_json (\<lambda>_. None) 1299 ''req-1''
     (snd (record_event quiet_msgs sample_json (\<lambda>_. None) 1000 sample_event_done sample_store)) = Ok (Some sample_event_done)"
proof -
  have e: "se_request_id sample_event_done = ''req-1''" "as_secs (ns_ttl sample_store) = 300"
    by (simp_all add: sample_event_done_def completed_def sample_store_def)
  note R = record_latest[OF sample_store_inv sample_event_storable, of "\<lambda>_. None" 1000]
  show ?thesis
    by (subst get_reads_map[OF R(2)]) (simp_all add: R(4) e in_i64_def)
qed

text \<open>
  Cleaning up is invisible. \<open>cleanup\<close> reports the number of rows it deleted, keeps the store
  well-formed, and no \<open>get\<close> at that time or later, for any request, answers differently
  because of it.
\<close>

theorem cleanup_invisible:
  assumes "notifications_inv tm js store" "flt NtConnect = None" "flt NtExecute = None" "now \<le> later"
    and "flt' NtConnect = None" "flt' NtQuery = None" "flt' NtRow = None"
  shows "\<exists>store'. cleanup tm flt now store = (Ok (length (rows_of_store store) - length (rows_of_store store')), store') \<and>
    notifications_inv tm js store' \<and>
    get_event tm js flt' later request_id store' = get_event tm js flt' later request_id store"
proof (intro exI conjI)
  let ?s = "snd (cleanup tm flt now store)"
  note C = cleanup_latest[OF assms(1-3)]
  have "nt_stream_events (ns_tables store) \<noteq> None" using assms(1) by (simp add: notifications_inv_def)
  then have "rows_of_store ?s = filter (\<lambda>r. \<not> nr_expires_at r < now) (rows_of_store store)"
    using assms(2,3) by (simp add: cleanup_def with_rows_some)
  then have "length (filter (\<lambda>r. nr_expires_at r < now) (rows_of_store store)) =
      length (rows_of_store store) - length (rows_of_store ?s)"
    using sum_length_filter_compl[of "\<lambda>r. nr_expires_at r < now" "rows_of_store store"] by simp
  then show "cleanup tm flt now store = (Ok (length (rows_of_store store) - length (rows_of_store ?s)), ?s)"
    using C(1)[of now] by (metis prod.collapse)
  show "notifications_inv tm js ?s" by (rule C(2))
  show "get_event tm js flt' later request_id ?s = get_event tm js flt' later request_id store"
    using assms(4) by (simp add: get_latest[OF C(2) assms(5-7)] get_latest[OF assms(1,5-7)] C(3) split: option.splits)
qed

theorem cleanup_invisible_witness:
  "\<exists>store'. cleanup quiet_msgs (\<lambda>_. None) 1300
     (snd (record_event quiet_msgs sample_json (\<lambda>_. None) 1000 sample_event_done sample_store)) =
     (Ok (1 - length (rows_of_store store')), store')"
proof -
  note R = record_latest[OF sample_store_inv sample_event_storable, of "\<lambda>_. None" 1000]
  have "length (rows_of_store (snd (record_event quiet_msgs sample_json (\<lambda>_. None) 1000 sample_event_done sample_store))) = 1"
    by (simp add: record_event_def with_rows_def sample_store_def rows_of_store_def upsert_by_def)
  then show ?thesis
    using cleanup_invisible[OF R(2), of "\<lambda>_. None" 1300 1300 "\<lambda>_. None"] by auto
qed

lemma reopen_store:
  assumes "notifications_inv tm js store" "\<And>c. flt c = None"
  shows "\<exists>store'. fst (with_ttl flt ttl (Some (ns_tables store))) = Ok store' \<and> notifications_inv tm js store' \<and>
    latest tm js store' = latest tm js store \<and> ns_ttl store' = ttl"
proof -
  have "nt_stream_events (ns_tables store) \<noteq> None" using assms(1) by (simp add: notifications_inv_def)
  then obtain rows where rows: "nt_stream_events (ns_tables store) = Some rows" by auto
  let ?s = "\<lparr>ns_tables = (ns_tables store)\<lparr>nt_completions := False, nt_stream_events := Some rows, nt_expires_index := True\<rparr>,
      ns_ttl = ttl\<rparr>"
  have run: "fst (with_ttl flt ttl (Some (ns_tables store))) = Ok ?s" using assms(2) rows by (simp add: with_ttl_def Let_def)
  have same: "rows_of_store ?s = rows_of_store store" using rows by (simp add: rows_of_store_def)
  then have "notifications_inv tm js ?s" "latest tm js ?s = latest tm js store"
    using assms(1) by (auto simp: notifications_inv_def latest_def)
  with run show ?thesis by auto
qed

text \<open>
  Opening keeps what is stored. Opening a store on a database that has one, whatever the TTL,
  drops only the table of the old schema and leaves every stored event and its expiry.
\<close>

theorem reopen_keeps_events:
  assumes "notifications_inv tm js store" "\<And>c. flt c = None"
  shows "\<exists>store'. fst (with_ttl flt ttl (Some (ns_tables store))) = Ok store' \<and> notifications_inv tm js store' \<and>
    latest tm js store' = latest tm js store \<and> ns_ttl store' = ttl"
  by (rule reopen_store[OF assms])

theorem reopen_keeps_events_witness:
  "\<exists>store'. fst (with_ttl (\<lambda>_. None) (from_secs 60) (Some (ns_tables sample_store))) = Ok store' \<and> ns_ttl store' = from_secs 60"
  using reopen_keeps_events[OF sample_store_inv, of "\<lambda>_. None" "from_secs 60"] by blast

end
