(* ===== verification/Pool.thy ===== *)
theory Pool
  imports Sql "HOL-Library.AList"
begin

section \<open>The database pool (\<open>src/pool.rs\<close>)\<close>

text \<open>
  The cache of open databases and the connections handed out from it. The map
  \<open>pl_databases\<close> sends a path to an \<open>Arc\<close>, which is an index of \<open>pl_instances\<close>: an instance lives
  on while a task or a pooled connection holds it, evicted or not. A connection is a number. Every
  critical section of the code is one operation here, so that \<open>pool_run\<close> can interleave them:
  the cache lookup, the insertion with its eviction, the hand-out under the instance's lock, and
  the two steps of dropping a pooled connection.
\<close>

record database_instance =
  di_path :: string
  di_last_access :: int
  di_active :: nat
  di_cached :: "nat option"

record database_pool =
  pl_root :: string
  pl_databases :: "(string \<times> nat) list"
  pl_instances :: "database_instance list"
  pl_max :: nat
  pl_fresh :: nat

record pooled_connection =
  pc_conn :: nat
  pc_instance :: nat

subsection \<open>Configuring\<close>

text \<open>The calls of one configuration that can fail, in their order.\<close>

datatype config_call = CfgConnect | CfgBusyTimeout | CfgJournalMode | CfgJournalRows | CfgSynchronous

definition configure_connection :: "config_call faults \<Rightarrow> unit result" where
  "configure_connection flt = (case flt CfgBusyTimeout of Some e \<Rightarrow> Err e | None \<Rightarrow> Ok ())"

definition configure_database :: "config_call faults \<Rightarrow> unit result" where
  "configure_database flt =
     (case flt CfgConnect of Some e \<Rightarrow> Err e | None \<Rightarrow>
      rbind (configure_connection flt) (\<lambda>_.
      (case flt CfgJournalMode of Some e \<Rightarrow> Err e | None \<Rightarrow>
      (case flt CfgJournalRows of Some e \<Rightarrow> Err e | None \<Rightarrow>
      (case flt CfgSynchronous of Some e \<Rightarrow> Err e | None \<Rightarrow> Ok ())))))"

subsection \<open>Databases\<close>

definition pool_new :: "bool \<Rightarrow> string \<Rightarrow> database_pool result" where
  "pool_new root_exists root =
     (if \<not> root_exists then Err (InvalidPath ''Root directory does not exist'')
      else Ok \<lparr>pl_root = root, pl_databases = [], pl_instances = [], pl_max = 50, pl_fresh = 0\<rparr>)"

definition full_path :: "string \<Rightarrow> string \<Rightarrow> string" where
  "full_path root path =
     (if prefix ''/'' path then path
      else if root = [] \<or> suffix ''/'' root then root @ path else root @ ''/'' @ path)"

text \<open>What one call of \<open>get_database\<close> reads: the file system, the clock, the outcome of building.\<close>

record database_env =
  de_exists :: bool
  de_utf8 :: bool
  de_lookup_now :: int
  de_build :: "es_error option"
  de_config :: "config_call faults"
  de_insert_now :: int

definition touch :: "int \<Rightarrow> nat \<Rightarrow> database_pool \<Rightarrow> database_pool" where
  "touch now i pool =
     pool\<lparr>pl_instances := (pl_instances pool)[i := (pl_instances pool ! i)\<lparr>di_last_access := now\<rparr>]\<rparr>"

text \<open>The part up to the read lock: the key, and the instance when it is cached.\<close>

definition lookup_database ::
  "(string \<Rightarrow> string) \<Rightarrow> database_env \<Rightarrow> string \<Rightarrow> database_pool \<Rightarrow> (string \<times> nat option) result \<times> database_pool" where
  "lookup_database path_debug de path pool =
     (let key = full_path (pl_root pool) path in
      if \<not> de_exists de then (Err (InvalidPath (''Database file does not exist: '' @ path_debug key)), pool)
      else if \<not> de_utf8 de then (Err (InvalidPath ''Database path contains invalid UTF-8''), pool)
      else
        (case map_of (pl_databases pool) key of
           Some i \<Rightarrow> (Ok (key, Some i), touch (de_lookup_now de) i pool)
         | None \<Rightarrow> (Ok (key, None), pool)))"

fun evict_loop :: "database_instance list \<Rightarrow> (string \<times> nat) list \<Rightarrow> nat \<Rightarrow> nat \<Rightarrow> (string \<times> nat) list \<Rightarrow> (string \<times> nat) list" where
  "evict_loop insts [] evicted target databases = databases"
| "evict_loop insts ((path, i) # instances) evicted target databases =
     (if target \<le> evicted then databases
      else if di_active (insts ! i) = 0
      then evict_loop insts instances (evicted + 1) target (AList.delete path databases)
      else evict_loop insts instances evicted target databases)"

definition evict_old_databases :: "database_pool \<Rightarrow> database_pool" where
  "evict_old_databases pool =
     (if length (pl_databases pool) \<le> pl_max pool then pool
      else
        (let instances = sort_key (\<lambda>(path, i). di_last_access (pl_instances pool ! i)) (pl_databases pool);
             target_evictions = length (pl_databases pool) - pl_max pool + 1
         in pool\<lparr>pl_databases := evict_loop (pl_instances pool) instances 0 target_evictions (pl_databases pool)\<rparr>))"

text \<open>The part from the build on: the new instance goes into the cache under the write lock.\<close>

definition insert_database :: "int \<Rightarrow> string \<Rightarrow> database_pool \<Rightarrow> nat \<times> database_pool" where
  "insert_database now key pool =
     (let i = length (pl_instances pool);
          pool = pool\<lparr>pl_instances := pl_instances pool @
                   [\<lparr>di_path = key, di_last_access = now, di_active = 0, di_cached = None\<rparr>]\<rparr>;
          pool = (if pl_max pool \<le> length (pl_databases pool) then evict_old_databases pool else pool)
      in (i, pool\<lparr>pl_databases := AList.update key i (pl_databases pool)\<rparr>))"

definition build_database :: "database_env \<Rightarrow> string \<Rightarrow> database_pool \<Rightarrow> nat result \<times> database_pool" where
  "build_database de key pool =
     (case de_build de of Some e \<Rightarrow> (Err e, pool)
      | None \<Rightarrow>
          sbind (configure_database (de_config de), pool) (\<lambda>_ pool.
            (case insert_database (de_insert_now de) key pool of (i, pool) \<Rightarrow> (Ok i, pool))))"

definition get_database ::
  "(string \<Rightarrow> string) \<Rightarrow> database_env \<Rightarrow> string \<Rightarrow> database_pool \<Rightarrow> nat result \<times> database_pool" where
  "get_database path_debug de path pool =
     sbind (lookup_database path_debug de path pool) (\<lambda>(key, cached) pool.
       (case cached of Some i \<Rightarrow> (Ok i, pool) | None \<Rightarrow> build_database de key pool))"

subsection \<open>Connections\<close>

definition update_instance :: "nat \<Rightarrow> (database_instance \<Rightarrow> database_instance) \<Rightarrow> database_pool \<Rightarrow> database_pool" where
  "update_instance i f pool = pool\<lparr>pl_instances := (pl_instances pool)[i := f (pl_instances pool ! i)]\<rparr>"

text \<open>
  Under the instance's lock: count the connection, then take the cached one or open another. The
  flag says whether it was reused.
\<close>

definition take_connection ::
  "es_error option \<Rightarrow> nat \<Rightarrow> database_pool \<Rightarrow> (pooled_connection \<times> bool) result \<times> database_pool" where
  "take_connection connect i pool =
     (let pool = update_instance i (\<lambda>d. d\<lparr>di_active := di_active d + 1\<rparr>) pool in
      case di_cached (pl_instances pool ! i) of
        Some c \<Rightarrow>
          (Ok (\<lparr>pc_conn = c, pc_instance = i\<rparr>, True), update_instance i (\<lambda>d. d\<lparr>di_cached := None\<rparr>) pool)
      | None \<Rightarrow>
          (case connect of
             Some e \<Rightarrow> (Err e, update_instance i (\<lambda>d. d\<lparr>di_active := di_active d - 1\<rparr>) pool)
           | None \<Rightarrow>
               (Ok (\<lparr>pc_conn = pl_fresh pool, pc_instance = i\<rparr>, False), pool\<lparr>pl_fresh := pl_fresh pool + 1\<rparr>)))"

text \<open>A new connection is configured; when that fails it is counted out and closed.\<close>

definition finish_connection ::
  "config_call faults \<Rightarrow> pooled_connection \<times> bool \<Rightarrow> database_pool \<Rightarrow> pooled_connection result \<times> database_pool" where
  "finish_connection flt c pool =
     (case c of (pc, reused) \<Rightarrow>
        if reused then (Ok pc, pool)
        else
          (case configure_connection flt of
             Err e \<Rightarrow> (Err e, update_instance (pc_instance pc) (\<lambda>d. d\<lparr>di_active := di_active d - 1\<rparr>) pool)
           | Panic m \<Rightarrow> (Panic m, pool)
           | Ok _ \<Rightarrow> (Ok pc, pool)))"

record connection_env =
  ce_database :: database_env
  ce_connect :: "es_error option"
  ce_configure :: "config_call faults"

definition pool_get_connection ::
  "(string \<Rightarrow> string) \<Rightarrow> connection_env \<Rightarrow> string \<Rightarrow> database_pool \<Rightarrow> pooled_connection result \<times> database_pool" where
  "pool_get_connection path_debug env path pool =
     sbind (get_database path_debug (ce_database env) path pool) (\<lambda>i pool.
     sbind (take_connection (ce_connect env) i pool) (\<lambda>c pool.
     finish_connection (ce_configure env) c pool))"

definition get_catalog_connection ::
  "(string \<Rightarrow> string) \<Rightarrow> connection_env \<Rightarrow> database_pool \<Rightarrow> pooled_connection result \<times> database_pool" where
  "get_catalog_connection path_debug env pool = pool_get_connection path_debug env ''catalog.db'' pool"

text \<open>
  \<open>Drop\<close>: the connection goes back into its instance when the lock is free (over one that is
  there already), then the counter goes down, not below zero.
\<close>

definition return_connection :: "bool \<Rightarrow> pooled_connection \<Rightarrow> database_pool \<Rightarrow> database_pool" where
  "return_connection lock_free pc pool =
     (if lock_free then update_instance (pc_instance pc) (\<lambda>d. d\<lparr>di_cached := Some (pc_conn pc)\<rparr>) pool else pool)"

definition count_down :: "nat \<Rightarrow> database_pool \<Rightarrow> database_pool" where
  "count_down i pool = update_instance i (\<lambda>d. if di_active d = 0 then d else d\<lparr>di_active := di_active d - 1\<rparr>) pool"

definition drop_connection :: "bool \<Rightarrow> pooled_connection \<Rightarrow> database_pool \<Rightarrow> database_pool" where
  "drop_connection lock_free pc pool = count_down (pc_instance pc) (return_connection lock_free pc pool)"

record pool_stats =
  ps_cached_databases :: nat
  ps_total_active_connections :: nat

definition stats :: "database_pool \<Rightarrow> pool_stats" where
  "stats pool =
     \<lparr>ps_cached_databases = length (pl_databases pool),
      ps_total_active_connections = sum_list (map (\<lambda>(path, i). di_active (pl_instances pool ! i)) (pl_databases pool))\<rparr>"

subsection \<open>Interleavings\<close>

text \<open>
  The tasks of a process use the pool at the same time. \<open>out\<close> are the connections handed out,
  \<open>releasing\<close> the instances whose connection is returned but not counted down yet.
\<close>

inductive pool_run :: "database_pool \<Rightarrow> pooled_connection list \<Rightarrow> nat list \<Rightarrow> bool" where
  created: "pool_new True root = Ok pool \<Longrightarrow> pool_run pool [] []"
| looked_up: "pool_run pool out rel \<Longrightarrow> lookup_database path_debug de path pool = (r, pool') \<Longrightarrow> pool_run pool' out rel"
| built: "pool_run pool out rel \<Longrightarrow> build_database de key pool = (r, pool') \<Longrightarrow> pool_run pool' out rel"
| taken: "pool_run pool out rel \<Longrightarrow> i < length (pl_instances pool) \<Longrightarrow>
    take_connection connect i pool = (Ok (pc, reused), pool') \<Longrightarrow> pool_run pool' (pc # out) rel"
| not_taken: "pool_run pool out rel \<Longrightarrow> i < length (pl_instances pool) \<Longrightarrow>
    take_connection connect i pool = (Err e, pool') \<Longrightarrow> pool_run pool' out rel"
| not_configured: "pool_run pool (out @ pc # out') rel \<Longrightarrow>
    finish_connection flt (pc, False) pool = (Err e, pool') \<Longrightarrow> pool_run pool' (out @ out') rel"
| returned: "pool_run pool (out @ pc # out') rel \<Longrightarrow>
    pool_run (return_connection lock_free pc pool) (out @ out') (pc_instance pc # rel)"
| counted_down: "pool_run pool out (rel @ i # rel') \<Longrightarrow> pool_run (count_down i pool) out (rel @ rel')"

subsection \<open>The invariant\<close>

definition cached_at :: "database_pool \<Rightarrow> nat \<Rightarrow> nat \<Rightarrow> bool" where
  "cached_at pool i c \<longleftrightarrow> i < length (pl_instances pool) \<and> di_cached (pl_instances pool ! i) = Some c"

definition counted :: "database_pool \<Rightarrow> pooled_connection list \<Rightarrow> nat list \<Rightarrow> bool" where
  "counted pool out rel \<longleftrightarrow>
     (\<forall>i < length (pl_instances pool).
        di_active (pl_instances pool ! i) = count_list (map pc_instance out) i + count_list rel i)"

definition exclusive :: "database_pool \<Rightarrow> pooled_connection list \<Rightarrow> bool" where
  "exclusive pool out \<longleftrightarrow>
     distinct (map pc_conn out) \<and>
     (\<forall>pc \<in> set out. pc_conn pc < pl_fresh pool \<and> pc_instance pc < length (pl_instances pool)) \<and>
     (\<forall>i c. cached_at pool i c \<longrightarrow> c < pl_fresh pool \<and> c \<notin> pc_conn ` set out) \<and>
     (\<forall>i j c. cached_at pool i c \<longrightarrow> cached_at pool j c \<longrightarrow> i = j)"

definition pool_ok :: "database_pool \<Rightarrow> bool" where
  "pool_ok pool \<longleftrightarrow>
     distinct (map fst (pl_databases pool)) \<and> (\<forall>(k, i) \<in> set (pl_databases pool). i < length (pl_instances pool))"

definition pool_inv :: "database_pool \<Rightarrow> pooled_connection list \<Rightarrow> nat list \<Rightarrow> bool" where
  "pool_inv pool out rel \<longleftrightarrow>
     pool_ok pool \<and> counted pool out rel \<and> exclusive pool out \<and> (\<forall>i \<in> set rel. i < length (pl_instances pool))"

lemma update_instance_fields [simp]:
  "pl_databases (update_instance i f pool) = pl_databases pool" "pl_max (update_instance i f pool) = pl_max pool"
  "pl_fresh (update_instance i f pool) = pl_fresh pool" "pl_root (update_instance i f pool) = pl_root pool"
  "length (pl_instances (update_instance i f pool)) = length (pl_instances pool)"
  "i < length (pl_instances pool) \<Longrightarrow>
     pl_instances (update_instance i f pool) ! j = (if j = i then f (pl_instances pool ! i) else pl_instances pool ! j)"
  by (simp_all add: update_instance_def nth_list_update)

lemma pool_ok_update [simp]: "pool_ok (update_instance i f pool) = pool_ok pool"
  by (simp add: pool_ok_def)

lemma cached_at_update:
  "i < length (pl_instances pool) \<Longrightarrow>
     cached_at (update_instance i f pool) j c \<longleftrightarrow>
       (if j = i then di_cached (f (pl_instances pool ! i)) = Some c else cached_at pool j c)"
  by (auto simp: cached_at_def)

lemma touch_update: "touch now i pool = update_instance i (\<lambda>d. d\<lparr>di_last_access := now\<rparr>) pool"
  by (simp add: touch_def update_instance_def)

lemma set_update_subset: "set (AList.update k v al) \<subseteq> insert (k, v) (set al)"
  by (induction al) auto

lemma evict_loop_subset: "set (evict_loop insts xs n t al) \<subseteq> set al"
  by (induction insts xs n t al rule: evict_loop.induct) (auto simp: AList.delete_eq)

lemma evict_loop_distinct: "distinct (map fst al) \<Longrightarrow> distinct (map fst (evict_loop insts xs n t al))"
  by (induction insts xs n t al rule: evict_loop.induct) (auto simp: AList.delete_eq distinct_map_filter)

lemma evict_fields [simp]:
  "pl_instances (evict_old_databases pool) = pl_instances pool" "pl_max (evict_old_databases pool) = pl_max pool"
  "pl_fresh (evict_old_databases pool) = pl_fresh pool" "pl_root (evict_old_databases pool) = pl_root pool"
  by (simp_all add: evict_old_databases_def Let_def)

lemma evict_ok: "pool_ok pool \<Longrightarrow> pool_ok (evict_old_databases pool)"
  using evict_loop_subset evict_loop_distinct
  by (fastforce simp: pool_ok_def evict_old_databases_def Let_def)

lemma insert_fields:
  assumes "insert_database now key pool = (i, pool')"
  shows "i = length (pl_instances pool)" "pl_fresh pool' = pl_fresh pool" "pl_max pool' = pl_max pool"
    "pl_instances pool' = pl_instances pool @ [\<lparr>di_path = key, di_last_access = now, di_active = 0, di_cached = None\<rparr>]"
  using assms by (auto simp: insert_database_def Let_def)

lemma pool_ok_grow: "pool_ok pool \<Longrightarrow> pool_ok (pool\<lparr>pl_instances := pl_instances pool @ ds\<rparr>)"
  by (fastforce simp: pool_ok_def)

lemma insert_ok:
  assumes "pool_ok pool" "insert_database now key pool = (i, pool')"
  shows "pool_ok pool'"
proof -
  let ?p = "pool\<lparr>pl_instances := pl_instances pool @ [\<lparr>di_path = key, di_last_access = now, di_active = 0, di_cached = None\<rparr>]\<rparr>"
  let ?q = "if pl_max pool \<le> length (pl_databases pool) then evict_old_databases ?p else ?p"
  have q: "pool_ok ?q" using evict_ok[OF pool_ok_grow[OF assms(1)]] pool_ok_grow[OF assms(1)] by simp
  have len: "length (pl_instances ?q) = length (pl_instances pool) + 1" by simp
  have "snd (insert_database now key pool) = ?q\<lparr>pl_databases := AList.update key (length (pl_instances pool)) (pl_databases ?q)\<rparr>"
    by (simp add: insert_database_def Let_def)
  then have "pool' = ?q\<lparr>pl_databases := AList.update key (length (pl_instances pool)) (pl_databases ?q)\<rparr>"
    by (simp only: assms(2) snd_conv)
  then show ?thesis
    using q len set_update_subset[of key "length (pl_instances pool)" "pl_databases ?q"]
    by (fastforce simp: pool_ok_def distinct_update)
qed

lemma exclusive_remove: "exclusive pool (out @ pc # out') \<Longrightarrow> exclusive pool (out @ out')"
  by (auto simp: exclusive_def)

lemma exclusive_cong:
  assumes "exclusive pool out" "cached_at pool' = cached_at pool" "pl_fresh pool' = pl_fresh pool"
    "length (pl_instances pool') = length (pl_instances pool)"
  shows "exclusive pool' out"
  using assms by (simp add: exclusive_def)

lemma cached_at_same:
  "i < length (pl_instances pool) \<Longrightarrow> di_cached (f (pl_instances pool ! i)) = di_cached (pl_instances pool ! i) \<Longrightarrow>
     cached_at (update_instance i f pool) = cached_at pool"
  by (intro ext) (auto simp: cached_at_def)

lemma lookup_inv:
  assumes "pool_inv pool out rel" "lookup_database path_debug de path pool = (r, pool')"
  shows "pool_inv pool' out rel"
proof -
  let ?at = "map_of (pl_databases pool) (full_path (pl_root pool) path)"
  have "pool' = (if de_exists de \<and> de_utf8 de then (case ?at of None \<Rightarrow> pool | Some i \<Rightarrow> touch (de_lookup_now de) i pool) else pool)"
    using assms(2) by (cases ?at) (simp_all add: lookup_database_def Let_def split: if_splits)
  then consider "pool' = pool" | i where "?at = Some i" "pool' = touch (de_lookup_now de) i pool"
    by (cases ?at) (simp_all split: if_splits)
  then show ?thesis
  proof cases
    case 2
    then have "i < length (pl_instances pool)"
      using assms(1) by (fastforce simp: pool_inv_def pool_ok_def dest: map_of_SomeD)
    then have "cached_at pool' = cached_at pool"
      using cached_at_same[of i pool "\<lambda>d. d\<lparr>di_last_access := de_lookup_now de\<rparr>"] 2(2) by (simp add: touch_update)
    moreover have "counted pool' out rel"
      using assms(1) 2(2) \<open>i < length (pl_instances pool)\<close> by (simp add: pool_inv_def counted_def touch_update)
    ultimately have "counted pool' out rel" "exclusive pool' out"
      using assms(1) 2(2) exclusive_cong[of pool out pool'] by (simp_all add: pool_inv_def touch_update)
    with assms(1) 2(2) show ?thesis by (simp add: pool_inv_def touch_update)
  qed (use assms(1) in simp)
qed

lemma build_inv:
  assumes "pool_inv pool out rel" "build_database de key pool = (r, pool')"
  shows "pool_inv pool' out rel"
proof -
  consider "pool' = pool" | i where "insert_database (de_insert_now de) key pool = (i, pool')"
    using assms(2) by (auto simp: build_database_def elim!: sbind_cases split: option.splits prod.splits)
  then show ?thesis
  proof cases
    case 2
    note F = insert_fields[OF 2]
    have at: "cached_at pool' j c = cached_at pool j c" for j c
      by (auto simp: cached_at_def F nth_append)
    have out: "count_list (map pc_instance out) (length (pl_instances pool)) = 0" "count_list rel (length (pl_instances pool)) = 0"
      using assms(1) by (auto simp: pool_inv_def exclusive_def count_list_0_iff)
    have "counted pool' out rel"
      using assms(1) out unfolding counted_def pool_inv_def by (auto simp: F nth_append less_Suc_eq)
    moreover have "exclusive pool' out"
      using assms(1) unfolding pool_inv_def exclusive_def at by (auto simp: F)
    ultimately show ?thesis
      using assms(1) insert_ok[OF _ 2] by (auto simp: pool_inv_def F)
  qed (use assms(1) in simp)
qed

lemma take_inv:
  assumes "pool_inv pool out rel" "i < length (pl_instances pool)"
    and "take_connection connect i pool = (r, pool')"
  shows "case r of Ok (pc, reused) \<Rightarrow> pool_inv pool' (pc # out) rel | _ \<Rightarrow> pool_inv pool' out rel"
proof -
  let ?d = "pl_instances pool ! i"
  show ?thesis
  proof (cases "di_cached ?d")
    case (Some c)
    then have at: "cached_at pool i c" using assms(2) by (simp add: cached_at_def)
    have p: "pool' = update_instance i (\<lambda>d. d\<lparr>di_cached := None\<rparr>) (update_instance i (\<lambda>d. d\<lparr>di_active := di_active d + 1\<rparr>) pool)"
      "r = Ok (\<lparr>pc_conn = c, pc_instance = i\<rparr>, True)"
      using assms(2,3) Some by (simp_all add: take_connection_def Let_def)
    have "cached_at pool' j c' \<longleftrightarrow> j \<noteq> i \<and> cached_at pool j c'" for j c'
      using assms(2) by (auto simp: p cached_at_update)
    note at' = this
    have ex: "exclusive pool out" using assms(1) by (simp add: pool_inv_def)
    have "c' \<notin> pc_conn ` set (\<lparr>pc_conn = c, pc_instance = i\<rparr> # out) \<and> c' < pl_fresh pool'" if "cached_at pool' j c'" for j c'
      using that ex at unfolding at' exclusive_def by (auto simp: p(1))
    with ex at at' assms(2) have "exclusive pool' (\<lparr>pc_conn = c, pc_instance = i\<rparr> # out)"
      unfolding exclusive_def by (simp add: p(1)) blast
    moreover have "counted pool' (\<lparr>pc_conn = c, pc_instance = i\<rparr> # out) rel"
      using assms(1,2) by (simp add: pool_inv_def counted_def p)
    ultimately show ?thesis using assms(1) by (simp add: pool_inv_def p)
  next
    case None
    show ?thesis
    proof (cases connect)
      case (Some e)
      have p: "pool' = update_instance i (\<lambda>d. d\<lparr>di_active := di_active d - 1\<rparr>) (update_instance i (\<lambda>d. d\<lparr>di_active := di_active d + 1\<rparr>) pool)"
        "r = Err e"
        using assms(2,3) Some None by (simp_all add: take_connection_def Let_def)
      have "cached_at pool' = cached_at pool"
        using assms(2) by (intro ext) (auto simp: p cached_at_update cached_at_def)
      with assms(1,2) show ?thesis by (simp add: p(2)) (simp add: p(1) pool_inv_def counted_def exclusive_def)
    next
      case con: None
      let ?pc = "\<lparr>pc_conn = pl_fresh pool, pc_instance = i\<rparr>"
      have p: "pool' = (update_instance i (\<lambda>d. d\<lparr>di_active := di_active d + 1\<rparr>) pool)\<lparr>pl_fresh := pl_fresh pool + 1\<rparr>"
        "r = Ok (?pc, False)"
        using assms(2,3) con None by (simp_all add: take_connection_def Let_def)
      have at: "cached_at pool' j c \<longleftrightarrow> cached_at pool j c" for j c
        using assms(2) by (auto simp: p cached_at_def)
      have "exclusive pool' (?pc # out)"
        using assms(1,2) unfolding pool_inv_def exclusive_def at by (fastforce simp: p)
      moreover have "counted pool' (?pc # out) rel"
        using assms(1,2) by (simp add: pool_inv_def counted_def p)
      moreover have "pool_ok pool'" using assms(1) by (simp add: pool_inv_def pool_ok_def p)
      ultimately show ?thesis using assms(1) by (simp add: pool_inv_def p)
    qed
  qed
qed

lemma not_configured_inv:
  assumes "pool_inv pool (out @ pc # out') rel" "finish_connection flt (pc, False) pool = (Err e, pool')"
  shows "pool_inv pool' (out @ out') rel"
proof -
  let ?i = "pc_instance pc"
  have i: "?i < length (pl_instances pool)" using assms(1) by (simp add: pool_inv_def exclusive_def)
  have p: "pool' = update_instance ?i (\<lambda>d. d\<lparr>di_active := di_active d - 1\<rparr>) pool"
    using assms(2) by (auto simp: finish_connection_def split: res.splits)
  have "exclusive pool' (out @ out')"
    using exclusive_cong[OF exclusive_remove[of pool out pc out'], of pool'] assms(1)
      cached_at_same[OF i, of "\<lambda>d. d\<lparr>di_active := di_active d - 1\<rparr>"]
    by (simp add: p pool_inv_def)
  moreover have "counted pool' (out @ out') rel"
    using assms(1) i by (auto simp: pool_inv_def counted_def p)
  ultimately show ?thesis using assms(1) by (simp add: pool_inv_def p)
qed

lemma return_inv:
  assumes "pool_inv pool (out @ pc # out') rel"
  shows "pool_inv (return_connection lock_free pc pool) (out @ out') (pc_instance pc # rel)"
proof -
  let ?i = "pc_instance pc" and ?p = "return_connection lock_free pc pool"
  have i: "?i < length (pl_instances pool)" using assms by (simp add: pool_inv_def exclusive_def)
  have at: "cached_at ?p j c \<longleftrightarrow> (if lock_free \<and> j = ?i then c = pc_conn pc else cached_at pool j c)" for j c
    using i by (auto simp: return_connection_def cached_at_update)
  have "exclusive ?p (out @ out')"
    using assms i unfolding pool_inv_def exclusive_def at
    by (auto simp: return_connection_def)
  moreover have "counted ?p (out @ out') (?i # rel)"
    using assms i by (auto simp: pool_inv_def counted_def return_connection_def)
  ultimately show ?thesis using assms i by (auto simp: pool_inv_def return_connection_def)
qed

lemma count_down_inv:
  assumes "pool_inv pool out (rel @ i # rel')"
  shows "pool_inv (count_down i pool) out (rel @ rel')"
proof -
  have i: "i < length (pl_instances pool)" using assms by (simp add: pool_inv_def)
  have "di_active (pl_instances pool ! i) \<noteq> 0" using assms i by (simp add: pool_inv_def counted_def)
  then have "counted (count_down i pool) out (rel @ rel')"
    using assms i by (auto simp: pool_inv_def counted_def count_down_def)
  moreover have "exclusive (count_down i pool) out"
    by (rule exclusive_cong[of pool])
      (use assms cached_at_same[OF i, of "\<lambda>d. if di_active d = 0 then d else d\<lparr>di_active := di_active d - 1\<rparr>"]
       in \<open>simp_all add: pool_inv_def count_down_def\<close>)
  ultimately show ?thesis using assms by (simp add: pool_inv_def count_down_def)
qed

lemma pool_run_inv: "pool_run pool out rel \<Longrightarrow> pool_inv pool out rel"
proof (induction rule: pool_run.induct)
  case (created root pool)
  then show ?case
    by (auto simp: pool_new_def pool_inv_def pool_ok_def counted_def exclusive_def cached_at_def)
next
  case (looked_up pool out rel path_debug de path r pool')
  from lookup_inv[OF looked_up.IH looked_up.hyps(2)] show ?case .
next
  case (built pool out rel de key r pool')
  from build_inv[OF built.IH built.hyps(2)] show ?case .
next
  case (taken pool out rel i connect pc reused pool')
  from take_inv[OF taken.IH taken.hyps(2,3)] show ?case by simp
next
  case (not_taken pool out rel i connect e pool')
  from take_inv[OF not_taken.IH not_taken.hyps(2,3)] show ?case by simp
next
  case (not_configured pool out pc out' rel flt e pool')
  from not_configured_inv[OF not_configured.IH not_configured.hyps(2)] show ?case .
next
  case (returned pool out pc out' rel lock_free)
  from return_inv[OF returned.IH] show ?case .
next
  case (counted_down pool out rel i rel')
  from count_down_inv[OF counted_down.IH] show ?case .
qed

subsection \<open>Eviction\<close>

definition idle_entries :: "database_pool \<Rightarrow> (string \<times> nat) list" where
  "idle_entries pool = filter (\<lambda>(k, i). di_active (pl_instances pool ! i) = 0) (pl_databases pool)"

definition last_access_of :: "database_pool \<Rightarrow> string \<times> nat \<Rightarrow> int" where
  "last_access_of pool p = di_last_access (pl_instances pool ! snd p)"

text \<open>What eviction removes: the oldest idle entries, as many as it wants or as there are.\<close>

definition victims :: "database_pool \<Rightarrow> (string \<times> nat) list" where
  "victims pool =
     (if length (pl_databases pool) \<le> pl_max pool then []
      else take (length (pl_databases pool) - pl_max pool + 1) (sort_key (last_access_of pool) (idle_entries pool)))"

lemma evict_loop_filter:
  "evict_loop insts xs n t al =
     filter (\<lambda>p. fst p \<notin> fst ` set (take (t - n) (filter (\<lambda>(k, i). di_active (insts ! i) = 0) xs))) al"
proof (induction insts xs n t al rule: evict_loop.induct)
  case (2 insts path i instances n t al)
  show ?case
  proof (cases "t \<le> n")
    case False
    then have "t - n = Suc (t - (n + 1))" by simp
    with 2 False show ?thesis by (auto simp: AList.delete_eq intro!: filter_cong)
  qed simp
qed simp

lemma evict_filter:
  "pl_databases (evict_old_databases pool) = filter (\<lambda>p. fst p \<notin> fst ` set (victims pool)) (pl_databases pool)"
proof -
  have key: "(\<lambda>(path, i). di_last_access (pl_instances pool ! i)) = last_access_of pool"
    by (rule ext) (simp add: last_access_of_def case_prod_beta)
  show ?thesis
    by (simp add: evict_old_databases_def victims_def Let_def evict_loop_filter key filter_sort idle_entries_def)
qed

lemma victims_idle: "set (victims pool) \<subseteq> set (idle_entries pool)"
  by (auto simp: victims_def dest: in_set_takeD)

lemma entry_unique: "pool_ok pool \<Longrightarrow> (k, i) \<in> set (pl_databases pool) \<Longrightarrow> (k, j) \<in> set (pl_databases pool) \<Longrightarrow> i = j"
  unfolding pool_ok_def by (meson eq_key_imp_eq_value)

lemma evicted_iff:
  assumes "pool_ok pool"
  shows "p \<in> set (pl_databases (evict_old_databases pool)) \<longleftrightarrow> p \<in> set (pl_databases pool) \<and> p \<notin> set (victims pool)"
proof -
  have "p \<in> set (victims pool)" if "p \<in> set (pl_databases pool)" "fst p \<in> fst ` set (victims pool)"
  proof -
    from that(2) obtain q where q: "q \<in> set (victims pool)" "fst q = fst p" by auto
    then have "q \<in> set (pl_databases pool)" using victims_idle[of pool] by (auto simp: idle_entries_def)
    with that(1) q(2) have "(fst p, snd p) \<in> set (pl_databases pool)" "(fst p, snd q) \<in> set (pl_databases pool)"
      by (simp, metis prod.collapse)
    from entry_unique[OF assms this] q(2) have "q = p" by (simp add: prod_eq_iff)
    with q(1) show ?thesis by simp
  qed
  then show ?thesis unfolding evict_filter by auto
qed

lemma victims_oldest:
  assumes "p \<in> set (victims pool)" "q \<in> set (idle_entries pool)" "q \<notin> set (victims pool)"
  shows "last_access_of pool p \<le> last_access_of pool q"
proof -
  let ?s = "sort_key (last_access_of pool) (idle_entries pool)" and ?n = "length (pl_databases pool) - pl_max pool + 1"
  have v: "victims pool = take ?n ?s" using assms(1) by (auto simp: victims_def split: if_splits)
  have "q \<in> set (drop ?n ?s)" using assms(2,3) unfolding v by (metis Un_iff append_take_drop_id set_append set_sort)
  moreover have "sorted (map (last_access_of pool) (take ?n ?s @ drop ?n ?s))" by simp
  ultimately show ?thesis using assms(1) unfolding v map_append sorted_append by auto
qed

lemma victims_length:
  "pl_max pool < length (pl_databases pool) \<Longrightarrow>
     length (victims pool) = min (length (pl_databases pool) - pl_max pool + 1) (length (idle_entries pool))"
  by (simp add: victims_def min.commute)

lemma evicted_length:
  assumes "pool_ok pool"
  shows "length (pl_databases (evict_old_databases pool)) + length (victims pool) = length (pl_databases pool)"
proof -
  have d: "distinct (pl_databases pool)" using assms by (simp add: pool_ok_def distinct_map)
  then have "distinct (victims pool)" by (simp add: victims_def idle_entries_def distinct_take)
  moreover have "set (victims pool) \<subseteq> set (pl_databases pool)" using victims_idle by (fastforce simp: idle_entries_def)
  moreover have "distinct (pl_databases (evict_old_databases pool))" using d by (simp add: evict_filter)
  moreover have "set (pl_databases (evict_old_databases pool)) = set (pl_databases pool) - set (victims pool)"
    using evicted_iff[OF assms] by auto
  ultimately show ?thesis
    using d by (metis card_Diff_subset card_mono distinct_card finite_set le_add_diff_inverse2)
qed

lemma length_update: "length (AList.update k v al) = (if k \<in> fst ` set al then length al else Suc (length al))"
  by (induction al) auto

lemma insert_length:
  assumes "insert_database now key pool = (i, pool')" "pool_ok pool"
  shows "length (pl_databases pool') \<le> 1 + max (pl_max pool) (length (filter (\<lambda>(k, i). di_active (pl_instances pool ! i) \<noteq> 0) (pl_databases pool)))"
    "length (pl_databases pool) = pl_max pool \<Longrightarrow> key \<notin> fst ` set (pl_databases pool) \<Longrightarrow>
       length (pl_databases pool') = pl_max pool + 1"
proof -
  let ?new = "\<lparr>di_path = key, di_last_access = now, di_active = 0, di_cached = None\<rparr>"
  let ?p = "pool\<lparr>pl_instances := pl_instances pool @ [?new]\<rparr>"
  let ?q = "if pl_max pool \<le> length (pl_databases pool) then evict_old_databases ?p else ?p"
  have pool': "pl_databases pool' = AList.update key (length (pl_instances pool)) (pl_databases ?q)"
    using assms(1) by (auto simp: insert_database_def Let_def)
  have ok: "pool_ok ?p" by (rule pool_ok_grow[OF assms(2)])
  have idle: "idle_entries ?p = idle_entries pool"
    using assms(2) by (auto simp: idle_entries_def pool_ok_def nth_append intro!: filter_cong)
  have split: "length (idle_entries pool) + length (filter (\<lambda>(k, i). di_active (pl_instances pool ! i) \<noteq> 0) (pl_databases pool)) =
      length (pl_databases pool)"
    using sum_length_filter_compl[of "\<lambda>(k, i). di_active (pl_instances pool ! i) = 0" "pl_databases pool"]
    by (simp add: idle_entries_def case_prod_unfold)
  have "length (pl_databases ?q) \<le> max (pl_max pool) (length (filter (\<lambda>(k, i). di_active (pl_instances pool ! i) \<noteq> 0) (pl_databases pool)))"
  proof (cases "pl_max pool < length (pl_databases pool)")
    case True
    with evicted_length[OF ok] victims_length[of ?p] split show ?thesis by (simp add: idle)
  next
    case False
    then show ?thesis by (auto simp: evict_old_databases_def)
  qed
  then show "length (pl_databases pool') \<le> 1 + max (pl_max pool) (length (filter (\<lambda>(k, i). di_active (pl_instances pool ! i) \<noteq> 0) (pl_databases pool)))"
    by (simp add: pool' length_update)
  assume full: "length (pl_databases pool) = pl_max pool" "key \<notin> fst ` set (pl_databases pool)"
  then have "pl_databases ?q = pl_databases pool" by (simp add: evict_old_databases_def)
  with full show "length (pl_databases pool') = pl_max pool + 1" by (simp add: pool' length_update)
qed

subsection \<open>Properties\<close>

text \<open>
  C20: no connection is ever in two hands. Whatever tasks interleave their lookups, insertions,
  hand-outs and drops, the connections handed out are pairwise different, none of them is at the
  same time cached in an instance for the next user, and every instance's counter is the number
  of its connections that are handed out or being returned.
\<close>

theorem connections_exclusive:
  assumes "pool_run pool out rel"
  shows "distinct (map pc_conn out) \<and> (\<forall>pc \<in> set out. \<forall>i. \<not> cached_at pool i (pc_conn pc)) \<and>
    (\<forall>i < length (pl_instances pool).
       di_active (pl_instances pool ! i) = count_list (map pc_instance out) i + count_list rel i)"
  using pool_run_inv[OF assms] unfolding pool_inv_def exclusive_def counted_def by blast

definition sample_database :: database_env where
  "sample_database =
     \<lparr>de_exists = True, de_utf8 = True, de_lookup_now = 2, de_build = None, de_config = (\<lambda>_. None), de_insert_now = 1\<rparr>"

definition sample_pool :: database_pool where
  "sample_pool = \<lparr>pl_root = ''/data'', pl_databases = [], pl_instances = [], pl_max = 50, pl_fresh = 0\<rparr>"

definition sample_pool_two :: database_pool where
  "sample_pool_two =
     \<lparr>pl_root = ''/data'', pl_databases = [(''/data/a.db'', 0)],
      pl_instances = [\<lparr>di_path = ''/data/a.db'', di_last_access = 1, di_active = 2, di_cached = None\<rparr>],
      pl_max = 50, pl_fresh = 2\<rparr>"

lemma sample_pool_run:
  "pool_run sample_pool_two [\<lparr>pc_conn = 1, pc_instance = 0\<rparr>, \<lparr>pc_conn = 0, pc_instance = 0\<rparr>] []"
proof -
  have "pool_run sample_pool [] []" by (rule pool_run.created[of "''/data''"]) (simp add: pool_new_def sample_pool_def)
  from pool_run.built[OF this, of sample_database "''/data/a.db''" "Ok 0"]
  have "pool_run (snd (build_database sample_database ''/data/a.db'' sample_pool)) [] []"
    by (simp add: build_database_def sample_database_def configure_database_def configure_connection_def
        insert_database_def Let_def sample_pool_def)
  from pool_run.taken[OF this, of 0 None "\<lparr>pc_conn = 0, pc_instance = 0\<rparr>" False]
  have "pool_run (sample_pool_two\<lparr>pl_instances := [(pl_instances sample_pool_two ! 0)\<lparr>di_active := 1\<rparr>], pl_fresh := 1\<rparr>)
      [\<lparr>pc_conn = 0, pc_instance = 0\<rparr>] []"
    by (simp add: build_database_def sample_database_def configure_database_def configure_connection_def
        insert_database_def Let_def sample_pool_def take_connection_def update_instance_def sample_pool_two_def)
  from pool_run.taken[OF this, of 0 None "\<lparr>pc_conn = 1, pc_instance = 0\<rparr>" False sample_pool_two] show ?thesis
    by (simp add: take_connection_def Let_def update_instance_def sample_pool_two_def)
qed

theorem connections_exclusive_witness:
  "di_active (pl_instances sample_pool_two ! 0) = 2"
  using connections_exclusive[OF sample_pool_run] by (simp add: sample_pool_two_def)

text \<open>
  C21: eviction spares what is in use and is least-recently-used. An evicted entry has no active
  connection, and every idle entry that stays was accessed at the same time or later; an instance
  with a connection handed out keeps its place in the cache.
\<close>

theorem eviction_lru:
  assumes "pool_run pool out rel" "p \<in> set (pl_databases pool)" "p \<notin> set (pl_databases (evict_old_databases pool))"
  shows "di_active (pl_instances pool ! snd p) = 0 \<and> snd p \<notin> pc_instance ` set out \<and>
    (\<forall>q \<in> set (pl_databases (evict_old_databases pool)). di_active (pl_instances pool ! snd q) = 0 \<longrightarrow>
       di_last_access (pl_instances pool ! snd p) \<le> di_last_access (pl_instances pool ! snd q))"
proof -
  have inv: "pool_inv pool out rel" by (rule pool_run_inv[OF assms(1)])
  then have ok: "pool_ok pool" by (simp add: pool_inv_def)
  have v: "p \<in> set (victims pool)" using evicted_iff[OF ok, of p] assms(2,3) by simp
  then have z: "di_active (pl_instances pool ! snd p) = 0" using victims_idle by (fastforce simp: idle_entries_def)
  have "snd p < length (pl_instances pool)" using ok assms(2) by (auto simp: pool_ok_def)
  with z inv have "count_list (map pc_instance out) (snd p) = 0" by (auto simp: pool_inv_def counted_def)
  then have "snd p \<notin> pc_instance ` set out" by (auto simp: count_list_0_iff)
  moreover have "last_access_of pool p \<le> last_access_of pool q"
    if "q \<in> set (pl_databases (evict_old_databases pool))" "di_active (pl_instances pool ! snd q) = 0" for q
  proof -
    have "q \<in> set (idle_entries pool)" "q \<notin> set (victims pool)"
      using that evicted_iff[OF ok, of q] by (auto simp: idle_entries_def)
    from victims_oldest[OF v this] show ?thesis .
  qed
  ultimately show ?thesis using z by (simp add: last_access_of_def)
qed

text \<open>A cache of any size up to one above the limit.\<close>

lemma insert_new_key:
  assumes "length (pl_databases pool) \<le> pl_max pool" "key \<notin> fst ` set (pl_databases pool)"
  shows "length (pl_databases (snd (insert_database now key pool))) = length (pl_databases pool) + 1"
proof -
  let ?p = "pool\<lparr>pl_instances := pl_instances pool @ [\<lparr>di_path = key, di_last_access = now, di_active = 0, di_cached = None\<rparr>]\<rparr>"
  have "evict_old_databases ?p = ?p" using assms(1) by (simp add: evict_old_databases_def)
  then show ?thesis using assms(2) by (simp add: insert_database_def Let_def length_update)
qed

lemma cache_of_size: "n \<le> 51 \<Longrightarrow> \<exists>pool. pool_run pool [] [] \<and> length (pl_databases pool) = n \<and> pl_max pool = 50"
proof (induction n)
  case 0
  have "pool_run sample_pool [] []" by (rule pool_run.created[of "''/data''"]) (simp add: pool_new_def sample_pool_def)
  then show ?case by (intro exI[of _ sample_pool]) (simp add: sample_pool_def)
next
  case (Suc n)
  then obtain pool where pool: "pool_run pool [] []" "length (pl_databases pool) = n" "pl_max pool = 50" by auto
  obtain key where key: "key \<notin> fst ` set (pl_databases pool)"
    using ex_new_if_finite[of "fst ` set (pl_databases pool)"] infinite_UNIV_listI by blast
  let ?q = "snd (insert_database 1 key pool)"
  have "build_database sample_database key pool = (Ok (fst (insert_database 1 key pool)), ?q)"
    by (simp add: build_database_def sample_database_def configure_database_def configure_connection_def split: prod.splits)
  from pool_run.built[OF pool(1) this] have "pool_run ?q [] []" .
  moreover have "length (pl_databases ?q) = Suc n" using insert_new_key[of pool key 1] key pool(2,3) Suc.prems by simp
  moreover have "pl_max ?q = 50" using pool(3) insert_fields(3)[of 1 key pool] by (metis prod.collapse)
  ultimately show ?case by blast
qed

theorem eviction_lru_witness:
  "\<exists>pool p. pool_run pool [] [] \<and> p \<in> set (pl_databases pool) \<and> p \<notin> set (pl_databases (evict_old_databases pool)) \<and>
     di_active (pl_instances pool ! snd p) = 0"
proof -
  obtain pool where pool: "pool_run pool [] []" "length (pl_databases pool) = 51" "pl_max pool = 50"
    using cache_of_size[of 51] by auto
  have inv: "pool_ok pool" "counted pool [] []" using pool_run_inv[OF pool(1)] by (simp_all add: pool_inv_def)
  then have "idle_entries pool = pl_databases pool"
    by (auto simp: idle_entries_def counted_def pool_ok_def filter_id_conv)
  then have "length (victims pool) = 2" using victims_length[of pool] pool by simp
  then obtain p where p: "p \<in> set (victims pool)" by (cases "victims pool") auto
  then have "p \<in> set (pl_databases pool)" using victims_idle[of pool] by (auto simp: idle_entries_def)
  moreover from this have out: "p \<notin> set (pl_databases (evict_old_databases pool))" using p evicted_iff[OF inv(1), of p] by simp
  ultimately show ?thesis using eviction_lru[OF pool(1)] pool(1) by blast
qed

text \<open>
  The cache is bounded by its limit and by what is in use. After an insertion the cache holds
  at most one entry more than the larger of the limit and the number of cached databases with
  active connections.
\<close>

theorem cache_bound:
  assumes "pool_run pool out rel" "insert_database now key pool = (i, pool')"
  shows "length (pl_databases pool') \<le>
    1 + max (pl_max pool) (length (filter (\<lambda>(k, i). di_active (pl_instances pool ! i) \<noteq> 0) (pl_databases pool)))"
  using insert_length(1)[OF assms(2)] pool_run_inv[OF assms(1)] by (simp add: pool_inv_def)

theorem cache_bound_witness:
  "length (pl_databases (snd (insert_database 3 ''/data/b.db'' sample_pool_two))) \<le> 51"
  using cache_bound[OF sample_pool_run, of 3 "''/data/b.db''"
      "fst (insert_database 3 ''/data/b.db'' sample_pool_two)" "snd (insert_database 3 ''/data/b.db'' sample_pool_two)"]
  by (simp add: sample_pool_two_def)

text \<open>
  C22: a full cache grows by one. When the cache holds exactly its limit, the eviction that makes
  room does nothing, because it starts above the limit only, and the insertion of a new path
  leaves one entry more than \<open>max_cached_databases\<close>.
\<close>

theorem full_cache_grows:
  assumes "pool_run pool out rel" "length (pl_databases pool) = pl_max pool" "key \<notin> fst ` set (pl_databases pool)"
    and "insert_database now key pool = (i, pool')"
  shows "length (pl_databases pool') = pl_max pool + 1"
  using insert_length(2)[OF assms(4) _ assms(2,3)] pool_run_inv[OF assms(1)] by (simp add: pool_inv_def)

theorem full_cache_grows_witness:
  "\<exists>pool key pool'. pool_run pool [] [] \<and> pl_max pool = 50 \<and> snd (insert_database 1 key pool) = pool' \<and>
     length (pl_databases pool') = 51"
proof -
  obtain pool where pool: "pool_run pool [] []" "length (pl_databases pool) = 50" "pl_max pool = 50"
    using cache_of_size[of 50] by auto
  obtain key where key: "key \<notin> fst ` set (pl_databases pool)"
    using ex_new_if_finite[of "fst ` set (pl_databases pool)"] infinite_UNIV_listI by blast
  have "insert_database 1 key pool = (fst (insert_database 1 key pool), snd (insert_database 1 key pool))" by simp
  from full_cache_grows[OF pool(1) _ key this] pool show ?thesis by auto
qed

text \<open>The instance that \<open>get_database\<close> returns is the one cached under the path.\<close>

lemma get_database_cached:
  assumes "pool_ok pool" "get_database path_debug de path pool = (Ok i, pool')"
  shows "map_of (pl_databases pool') (full_path (pl_root pool') path) = Some i" "i < length (pl_instances pool')"
    "pl_root pool' = pl_root pool"
proof -
  let ?key = "full_path (pl_root pool) path"
  consider (Hit) "map_of (pl_databases pool) ?key = Some i" "pool' = touch (de_lookup_now de) i pool"
    | (Miss) "insert_database (de_insert_now de) ?key pool = (i, pool')"
    using assms(2)
    by (auto simp: get_database_def lookup_database_def build_database_def Let_def res_simps
        split: if_splits option.splits prod.splits)
  then have "map_of (pl_databases pool') (full_path (pl_root pool') path) = Some i \<and> i < length (pl_instances pool') \<and>
    pl_root pool' = pl_root pool"
  proof cases
    case Hit
    then show ?thesis using assms(1) by (fastforce simp: touch_update pool_ok_def dest: map_of_SomeD)
  next
    case Miss
    then have "pl_root pool' = pl_root pool" "map_of (pl_databases pool') ?key = Some i"
      by (auto simp: insert_database_def Let_def update_conv')
    with insert_fields[OF Miss] show ?thesis by simp
  qed
  then show "map_of (pl_databases pool') (full_path (pl_root pool') path) = Some i" "i < length (pl_instances pool')"
    "pl_root pool' = pl_root pool" by blast+
qed

lemma take_finish_fields:
  assumes "take_connection connect i pool = (Ok c, pool1)" "finish_connection flt c pool1 = (Ok pc, pool2)"
  shows "pl_databases pool2 = pl_databases pool" "pl_root pool2 = pl_root pool" "pc_instance pc = i"
    "length (pl_instances pool2) = length (pl_instances pool)"
  using assms
  by (auto simp: take_connection_def finish_connection_def Let_def split: option.splits if_splits res.splits prod.splits)

text \<open>
  A connection is reused. When a task gets a connection for a path and drops it with the
  instance's lock free, the next request for that path gets the same connection back, without
  opening or configuring another, whatever the outcome of those would have been.
\<close>

theorem connection_reused:
  assumes "pool_run pool out rel" "pool_get_connection path_debug env path pool = (Ok pc, pool1)"
    and "de_exists (ce_database env')" "de_utf8 (ce_database env')"
  shows "fst (pool_get_connection path_debug env' path (drop_connection True pc pool1)) = Ok pc"
proof -
  have ok: "pool_ok pool" using pool_run_inv[OF assms(1)] by (simp add: pool_inv_def)
  obtain i p c p1 where db: "get_database path_debug (ce_database env) path pool = (Ok i, p)"
    and tk: "take_connection (ce_connect env) i p = (Ok c, p1)" "finish_connection (ce_configure env) c p1 = (Ok pc, pool1)"
    using assms(2) by (auto simp: pool_get_connection_def res_simps)
  note D = get_database_cached[OF ok db] and T = take_finish_fields[OF tk]
  let ?q = "drop_connection True pc pool1"
  have q: "pl_databases ?q = pl_databases p" "pl_root ?q = pl_root p" "i < length (pl_instances ?q)"
    "di_cached (pl_instances ?q ! i) = Some (pc_conn pc)"
    using D(2) T by (auto simp: drop_connection_def count_down_def return_connection_def)
  then have "get_database path_debug (ce_database env') path ?q = (Ok i, touch (de_lookup_now (ce_database env')) i ?q)"
    using D(1) assms(3,4) by (simp add: get_database_def lookup_database_def Let_def)
  moreover have "pc = \<lparr>pc_conn = pc_conn pc, pc_instance = i\<rparr>" using T(3) by simp
  ultimately show ?thesis
    using q by (simp add: pool_get_connection_def touch_update take_connection_def Let_def finish_connection_def)
qed

definition sample_connection :: connection_env where
  "sample_connection = \<lparr>ce_database = sample_database, ce_connect = None, ce_configure = (\<lambda>_. None)\<rparr>"

theorem connection_reused_witness:
  "\<exists>pc pool1. pool_get_connection (\<lambda>p. p) sample_connection ''a.db'' sample_pool = (Ok pc, pool1) \<and>
     fst (pool_get_connection (\<lambda>p. p) (sample_connection\<lparr>ce_connect := Some (Db ''too many open files'')\<rparr>) ''a.db''
       (drop_connection True pc pool1)) = Ok pc"
proof -
  have run: "pool_run sample_pool [] []" by (rule pool_run.created[of "''/data''"]) (simp add: pool_new_def sample_pool_def)
  have "is_Ok (fst (pool_get_connection (\<lambda>p. p) sample_connection ''a.db'' sample_pool))" by code_simp
  then obtain pc pool1 where "pool_get_connection (\<lambda>p. p) sample_connection ''a.db'' sample_pool = (Ok pc, pool1)"
    by (cases "pool_get_connection (\<lambda>p. p) sample_connection ''a.db'' sample_pool")
      (auto elim: is_Ok.elims)
  with connection_reused[OF run this, of "sample_connection\<lparr>ce_connect := Some (Db ''too many open files'')\<rparr>"]
  show ?thesis by (auto simp: sample_connection_def sample_database_def)
qed

end
