(* ===== verification/Partitions.thy ===== *)
theory Partitions
  imports Pool Labels StreamOpen "HOL-Library.Multiset"
begin

section \<open>Namespaces, partitions and the store cache (\<open>src/partitions.rs\<close>)\<close>

text \<open>
  \<open>EventNamespaces\<close> maps safe labels to partition directories and keeps a bounded cache of opened
  stores. A cached store is a stream handle of any type \<open>'s\<close>, with the instant of its last
  resolution in nanoseconds. \<open>open_cached\<close> locks the cache twice, with the opening of the store
  between: the two locked parts are operations of their own, so that tasks can interleave.
\<close>

record partition_descriptor =
  pd_namespace :: string
  pd_partition_key :: string
  pd_path :: string

record 's cached_store =
  cs_stream :: 's
  cs_last_access :: int

record 's partition_cache =
  pch_max_open_stores :: nat
  pch_idle_store_ttl :: duration
  pch_stores :: "(string \<times> 's cached_store) list"

record 's event_namespaces =
  en_root :: string
  en_rotation_policy :: rotation_policy
  en_cache :: "'s partition_cache"

record event_namespace =
  ens_root :: string
  ens_name :: string

record partition_handle =
  ph_descriptor :: partition_descriptor

subsection \<open>The cache\<close>

text \<open>\<open>Instant::duration_since\<close> is zero for a later instant.\<close>

definition duration_since :: "int \<Rightarrow> int \<Rightarrow> int" where
  "duration_since now earlier = max 0 (now - earlier)"

definition evict_idle :: "int \<Rightarrow> 's partition_cache \<Rightarrow> 's partition_cache" where
  "evict_idle now cache =
     cache\<lparr>pch_stores :=
       filter (\<lambda>(k, c). duration_since now (cs_last_access c) \<le> int (as_nanos (pch_idle_store_ttl cache))) (pch_stores cache)\<rparr>"

text \<open>\<open>min_by_key\<close>: the first of the least.\<close>

fun oldest_store :: "(string \<times> 's cached_store) list \<Rightarrow> (string \<times> 's cached_store) option" where
  "oldest_store [] = None"
| "oldest_store (e # es) =
     (case oldest_store es of
        None \<Rightarrow> Some e
      | Some f \<Rightarrow> if cs_last_access (snd e) \<le> cs_last_access (snd f) then Some e else Some f)"

lemma oldest_store_in: "oldest_store es = Some e \<Longrightarrow> e \<in> set es"
  by (induction es arbitrary: e) (auto split: option.splits if_splits)

lemma oldest_store_None [simp]: "oldest_store es = None \<longleftrightarrow> es = []"
  by (cases es) (auto split: option.splits)

function evict_to_capacity :: "'s partition_cache \<Rightarrow> 's partition_cache" where
  "evict_to_capacity cache =
     (if pch_max_open_stores cache \<le> length (pch_stores cache) then
        (case oldest_store (pch_stores cache) of
           None \<Rightarrow> cache
         | Some (oldest_key, c) \<Rightarrow> evict_to_capacity (cache\<lparr>pch_stores := AList.delete oldest_key (pch_stores cache)\<rparr>))
      else cache)"
  by pat_completeness auto

text \<open>Every round removes an entry.\<close>

termination
proof (relation "measure (\<lambda>cache. length (pch_stores cache))", goal_cases)
  case (2 cache e k c)
  then have "(k, c) \<in> set (pch_stores cache)" by (simp add: oldest_store_in)
  then show ?case by (auto simp: AList.delete_eq intro!: length_filter_less)
qed simp

declare evict_to_capacity.simps [simp del]

definition lock_poisoned :: es_error where
  "lock_poisoned = Migration ''partition cache lock poisoned''"

subsection \<open>Namespaces and partitions\<close>

definition namespaces_open :: "es_error option \<Rightarrow> string \<Rightarrow> rotation_policy \<Rightarrow> 's event_namespaces result" where
  "namespaces_open mkdir root rotation_policy =
     (case mkdir of Some e \<Rightarrow> Err e
      | None \<Rightarrow>
          Ok \<lparr>en_root = root, en_rotation_policy = rotation_policy,
              en_cache = \<lparr>pch_max_open_stores = 50, pch_idle_store_ttl = from_secs 300, pch_stores = []\<rparr>\<rparr>)"

definition with_max_open_stores :: "bool \<Rightarrow> nat \<Rightarrow> 's event_namespaces \<Rightarrow> 's event_namespaces result" where
  "with_max_open_stores poisoned max_open_stores ns =
     (if max_open_stores = 0 then Err (InvalidPartition ''max_open_stores must be greater than zero'')
      else if poisoned then Err lock_poisoned
      else Ok (ns\<lparr>en_cache := evict_to_capacity ((en_cache ns)\<lparr>pch_max_open_stores := max_open_stores\<rparr>)\<rparr>))"

definition with_idle_store_ttl :: "bool \<Rightarrow> int \<Rightarrow> duration \<Rightarrow> 's event_namespaces \<Rightarrow> 's event_namespaces result" where
  "with_idle_store_ttl poisoned now idle_store_ttl ns =
     (if is_zero idle_store_ttl then Err (InvalidPartition ''idle_store_ttl must be greater than zero'')
      else if poisoned then Err lock_poisoned
      else Ok (ns\<lparr>en_cache := evict_idle now ((en_cache ns)\<lparr>pch_idle_store_ttl := idle_store_ttl\<rparr>)\<rparr>))"

definition ensure_namespace :: "es_error option \<Rightarrow> string \<Rightarrow> string \<Rightarrow> event_namespace result" where
  "ensure_namespace mkdir root namespace =
     rbind (validate_safe_label ''namespace'' namespace) (\<lambda>_.
       (case mkdir of Some e \<Rightarrow> Err e | None \<Rightarrow> Ok \<lparr>ens_root = root, ens_name = namespace\<rparr>))"

definition partition_path :: "string \<Rightarrow> string \<Rightarrow> string \<Rightarrow> string" where
  "partition_path root namespace partition_key = full_path (full_path root namespace) partition_key"

definition ensure_partition :: "es_error option \<Rightarrow> string \<Rightarrow> string \<Rightarrow> string \<Rightarrow> partition_handle result" where
  "ensure_partition mkdir root namespace partition_key =
     rbind (validate_safe_label ''namespace'' namespace) (\<lambda>_.
     rbind (validate_safe_label ''partition_key'' partition_key) (\<lambda>_.
       (case mkdir of Some e \<Rightarrow> Err e
        | None \<Rightarrow>
            Ok \<lparr>ph_descriptor =
                  \<lparr>pd_namespace = namespace, pd_partition_key = partition_key,
                   pd_path = partition_path root namespace partition_key\<rparr>\<rparr>)))"

text \<open>The entries of the namespace directory that are partitions, in the order of the directory.\<close>

fun collect_partitions :: "string \<Rightarrow> string \<Rightarrow> dir_item list \<Rightarrow> partition_descriptor list result" where
  "collect_partitions namespace_path namespace [] = Ok []"
| "collect_partitions namespace_path namespace (item # items) =
     (case item of
        EntryErr e \<Rightarrow> Err e
      | Entry file_type name \<Rightarrow>
          rbind file_type (\<lambda>is_dir.
          if \<not> is_dir then collect_partitions namespace_path namespace items
          else
            (case name of
               None \<Rightarrow> collect_partitions namespace_path namespace items
             | Some partition_key \<Rightarrow>
                 if is_Err (validate_safe_label ''partition_key'' partition_key)
                 then collect_partitions namespace_path namespace items
                 else
                   rbind (collect_partitions namespace_path namespace items) (\<lambda>descriptors.
                   Ok (\<lparr>pd_namespace = namespace, pd_partition_key = partition_key,
                        pd_path = full_path namespace_path partition_key\<rparr> # descriptors)))))"

definition list_partitions :: "string \<Rightarrow> string \<Rightarrow> dir_listing \<Rightarrow> partition_descriptor list result" where
  "list_partitions root namespace listing =
     rbind (validate_safe_label ''namespace'' namespace) (\<lambda>_.
       (case listing of
          DirNotFound \<Rightarrow> Ok []
        | DirErr e \<Rightarrow> Err e
        | DirEntries items \<Rightarrow>
            rbind (collect_partitions (full_path root namespace) namespace items) (\<lambda>descriptors.
            Ok (sort_key pd_partition_key descriptors))))"

subsection \<open>Opening through the cache\<close>

definition cache_key :: "partition_descriptor \<Rightarrow> string" where
  "cache_key d = pd_namespace d @ ''/'' @ pd_partition_key d"

text \<open>One call: the lock of each part, and the clock at its readings.\<close>

record cache_env =
  cc_poisoned_lookup :: bool
  cc_lookup_now :: int
  cc_hit_now :: int
  cc_poisoned_insert :: bool
  cc_insert_now :: int
  cc_stored_now :: int

definition lookup_cached ::
  "cache_env \<Rightarrow> string \<Rightarrow> 's event_namespaces \<Rightarrow> 's option result \<times> 's event_namespaces" where
  "lookup_cached ce key ns =
     (if cc_poisoned_lookup ce then (Err lock_poisoned, ns)
      else
        (let cache = evict_idle (cc_lookup_now ce) (en_cache ns) in
         case map_of (pch_stores cache) key of
           Some c \<Rightarrow>
             (Ok (Some (cs_stream c)),
              ns\<lparr>en_cache := cache\<lparr>pch_stores := AList.update key (c\<lparr>cs_last_access := cc_hit_now ce\<rparr>) (pch_stores cache)\<rparr>\<rparr>)
         | None \<Rightarrow> (Ok None, ns\<lparr>en_cache := cache\<rparr>)))"

definition insert_cached ::
  "cache_env \<Rightarrow> string \<Rightarrow> 's \<Rightarrow> 's event_namespaces \<Rightarrow> 's result \<times> 's event_namespaces" where
  "insert_cached ce key stream ns =
     (if cc_poisoned_insert ce then (Err lock_poisoned, ns)
      else
        (let cache = evict_to_capacity (evict_idle (cc_insert_now ce) (en_cache ns)) in
         (Ok stream,
          ns\<lparr>en_cache := cache\<lparr>pch_stores :=
            AList.update key \<lparr>cs_stream = stream, cs_last_access = cc_stored_now ce\<rparr> (pch_stores cache)\<rparr>\<rparr>)))"

text \<open>\<open>opened\<close> is the outcome of \<open>open_partitioned\<close> on the descriptor's directory.\<close>

definition open_cached ::
  "cache_env \<Rightarrow> 's result \<Rightarrow> partition_descriptor \<Rightarrow> 's event_namespaces \<Rightarrow> 's result \<times> 's event_namespaces" where
  "open_cached ce opened d ns =
     sbind (lookup_cached ce (cache_key d) ns) (\<lambda>hit ns.
       (case hit of
          Some stream \<Rightarrow> (Ok stream, ns)
        | None \<Rightarrow> sbind (opened, ns) (\<lambda>stream ns. insert_cached ce (cache_key d) stream ns)))"

definition partition_open ::
  "(string \<Rightarrow> string) \<Rightarrow> bool \<Rightarrow> cache_env \<Rightarrow> 's result \<Rightarrow> partition_handle \<Rightarrow> 's event_namespaces
     \<Rightarrow> 's result \<times> 's event_namespaces" where
  "partition_open path_display path_exists ce opened p ns =
     (if \<not> path_exists
      then (Err (InvalidPath (''partition does not exist: '' @ path_display (pd_path (ph_descriptor p)))), ns)
      else open_cached ce opened (ph_descriptor p) ns)"

subsection \<open>The cache stays bounded\<close>

lemma evict_idle_fields [simp]:
  "pch_max_open_stores (evict_idle now cache) = pch_max_open_stores cache"
  "pch_idle_store_ttl (evict_idle now cache) = pch_idle_store_ttl cache"
  by (simp_all add: evict_idle_def)

lemma evict_idle_subset: "set (pch_stores (evict_idle now cache)) \<subseteq> set (pch_stores cache)"
  by (auto simp: evict_idle_def)

lemma evict_idle_distinct: "distinct (map fst (pch_stores cache)) \<Longrightarrow> distinct (map fst (pch_stores (evict_idle now cache)))"
  by (simp add: evict_idle_def distinct_map_filter)

lemma evict_idle_length: "length (pch_stores (evict_idle now cache)) \<le> length (pch_stores cache)"
  by (simp add: evict_idle_def)

lemma evict_to_capacity_fields:
  "pch_max_open_stores (evict_to_capacity cache) = pch_max_open_stores cache \<and>
   pch_idle_store_ttl (evict_to_capacity cache) = pch_idle_store_ttl cache \<and>
   (distinct (map fst (pch_stores cache)) \<longrightarrow> distinct (map fst (pch_stores (evict_to_capacity cache)))) \<and>
   (0 < pch_max_open_stores cache \<longrightarrow> length (pch_stores (evict_to_capacity cache)) < pch_max_open_stores cache)"
proof (induction cache rule: evict_to_capacity.induct)
  case (1 cache)
  show ?case
  proof (cases "pch_max_open_stores cache \<le> length (pch_stores cache)")
    case full: True
    show ?thesis
    proof (cases "oldest_store (pch_stores cache)")
      case None
      with full show ?thesis by (simp add: evict_to_capacity.simps[of cache])
    next
      case (Some e)
      obtain k c where e: "e = (k, c)" by (cases e)
      let ?next = "cache\<lparr>pch_stores := AList.delete k (pch_stores cache)\<rparr>"
      have "distinct (map fst (pch_stores cache)) \<longrightarrow> distinct (map fst (pch_stores ?next))"
        by (simp add: AList.delete_eq distinct_map_filter)
      moreover have "evict_to_capacity cache = evict_to_capacity ?next"
        using full Some by (simp add: evict_to_capacity.simps[of cache] e)
      ultimately show ?thesis using 1[OF full Some e[symmetric]] by simp
    qed
  next
    case False
    then show ?thesis by (simp add: evict_to_capacity.simps[of cache])
  qed
qed

lemmas capacity_simps [simp] =
  evict_to_capacity_fields[THEN conjunct1] evict_to_capacity_fields[THEN conjunct2, THEN conjunct1]

lemma evict_to_capacity_length:
  "0 < pch_max_open_stores cache \<Longrightarrow> length (pch_stores (evict_to_capacity cache)) < pch_max_open_stores cache"
  and evict_to_capacity_distinct:
  "distinct (map fst (pch_stores cache)) \<Longrightarrow> distinct (map fst (pch_stores (evict_to_capacity cache)))"
  using evict_to_capacity_fields[of cache] by blast+

definition cache_ok :: "'s event_namespaces \<Rightarrow> bool" where
  "cache_ok ns \<longleftrightarrow>
     0 < pch_max_open_stores (en_cache ns) \<and> \<not> is_zero (pch_idle_store_ttl (en_cache ns)) \<and>
     distinct (map fst (pch_stores (en_cache ns))) \<and>
     length (pch_stores (en_cache ns)) \<le> pch_max_open_stores (en_cache ns)"

lemma update_present_length: "map_of al k = Some v \<Longrightarrow> length (AList.update k w al) = length al"
  by (auto simp: length_update dest: map_of_SomeD intro: rev_image_eqI)

lemma lookup_cached_ok:
  assumes "cache_ok ns" "lookup_cached ce key ns = (r, ns')"
  shows "cache_ok ns'"
  using assms evict_idle_length[of "cc_lookup_now ce" "en_cache ns"] evict_idle_distinct[of "en_cache ns" "cc_lookup_now ce"]
  by (auto simp: lookup_cached_def cache_ok_def Let_def update_present_length distinct_update split: if_splits option.splits)

lemma insert_cached_ok:
  assumes "cache_ok ns" "insert_cached ce key stream ns = (r, ns')"
  shows "cache_ok ns'"
proof -
  let ?cache = "evict_to_capacity (evict_idle (cc_insert_now ce) (en_cache ns))"
  have "length (pch_stores ?cache) < pch_max_open_stores (en_cache ns)" "distinct (map fst (pch_stores ?cache))"
    using assms(1) evict_to_capacity_length[of "evict_idle (cc_insert_now ce) (en_cache ns)"]
      evict_to_capacity_distinct[OF evict_idle_distinct[of "en_cache ns" "cc_insert_now ce"]]
    by (simp_all add: cache_ok_def)
  with assms show ?thesis
    by (auto simp: insert_cached_def cache_ok_def Let_def length_update distinct_update split: if_splits)
qed

text \<open>The tasks of a process share the cache; \<open>namespaces_run\<close> interleaves their locked parts.\<close>

inductive namespaces_run :: "'s event_namespaces \<Rightarrow> bool" where
  opened: "namespaces_open mkdir root policy = Ok ns \<Longrightarrow> namespaces_run ns"
| resized: "namespaces_run ns \<Longrightarrow> with_max_open_stores poisoned n ns = Ok ns' \<Longrightarrow> namespaces_run ns'"
| retimed: "namespaces_run ns \<Longrightarrow> with_idle_store_ttl poisoned now ttl ns = Ok ns' \<Longrightarrow> namespaces_run ns'"
| looked_up: "namespaces_run ns \<Longrightarrow> lookup_cached ce key ns = (r, ns') \<Longrightarrow> namespaces_run ns'"
| inserted: "namespaces_run ns \<Longrightarrow> insert_cached ce key stream ns = (r, ns') \<Longrightarrow> namespaces_run ns'"

lemma namespaces_run_ok: "namespaces_run ns \<Longrightarrow> cache_ok ns"
proof (induction rule: namespaces_run.induct)
  case (opened mkdir root policy ns)
  then show ?case by (auto simp: namespaces_open_def cache_ok_def is_zero_def from_secs_def split: option.splits)
next
  case (resized ns poisoned n ns')
  then show ?case
    using evict_to_capacity_length[of "(en_cache ns)\<lparr>pch_max_open_stores := n\<rparr>"]
      evict_to_capacity_distinct[of "(en_cache ns)\<lparr>pch_max_open_stores := n\<rparr>"]
    by (auto simp: with_max_open_stores_def cache_ok_def split: if_splits)
next
  case (retimed ns poisoned now ttl ns')
  then show ?case
    using evict_idle_length[of now "(en_cache ns)\<lparr>pch_idle_store_ttl := ttl\<rparr>"]
      evict_idle_distinct[of "(en_cache ns)\<lparr>pch_idle_store_ttl := ttl\<rparr>" now]
    by (auto simp: with_idle_store_ttl_def cache_ok_def split: if_splits)
next
  case (looked_up ns ce key r ns')
  from lookup_cached_ok[OF looked_up.IH looked_up.hyps(2)] show ?case .
next
  case (inserted ns ce key stream r ns')
  from insert_cached_ok[OF inserted.IH inserted.hyps(2)] show ?case .
qed

text \<open>
  C29: the store cache stays within its limit. Whatever tasks interleave their lookups and
  insertions, and whenever the limits are changed, the cache never holds more than
  \<open>max_open_stores\<close> stores, one per key, with a positive limit and a positive idle time.
\<close>

theorem store_cache_bounded:
  assumes "namespaces_run ns"
  shows "length (pch_stores (en_cache ns)) \<le> pch_max_open_stores (en_cache ns) \<and>
    distinct (map fst (pch_stores (en_cache ns))) \<and> 0 < pch_max_open_stores (en_cache ns) \<and>
    \<not> is_zero (pch_idle_store_ttl (en_cache ns))"
  using namespaces_run_ok[OF assms] by (simp add: cache_ok_def)

definition sample_namespaces :: "nat event_namespaces" where
  "sample_namespaces =
     \<lparr>en_root = ''/data'', en_rotation_policy = TimeWindow (from_secs 3600) None,
      en_cache = \<lparr>pch_max_open_stores = 50, pch_idle_store_ttl = from_secs 300, pch_stores = []\<rparr>\<rparr>"

definition sample_cache_env :: "int \<Rightarrow> cache_env" where
  "sample_cache_env now =
     \<lparr>cc_poisoned_lookup = False, cc_lookup_now = now, cc_hit_now = now, cc_poisoned_insert = False,
      cc_insert_now = now, cc_stored_now = now\<rparr>"

lemma sample_namespaces_run: "namespaces_run sample_namespaces"
  by (rule namespaces_run.opened[of None "''/data''" "TimeWindow (from_secs 3600) None"])
    (simp add: namespaces_open_def sample_namespaces_def)

theorem store_cache_bounded_witness:
  "\<exists>ns. with_max_open_stores False 1 (snd (insert_cached (sample_cache_env 2) ''orders/b'' 8
      (snd (insert_cached (sample_cache_env 1) ''orders/a'' 7 sample_namespaces)))) = Ok ns \<and>
     length (pch_stores (en_cache ns)) \<le> 1"
proof -
  let ?b = "snd (insert_cached (sample_cache_env 2) ''orders/b'' 8 (snd (insert_cached (sample_cache_env 1) ''orders/a'' 7 sample_namespaces)))"
  have "namespaces_run ?b"
    by (rule namespaces_run.inserted[OF namespaces_run.inserted[OF sample_namespaces_run]]) (rule surjective_pairing)+
  moreover obtain ns where ns: "with_max_open_stores False 1 ?b = Ok ns" by (simp add: with_max_open_stores_def)
  ultimately have "namespaces_run ns" by (rule namespaces_run.resized)
  from store_cache_bounded[OF this] ns show ?thesis by (auto simp: with_max_open_stores_def)
qed

text \<open>
  A store that is still cached is not opened again. After \<open>open_cached\<close> returned a stream, a
  second call for the same partition within the idle time returns the same handle, whatever
  opening the directory again would have given.
\<close>

theorem open_cached_hit:
  assumes "open_cached ce opened d ns = (Ok stream, ns1)" "\<not> cc_poisoned_lookup ce'"
    and "duration_since (cc_lookup_now ce') (cc_hit_now ce) \<le> int (as_nanos (pch_idle_store_ttl (en_cache ns)))"
    and "duration_since (cc_lookup_now ce') (cc_stored_now ce) \<le> int (as_nanos (pch_idle_store_ttl (en_cache ns)))"
    and "namespaces_run ns"
  shows "fst (open_cached ce' opened' d ns1) = Ok stream"
proof -
  let ?ttl = "pch_idle_store_ttl (en_cache ns)"
  obtain hit ns0 where look: "lookup_cached ce (cache_key d) ns = (Ok hit, ns0)"
    and rest: "(case hit of Some stream \<Rightarrow> (Ok stream, ns0)
        | None \<Rightarrow> sbind (opened, ns0) (\<lambda>stream ns. insert_cached ce (cache_key d) stream ns)) = (Ok stream, ns1)"
    using assms(1) by (auto simp: open_cached_def res_simps)
  have ok0: "cache_ok ns0" by (rule lookup_cached_ok[OF namespaces_run_ok[OF assms(5)] look])
  have ttl0: "pch_idle_store_ttl (en_cache ns0) = ?ttl"
    using look by (auto simp: lookup_cached_def Let_def split: if_splits option.splits)
  obtain c where c: "map_of (pch_stores (en_cache ns1)) (cache_key d) = Some c" "cs_stream c = stream"
    "cs_last_access c \<in> {cc_hit_now ce, cc_stored_now ce}" "pch_idle_store_ttl (en_cache ns1) = ?ttl"
    using look rest ttl0
    by (auto simp: lookup_cached_def insert_cached_def Let_def update_conv' res_simps split: if_splits option.splits)
  have "cache_ok ns1"
    using rest ok0 insert_cached_ok[OF ok0] by (auto simp: res_simps split: option.splits)
  then have "map_of (pch_stores (evict_idle (cc_lookup_now ce') (en_cache ns1))) (cache_key d) = Some c"
    using c assms(3,4) by (auto simp: evict_idle_def cache_ok_def map_of_eq_Some_iff distinct_map_filter dest: map_of_SomeD)
  with c(2) assms(2) show ?thesis by (simp add: open_cached_def lookup_cached_def Let_def)
qed

definition orders_a :: partition_descriptor where
  "orders_a = \<lparr>pd_namespace = ''orders'', pd_partition_key = ''a'', pd_path = ''/data/orders/a''\<rparr>"

theorem open_cached_hit_witness:
  "fst (open_cached (sample_cache_env 300000000001) (Err (Db ''unreachable'')) orders_a
     (snd (open_cached (sample_cache_env 1) (Ok 7) orders_a sample_namespaces))) = Ok 7"
proof -
  have first: "open_cached (sample_cache_env 1) (Ok 7) orders_a sample_namespaces =
      (Ok 7, snd (open_cached (sample_cache_env 1) (Ok 7) orders_a sample_namespaces))"
    by (simp add: open_cached_def lookup_cached_def insert_cached_def Let_def sample_cache_env_def sample_namespaces_def evict_idle_def)
  show ?thesis
    by (rule open_cached_hit[OF first _ _ _ sample_namespaces_run])
      (simp_all add: sample_cache_env_def sample_namespaces_def duration_since_def as_nanos_def from_secs_def)
qed

subsection \<open>Directories\<close>

definition path_base :: "string \<Rightarrow> string" where
  "path_base root = (if root = [] \<or> suffix ''/'' root then root else root @ ''/'')"

lemma full_path_label:
  assumes "safe_label n"
  shows "full_path root n = path_base root @ n" "\<not> suffix ''/'' (full_path root n)" "full_path root n \<noteq> []"
proof -
  have n: "CHR ''/'' \<notin> set n" "n \<noteq> []" using safe_label_no_slash[OF assms] assms by (auto simp: safe_label_def)
  then have "\<not> prefix ''/'' n" by (cases n) auto
  then show p: "full_path root n = path_base root @ n" by (simp add: full_path_def path_base_def)
  have "last n \<in> set n" using n(2) by simp
  with n(1) have "last n \<noteq> CHR ''/''" by metis
  then have "last (full_path root n) \<noteq> CHR ''/''" using n(2) by (simp add: p)
  moreover have "last (zs @ ''/'') = CHR ''/''" for zs by simp
  ultimately show "\<not> suffix ''/'' (full_path root n)" unfolding suffix_def by metis
  show "full_path root n \<noteq> []" using n(2) p by simp
qed

lemma partition_path_labels:
  assumes "safe_label n" "safe_label k"
  shows "partition_path root n k = path_base root @ n @ ''/'' @ k"
proof -
  have "path_base (full_path root n) = full_path root n @ ''/''"
    unfolding path_base_def using full_path_label(2,3)[OF assms(1), of root] by simp
  then show ?thesis
    using full_path_label(1)[OF assms(1), of root] full_path_label(1)[OF assms(2), of "full_path root n"]
    by (simp add: partition_path_def)
qed

lemma slash_split:
  assumes "n @ ''/'' @ k = n' @ ''/'' @ k'" "CHR ''/'' \<notin> set n" "CHR ''/'' \<notin> set n'"
  shows "n = n' \<and> k = k'"
  using assms
proof (induction n arbitrary: n')
  case Nil
  then show ?case by (cases n') auto
next
  case (Cons c n)
  then show ?case by (cases n') auto
qed

text \<open>
  C28: different partitions never share a directory or a cache entry. Whatever namespace and key
  strings a caller passes, if both are accepted then the two directories are equal exactly when
  the namespaces and the keys are, and so are the cache keys; every directory lies two plain
  components below the root, so no label escapes it.
\<close>

theorem partitions_are_separate:
  assumes "ensure_partition mkdir root n k = Ok p" "ensure_partition mkdir' root n' k' = Ok p'"
  shows "(pd_path (ph_descriptor p) = pd_path (ph_descriptor p') \<longleftrightarrow> n = n' \<and> k = k') \<and>
    (cache_key (ph_descriptor p) = cache_key (ph_descriptor p') \<longleftrightarrow> n = n' \<and> k = k') \<and>
    pd_path (ph_descriptor p) = path_base root @ n @ ''/'' @ k \<and> CHR ''/'' \<notin> set n \<and> CHR ''/'' \<notin> set k \<and>
    CHR ''.'' \<notin> set n \<and> CHR ''.'' \<notin> set k"
proof -
  have l: "safe_label n" "safe_label k" "safe_label n'" "safe_label k'"
    and d: "ph_descriptor p = \<lparr>pd_namespace = n, pd_partition_key = k, pd_path = partition_path root n k\<rparr>"
      "ph_descriptor p' = \<lparr>pd_namespace = n', pd_partition_key = k', pd_path = partition_path root n' k'\<rparr>"
    using assms by (auto simp: ensure_partition_def res_simps split: option.splits)
  have slash: "CHR ''/'' \<notin> set n" "CHR ''/'' \<notin> set k" "CHR ''/'' \<notin> set n'"
    using l by (simp_all add: safe_label_no_slash)
  have dot: "CHR ''.'' \<notin> set n" "CHR ''.'' \<notin> set k"
    using l safe_byte_not(2) by (auto simp: safe_label_def list_all_iff)
  have "n @ ''/'' @ k = n' @ ''/'' @ k' \<longleftrightarrow> n = n' \<and> k = k'" using slash_split[of n k n' k'] slash by blast
  with l d slash dot show ?thesis by (simp add: partition_path_labels cache_key_def)
qed

theorem partitions_are_separate_witness:
  "\<exists>p p'. ensure_partition None ''/data'' ''orders'' ''a-b'' = Ok p \<and> ensure_partition None ''/data'' ''orders'' ''a'' = Ok p' \<and>
     pd_path (ph_descriptor p) \<noteq> pd_path (ph_descriptor p')"
proof -
  have l: "safe_label ''orders''" "safe_label ''a-b''" "safe_label ''a''" by code_simp+
  obtain p p' where p: "ensure_partition None ''/data'' ''orders'' ''a-b'' = Ok p" "ensure_partition None ''/data'' ''orders'' ''a'' = Ok p'"
    using l by (simp add: ensure_partition_def validate_safe_label_cases)
  from partitions_are_separate[OF p] have "pd_path (ph_descriptor p) \<noteq> pd_path (ph_descriptor p')" by blast
  with p show ?thesis by blast
qed

fun partition_keys :: "dir_item list \<Rightarrow> string list" where
  "partition_keys [] = []"
| "partition_keys (Entry (Ok True) (Some k) # items) = (if safe_label k then k # partition_keys items else partition_keys items)"
| "partition_keys (_ # items) = partition_keys items"

lemma collect_partitions_Ok:
  assumes "collect_partitions np n items = Ok ds"
  shows "ds = map (\<lambda>k. \<lparr>pd_namespace = n, pd_partition_key = k, pd_path = full_path np k\<rparr>) (partition_keys items)"
  using assms
proof (induction items arbitrary: ds rule: partition_keys.induct)
  case (2 k items)
  then show ?case by (auto simp: validate_safe_label_cases res_simps split: if_splits)
qed (auto simp: validate_safe_label_cases res_simps split: if_splits option.splits)

text \<open>
  Listing agrees with creating. \<open>list_partitions\<close> returns, sorted by key, one descriptor for
  every directory of the namespace with a safe name and nothing else, and each is the descriptor
  that \<open>ensure_partition\<close> gives for its key.
\<close>

theorem list_partitions_correct:
  assumes "list_partitions root n (DirEntries items) = Ok ds"
  shows "sorted (map pd_partition_key ds) \<and> mset (map pd_partition_key ds) = mset (partition_keys items) \<and>
    (\<forall>d \<in> set ds. ensure_partition None root n (pd_partition_key d) = Ok \<lparr>ph_descriptor = d\<rparr>)"
proof -
  obtain cs where cs: "collect_partitions (full_path root n) n items = Ok cs" "ds = sort_key pd_partition_key cs"
    and n: "safe_label n"
    using assms by (auto simp: list_partitions_def res_simps)
  have keys: "map pd_partition_key cs = partition_keys items"
    by (simp add: collect_partitions_Ok[OF cs(1)] comp_def)
  have safe: "safe_label k" if "k \<in> set (partition_keys items)" for k
    using that by (induction items rule: partition_keys.induct) (auto split: if_splits)
  have "ensure_partition None root n (pd_partition_key d) = Ok \<lparr>ph_descriptor = d\<rparr>" if "d \<in> set ds" for d
    using that safe n unfolding cs(2) set_sort collect_partitions_Ok[OF cs(1)]
    by (auto simp: ensure_partition_def validate_safe_label_cases partition_path_def)
  moreover have "mset (map pd_partition_key ds) = mset (partition_keys items)"
    by (simp add: cs(2) flip: keys)
  ultimately show ?thesis by (simp add: cs(2))
qed

theorem list_partitions_correct_witness:
  "\<exists>ds. list_partitions ''/data'' ''orders''
       (DirEntries [Entry (Ok True) (Some ''b''), Entry (Ok False) (Some ''x''), Entry (Ok True) (Some ''a''), Entry (Ok True) (Some ''Tmp'')]) = Ok ds \<and>
     sorted (map pd_partition_key ds) \<and> mset (map pd_partition_key ds) = mset [''b'', ''a'']"
proof -
  let ?items = "[Entry (Ok True) (Some ''b''), Entry (Ok False) (Some ''x''), Entry (Ok True) (Some ''a''), Entry (Ok True) (Some ''Tmp'')]"
  have "is_Ok (list_partitions ''/data'' ''orders'' (DirEntries ?items)) \<and> partition_keys ?items = [''b'', ''a'']" by code_simp
  then obtain ds where "list_partitions ''/data'' ''orders'' (DirEntries ?items) = Ok ds" "partition_keys ?items = [''b'', ''a'']"
    by (auto elim: is_Ok.elims)
  with list_partitions_correct[OF this(1)] show ?thesis by auto
qed

end
