(* ===== verification/Runtime.thy ===== *)
theory Runtime
  imports Notifications Partitions
begin

section \<open>The runtime (\<open>src/runtime.rs\<close>)\<close>

text \<open>
  \<open>EventsRuntime\<close> wires the namespaces, the notifications store and the broadcast system together,
  and runs the worker that deletes expired notifications. The worker's \<open>select!\<close> loop is a
  function of the list of its wake-ups, in whatever order timer and shutdown channel produce them.
\<close>

subsection \<open>Configuration\<close>

definition DEFAULT_PROGRESS_NOTIFICATION_TTL :: duration where
  "DEFAULT_PROGRESS_NOTIFICATION_TTL = from_secs 300"

definition default_rotation_policy :: rotation_policy where
  "default_rotation_policy = TimeWindow (from_secs 3600) None"

record notification_maintenance_options =
  nmo_cleanup_interval :: duration

definition maintenance_options_new :: "duration \<Rightarrow> notification_maintenance_options result" where
  "maintenance_options_new cleanup_interval =
     (if is_zero cleanup_interval
      then Err (InvalidDuration ''notification maintenance cleanup_interval'' ''expected a duration greater than zero'')
      else Ok \<lparr>nmo_cleanup_interval = cleanup_interval\<rparr>)"

record runtime_config =
  rc_data_dir :: string
  rc_progress_notification_ttl :: duration
  rc_rotation_policy :: rotation_policy

definition config_new :: "string \<Rightarrow> runtime_config" where
  "config_new data_dir =
     \<lparr>rc_data_dir = data_dir, rc_progress_notification_ttl = DEFAULT_PROGRESS_NOTIFICATION_TTL,
      rc_rotation_policy = default_rotation_policy\<rparr>"

definition with_progress_notification_ttl :: "duration \<Rightarrow> runtime_config \<Rightarrow> runtime_config" where
  "with_progress_notification_ttl ttl config = config\<lparr>rc_progress_notification_ttl := ttl\<rparr>"

definition with_rotation_policy :: "rotation_policy \<Rightarrow> runtime_config \<Rightarrow> runtime_config" where
  "with_rotation_policy policy config = config\<lparr>rc_rotation_policy := policy\<rparr>"

subsection \<open>The runtime\<close>

record ('s, 'q, 'b) events_runtime =
  rt_event_namespaces :: "'s event_namespaces"
  rt_notifications_store :: notifications_store
  rt_broadcast :: "('q, 'b) broadcast_system"
  rt_broadcast_loop :: bool

text \<open>What creation meets: the directory calls, the namespaces' directory, the database it finds.\<close>

record runtime_env =
  rv_data_dir :: "es_error option"
  rv_events_dir :: "es_error option"
  rv_stream_events_dir :: "es_error option"
  rv_store :: "notif_call faults"
  rv_found :: "notification_tables option"

text \<open>The new runtime, and the notifications database it leaves on disk.\<close>

definition runtime_new ::
  "('q, 'e) mpsc_crate \<Rightarrow> ('b, 'e) broadcast_crate \<Rightarrow> runtime_env \<Rightarrow> runtime_config
     \<Rightarrow> ('s, 'q, 'b) events_runtime result \<times> notification_tables option" where
  "runtime_new mp bc rv config =
     (case rv_data_dir rv of Some e \<Rightarrow> (Err e, rv_found rv) | None \<Rightarrow>
      sbind (namespaces_open (rv_events_dir rv) (rc_data_dir config @ ''/events'') (rc_rotation_policy config), rv_found rv)
        (\<lambda>namespaces db.
      case rv_stream_events_dir rv of Some e \<Rightarrow> (Err e, db) | None \<Rightarrow>
      sbind (with_ttl (rv_store rv) (rc_progress_notification_ttl config) db) (\<lambda>store db.
      sbind (create_broadcast_system mp bc, db) (\<lambda>sys db.
        (Ok \<lparr>rt_event_namespaces = namespaces, rt_notifications_store = store, rt_broadcast = sys,
            rt_broadcast_loop = True\<rparr>, db)))))"

definition with_data_dir ::
  "('q, 'e) mpsc_crate \<Rightarrow> ('b, 'e) broadcast_crate \<Rightarrow> runtime_env \<Rightarrow> string
     \<Rightarrow> ('s, 'q, 'b) events_runtime result \<times> notification_tables option" where
  "with_data_dir mp bc rv data_dir = runtime_new mp bc rv (config_new data_dir)"

text \<open>The loop can be taken once, also by \<open>spawn_broadcast_loop\<close>, which hands it to tokio. The flag says whether the caller got it.\<close>

definition take_broadcast_loop :: "('s, 'q, 'b) events_runtime \<Rightarrow> bool \<times> ('s, 'q, 'b) events_runtime" where
  "take_broadcast_loop rt = (rt_broadcast_loop rt, rt\<lparr>rt_broadcast_loop := False\<rparr>)"

subsection \<open>The maintenance worker\<close>

text \<open>
  One wake-up: a tick of the interval, with the clock and the faults of its cleanup, or a change
  of the shutdown channel, with its new value or \<open>None\<close> when every sender is gone.
\<close>

datatype wake_up = Tick int "notif_call faults" | ShutdownChanged "bool option"

fun maintenance_loop :: "turso_msgs \<Rightarrow> wake_up list \<Rightarrow> notifications_store \<Rightarrow> bool \<times> notifications_store" where
  "maintenance_loop tm [] store = (False, store)"
| "maintenance_loop tm (Tick now flt # wakes) store = maintenance_loop tm wakes (snd (cleanup tm flt now store))"
| "maintenance_loop tm (ShutdownChanged changed # wakes) store =
     (if changed = None \<or> changed = Some True then (True, store) else maintenance_loop tm wakes store)"

definition maintenance_worker ::
  "turso_msgs \<Rightarrow> bool \<Rightarrow> wake_up list \<Rightarrow> notifications_store \<Rightarrow> bool \<times> notifications_store" where
  "maintenance_worker tm shutdown wakes store =
     (if shutdown then (True, store) else maintenance_loop tm wakes store)"

subsection \<open>Properties\<close>

lemma cleanup_failed: "flt NtConnect \<noteq> None \<or> flt NtExecute \<noteq> None \<Longrightarrow> snd (cleanup tm flt now store) = store"
  by (auto simp: cleanup_def split: option.splits)

lemma cleanup_keeps:
  assumes "notifications_inv tm js store" "now \<le> later"
    and "flt' NtConnect = None" "flt' NtQuery = None" "flt' NtRow = None"
  shows "notifications_inv tm js (snd (cleanup tm flt now store))"
    "get_event tm js flt' later q (snd (cleanup tm flt now store)) = get_event tm js flt' later q store"
proof -
  have "notifications_inv tm js (snd (cleanup tm flt now store)) \<and>
    get_event tm js flt' later q (snd (cleanup tm flt now store)) = get_event tm js flt' later q store"
  proof (cases "flt NtConnect = None \<and> flt NtExecute = None")
    case True
    then have t: "flt NtConnect = None" "flt NtExecute = None" by simp_all
    note C = cleanup_latest[OF assms(1) t, of now]
    show ?thesis
      using C(2) assms(2)
      by (simp add: get_latest[OF C(2) assms(3-5)] get_latest[OF assms(1,3-5)] C(3) split: option.splits)
  next
    case False
    then have "snd (cleanup tm flt now store) = store" by (intro cleanup_failed) auto
    with assms(1) show ?thesis by simp
  qed
  then show "notifications_inv tm js (snd (cleanup tm flt now store))"
    "get_event tm js flt' later q (snd (cleanup tm flt now store)) = get_event tm js flt' later q store" by blast+
qed

fun tick_time :: "wake_up \<Rightarrow> int option" where
  "tick_time (Tick now flt) = Some now"
| "tick_time (ShutdownChanged c) = None"

text \<open>
  C25: the maintenance worker is invisible. Whatever ticks, failing cleanups and shutdown signals
  it sees, the store stays well-formed and no read at or after its last tick answers differently
  than without it.
\<close>

theorem maintenance_invisible:
  assumes "notifications_inv tm js store" "\<forall>w \<in> set wakes. pred_option (\<lambda>now. now \<le> later) (tick_time w)"
    and "flt NtConnect = None" "flt NtQuery = None" "flt NtRow = None"
  shows "notifications_inv tm js (snd (maintenance_worker tm shutdown wakes store)) \<and>
    get_event tm js flt later q (snd (maintenance_worker tm shutdown wakes store)) = get_event tm js flt later q store"
proof -
  have "notifications_inv tm js (snd (maintenance_loop tm wakes store)) \<and>
    get_event tm js flt later q (snd (maintenance_loop tm wakes store)) = get_event tm js flt later q store"
    using assms(1,2)
  proof (induction tm wakes store rule: maintenance_loop.induct)
    case (2 tm now f wakes store)
    then have "now \<le> later" by simp
    note K = cleanup_keeps[OF 2(2) this assms(3-5)]
    from 2(1)[OF K(1)] 2(3) K(2) show ?case by simp
  qed auto
  with assms(1) show ?thesis by (simp add: maintenance_worker_def)
qed

theorem maintenance_invisible_witness:
  "get_event quiet_msgs sample_json (\<lambda>_. None) 1299 ''req-1''
     (snd (maintenance_worker quiet_msgs False [Tick 1100 (\<lambda>_. None), ShutdownChanged (Some False), Tick 1200 (\<lambda>_. Some (Db ''busy''))]
       (snd (record_event quiet_msgs sample_json (\<lambda>_. None) 1000 sample_event_done sample_store)))) = Ok (Some sample_event_done)"
proof -
  have e: "se_request_id sample_event_done = ''req-1''" "as_secs (ns_ttl sample_store) = 300"
    by (simp_all add: sample_event_done_def completed_def sample_store_def)
  note R = record_latest[OF sample_store_inv sample_event_storable, of "\<lambda>_. None" 1000]
  have "get_event quiet_msgs sample_json (\<lambda>_. None) 1299 ''req-1''
     (snd (record_event quiet_msgs sample_json (\<lambda>_. None) 1000 sample_event_done sample_store)) = Ok (Some sample_event_done)"
    by (subst get_latest[OF R(2)]) (simp_all add: R(4) e in_i64_def)
  with maintenance_invisible[OF R(2), of "[Tick 1100 (\<lambda>_. None), ShutdownChanged (Some False), Tick 1200 (\<lambda>_. Some (Db ''busy''))]"
      1299 "\<lambda>_. None" False "''req-1''"]
  show ?thesis by simp
qed

text \<open>
  The worker stops at the first shutdown signal. A worker started under shutdown does nothing;
  otherwise it runs the cleanups of the ticks before the first signal that is set or that finds
  every sender gone, and stops there, without the later ones; with no such signal it goes on.
\<close>

definition is_shutdown :: "wake_up \<Rightarrow> bool" where
  "is_shutdown w \<longleftrightarrow> w \<in> {ShutdownChanged None, ShutdownChanged (Some True)}"

theorem maintenance_stops:
  "maintenance_worker tm shutdown wakes store =
     (shutdown \<or> (\<exists>w \<in> set wakes. is_shutdown w),
      if shutdown then store
      else foldl (\<lambda>s w. case w of Tick now flt \<Rightarrow> snd (cleanup tm flt now s) | _ \<Rightarrow> s) store
             (takeWhile (\<lambda>w. \<not> is_shutdown w) wakes))"
proof -
  have "maintenance_loop tm wakes store =
      (\<exists>w \<in> set wakes. is_shutdown w,
       foldl (\<lambda>s w. case w of Tick now flt \<Rightarrow> snd (cleanup tm flt now s) | _ \<Rightarrow> s) store
             (takeWhile (\<lambda>w. \<not> is_shutdown w) wakes))"
    by (induction tm wakes store rule: maintenance_loop.induct) (auto simp: is_shutdown_def)
  then show ?thesis by (simp add: maintenance_worker_def)
qed

text \<open>
  A new runtime is ready. With working directories and channels, creation succeeds; the
  namespaces and the store carry the configured policy and TTL, the namespaces live under
  \<open>events\<close>, stored notifications of a former run are kept, and the broadcast loop is there to be
  taken exactly once.
\<close>

theorem runtime_ready:
  assumes "rv_data_dir rv = None" "rv_events_dir rv = None" "rv_stream_events_dir rv = None" "\<And>c. rv_store rv c = None"
    and "create_broadcast_system (mp :: ('q, 'e) mpsc_crate) (bc :: ('b, 'e) broadcast_crate) = Ok sys" "rv_found rv = Some (ns_tables store)" "notifications_inv tm js store"
  shows "\<exists>rt :: ('s, 'q, 'b) events_runtime. fst (runtime_new mp bc rv config) = Ok rt \<and> cache_ok (rt_event_namespaces rt) \<and>
    en_root (rt_event_namespaces rt) = rc_data_dir config @ ''/events'' \<and>
    en_rotation_policy (rt_event_namespaces rt) = rc_rotation_policy config \<and>
    ns_ttl (rt_notifications_store rt) = rc_progress_notification_ttl config \<and>
    notifications_inv tm js (rt_notifications_store rt) \<and> latest tm js (rt_notifications_store rt) = latest tm js store \<and>
    rt_broadcast rt = sys \<and> fst (take_broadcast_loop rt) \<and> \<not> fst (take_broadcast_loop (snd (take_broadcast_loop rt)))"
proof -
  obtain s where s: "fst (with_ttl (rv_store rv) (rc_progress_notification_ttl config) (Some (ns_tables store))) = Ok s"
    "notifications_inv tm js s" "latest tm js s = latest tm js store" "ns_ttl s = rc_progress_notification_ttl config"
    using reopen_store[of tm js store "rv_store rv" "rc_progress_notification_ttl config", OF assms(7,4)]
    by (elim exE conjE) (rule that)
  obtain db where "with_ttl (rv_store rv) (rc_progress_notification_ttl config) (Some (ns_tables store)) = (Ok s, db)"
    using s(1) by (metis prod.collapse)
  then have "(fst (runtime_new mp bc rv config) :: ('s, 'q, 'b) events_runtime result) =
      Ok \<lparr>rt_event_namespaces = \<lparr>en_root = rc_data_dir config @ ''/events'', en_rotation_policy = rc_rotation_policy config,
            en_cache = \<lparr>pch_max_open_stores = 50, pch_idle_store_ttl = from_secs 300, pch_stores = []\<rparr>\<rparr>,
          rt_notifications_store = s, rt_broadcast = sys, rt_broadcast_loop = True\<rparr>"
    using assms(1-3,5,6) by (simp add: runtime_new_def namespaces_open_def)
  with s show ?thesis
    by (simp add: take_broadcast_loop_def cache_ok_def is_zero_def from_secs_def)
qed

theorem runtime_ready_witness:
  "\<exists>rt :: (nat, nat \<times> nat list, nat \<times> (nat \<times> nat list) list) events_runtime.
     fst (runtime_new list_mpsc list_broadcast
       \<lparr>rv_data_dir = None, rv_events_dir = None, rv_stream_events_dir = None, rv_store = (\<lambda>_. None),
        rv_found = Some (ns_tables sample_store)\<rparr> (config_new ''/srv'')) = Ok rt \<and>
     en_root (rt_event_namespaces rt) = ''/srv/events''"
proof -
  have "create_broadcast_system list_mpsc list_broadcast =
      Ok \<lparr>sys_mpsc = (256, [] :: nat list), sys_broadcast = (1024, [] :: (nat \<times> nat list) list)\<rparr>"
    by (simp add: create_broadcast_system_def create_broadcast_system_with_capacity_def list_mpsc_def list_broadcast_def
        SENDER_CAPACITY_def BROADCAST_CAPACITY_def)
  from runtime_ready[OF _ _ _ _ this, of "\<lparr>rv_data_dir = None, rv_events_dir = None, rv_stream_events_dir = None,
      rv_store = (\<lambda>_. None), rv_found = Some (ns_tables sample_store)\<rparr>" sample_store quiet_msgs sample_json "config_new ''/srv''"]
  show ?thesis using sample_store_inv by (auto simp: config_new_def)
qed

end
