(* ===== verification/WorkerPool.thy ===== *)
theory WorkerPool
  imports StreamHistory Partitions
begin

section \<open>The partition worker pool (\<open>examples/partition_worker_pool.rs\<close>)\<close>

text \<open>
  A client of the crate: a supervisor turns dirty signals into at most one worker task per
  partition, and a worker projects every event past its cursor and moves the cursor on. The
  worker needs of a stream only that bounded reads are slices of an ordered log, which is the
  locale \<open>ordered_log\<close>; \<open>EventStream\<close> provides it.
\<close>

subsection \<open>The supervisor\<close>

record supervisor =
  sv_active :: "string set"
  sv_pending :: "string set"
  sv_tasks :: "string list"
  sv_closed :: bool

definition supervisor_default :: supervisor where
  "supervisor_default = \<lparr>sv_active = {}, sv_pending = {}, sv_tasks = [], sv_closed = False\<rparr>"

text \<open>What \<open>select!\<close> delivers: a message or the end of the dirty channel, or a finished task.\<close>

datatype supervisor_signal = DirtyReceived string | DirtyClosed | TaskJoined string "unit result" | TaskPanicked string

fun signal_enabled :: "supervisor \<Rightarrow> supervisor_signal \<Rightarrow> bool" where
  "signal_enabled sv (DirtyReceived owner) \<longleftrightarrow> \<not> sv_closed sv"
| "signal_enabled sv DirtyClosed \<longleftrightarrow> \<not> sv_closed sv"
| "signal_enabled sv (TaskJoined owner r) \<longleftrightarrow> owner \<in> set (sv_tasks sv)"
| "signal_enabled sv (TaskPanicked e) \<longleftrightarrow> sv_tasks sv \<noteq> []"

text \<open>One turn of the loop goes on, with the owner whose task it spawned, or returns.\<close>

datatype supervisor_outcome = Continue supervisor "string option" | Return "unit result"

definition spawn_partition_task :: "string \<Rightarrow> supervisor \<Rightarrow> supervisor_outcome" where
  "spawn_partition_task owner sv = Continue (sv\<lparr>sv_tasks := sv_tasks sv @ [owner]\<rparr>) (Some owner)"

fun supervisor_step :: "supervisor \<Rightarrow> supervisor_signal \<Rightarrow> supervisor_outcome" where
  "supervisor_step sv (DirtyReceived owner) =
     (if owner \<in> sv_active sv then Continue (sv\<lparr>sv_pending := insert owner (sv_pending sv)\<rparr>) None
      else spawn_partition_task owner (sv\<lparr>sv_active := insert owner (sv_active sv)\<rparr>))"
| "supervisor_step sv DirtyClosed = Continue (sv\<lparr>sv_closed := True\<rparr>) None"
| "supervisor_step sv (TaskJoined owner task_result) =
     (let sv = sv\<lparr>sv_tasks := remove1 owner (sv_tasks sv)\<rparr> in
      case task_result of
        Ok _ \<Rightarrow>
          (if owner \<in> sv_pending sv then spawn_partition_task owner (sv\<lparr>sv_pending := sv_pending sv - {owner}\<rparr>)
           else Continue (sv\<lparr>sv_active := sv_active sv - {owner}\<rparr>) None)
      | r \<Rightarrow> Return r)"
| "supervisor_step sv (TaskPanicked e) = Return (Err (Cursor (''worker task panicked: '' @ e)))"

text \<open>The \<open>else\<close> branch: both branches are disabled.\<close>

definition supervisor_exit :: "supervisor \<Rightarrow> unit result option" where
  "supervisor_exit sv = (if sv_closed sv \<and> sv_tasks sv = [] then Some (Ok ()) else None)"

text \<open>
  The runs of the supervisor. \<open>stale\<close> are the owners with a dirty signal after which no task of
  theirs has been spawned.
\<close>

fun dirtied :: "supervisor_signal \<Rightarrow> string set" where
  "dirtied (DirtyReceived owner) = {owner}"
| "dirtied _ = {}"

inductive supervising :: "supervisor \<Rightarrow> string set \<Rightarrow> bool" where
  started: "supervising supervisor_default {}"
| stepped: "supervising sv stale \<Longrightarrow> signal_enabled sv signal \<Longrightarrow> supervisor_step sv signal = Continue sv' spawned \<Longrightarrow>
    supervising sv' ((stale \<union> dirtied signal) - set_option spawned)"

lemma supervising_inv:
  "supervising sv stale \<Longrightarrow>
     distinct (sv_tasks sv) \<and> set (sv_tasks sv) = sv_active sv \<and> sv_pending sv \<subseteq> sv_active sv \<and> stale \<subseteq> sv_pending sv"
proof (induction rule: supervising.induct)
  case started
  show ?case by (simp add: supervisor_default_def)
next
  case (stepped sv stale signal sv' spawned)
  then show ?case
    by (cases signal) (auto simp: spawn_partition_task_def Let_def split: if_splits res.splits)
qed

text \<open>
  C19: one worker per partition, and no signal is lost. In every run of the supervisor the tasks
  are of different owners, exactly the active ones; and when the supervisor returns normally,
  every dirty signal it received was followed by the start of a task for its owner.
\<close>

theorem supervisor_no_lost_signal:
  assumes "supervising sv stale"
  shows "distinct (sv_tasks sv) \<and> set (sv_tasks sv) = sv_active sv \<and> (supervisor_exit sv = Some (Ok ()) \<longrightarrow> stale = {})"
  using supervising_inv[OF assms] by (auto simp: supervisor_exit_def split: if_splits)

lemma sample_supervising: "supervising (supervisor_default\<lparr>sv_closed := True\<rparr>) {}"
proof -
  have "supervising \<lparr>sv_active = {''acme''}, sv_pending = {}, sv_tasks = [''acme''], sv_closed = False\<rparr> {}"
    using supervising.stepped[OF supervising.started, of "DirtyReceived ''acme''"]
    by (simp add: supervisor_default_def spawn_partition_task_def)
  from supervising.stepped[OF this, of "DirtyReceived ''acme''"]
  have "supervising \<lparr>sv_active = {''acme''}, sv_pending = {''acme''}, sv_tasks = [''acme''], sv_closed = False\<rparr> {''acme''}"
    by simp
  from supervising.stepped[OF this, of DirtyClosed]
  have "supervising \<lparr>sv_active = {''acme''}, sv_pending = {''acme''}, sv_tasks = [''acme''], sv_closed = True\<rparr> {''acme''}"
    by simp
  from supervising.stepped[OF this, of "TaskJoined ''acme'' (Ok ())"]
  have "supervising \<lparr>sv_active = {''acme''}, sv_pending = {}, sv_tasks = [''acme''], sv_closed = True\<rparr> {}"
    by (simp add: Let_def spawn_partition_task_def)
  from supervising.stepped[OF this, of "TaskJoined ''acme'' (Ok ())"]
  show ?thesis by (simp add: Let_def supervisor_default_def)
qed

theorem supervisor_no_lost_signal_witness:
  "supervisor_exit (supervisor_default\<lparr>sv_closed := True\<rparr>) = Some (Ok ()) \<and> sv_active (supervisor_default\<lparr>sv_closed := True\<rparr>) = {}"
proof -
  have "sv_tasks (supervisor_default\<lparr>sv_closed := True\<rparr>) = []" by (simp add: supervisor_default_def)
  with supervisor_no_lost_signal[OF sample_supervising] show ?thesis by (auto simp: supervisor_exit_def)
qed

subsection \<open>The worker\<close>

type_synonym offsets = "string \<Rightarrow> event_stream_version option"

record 'e worker =
  wk_offsets :: offsets
  wk_projected :: "(string \<times> 'e) list"

text \<open>
  The loop of \<open>drain_partition\<close> on an opened stream: \<open>load\<close> is its bounded read. \<open>project_event\<close>
  prints; here it records what was projected. \<open>None\<close> when the fuel runs out.
\<close>

definition project_events :: "string \<Rightarrow> 'e list \<Rightarrow> 'e worker \<Rightarrow> 'e worker" where
  "project_events owner events w = w\<lparr>wk_projected := wk_projected w @ map (Pair owner) events\<rparr>"

fun drain_loop ::
  "nat \<Rightarrow> (event_stream_version \<Rightarrow> nat \<Rightarrow> 'e list result) \<Rightarrow> ('e \<Rightarrow> event_stream_version) \<Rightarrow> string \<Rightarrow> 'e worker
     \<Rightarrow> (unit result \<times> 'e worker) option" where
  "drain_loop 0 load version owner w = None"
| "drain_loop (Suc fuel) load version owner w =
     (let cursor = (case wk_offsets w owner of None \<Rightarrow> version_start | Some v \<Rightarrow> v) in
      case load cursor 100 of
        Err e \<Rightarrow> Some (Err e, w)
      | Panic m \<Rightarrow> Some (Panic m, w)
      | Ok events \<Rightarrow>
          (if events = [] then Some (Ok (), w)
           else
             (let w = project_events owner events w;
                  last_version = version (last events)
              in drain_loop fuel load version owner (w\<lparr>wk_offsets := (wk_offsets w)(owner \<mapsto> last_version)\<rparr>))))"

definition drain_partition ::
  "nat \<Rightarrow> es_error option \<Rightarrow> es_error option \<Rightarrow> string \<Rightarrow> 's result
     \<Rightarrow> ('s \<Rightarrow> event_stream_version \<Rightarrow> nat \<Rightarrow> 'e list result) \<Rightarrow> ('e \<Rightarrow> event_stream_version) \<Rightarrow> string \<Rightarrow> 'e worker
     \<Rightarrow> (unit result \<times> 'e worker) option" where
  "drain_partition fuel mk_ns mk_part root opened load version owner w =
     (case rbind (ensure_namespace mk_ns root ''owners'') (\<lambda>owners.
           rbind (ensure_partition mk_part root (ens_name owners) owner) (\<lambda>partition. opened)) of
        Err e \<Rightarrow> Some (Err e, w)
      | Panic m \<Rightarrow> Some (Panic m, w)
      | Ok stream \<Rightarrow> drain_loop fuel (load stream) version owner w)"

subsection \<open>Ordered logs\<close>

lemma filter_above:
  assumes "map ver es = [1 .. int (length es)]" "0 \<le> c"
  shows "filter (\<lambda>e. c < ver e) es = drop (nat c) es"
  using assms(1)
proof (induction es rule: rev_induct)
  case (snoc x es)
  have "[1 .. int (length (es @ [x]))] = [1 .. int (length es)] @ [int (length es) + 1]"
    using upto_rec2[of 1 "int (length es) + 1"] by (simp add: add.commute)
  with snoc.prems have "map ver es = [1 .. int (length es)]" "ver x = int (length es) + 1"
    by (simp_all del: upto_rec_numeral)
  with snoc.IH assms(2) show ?case by auto
qed simp

lemma project_events_append:
  "project_events owner (xs @ ys) w = project_events owner ys (project_events owner xs w)"
  by (simp add: project_events_def)

text \<open>
  The contract of a stream for its readers: a bounded read past a version is a slice of the log,
  whose versions are \<open>1, 2, ...\<close>.
\<close>

locale ordered_log =
  fixes log :: "'s \<Rightarrow> 'e list \<Rightarrow> bool"
    and load :: "'s \<Rightarrow> event_stream_version \<Rightarrow> nat \<Rightarrow> 'e list result"
    and version :: "'e \<Rightarrow> event_stream_version"
  assumes load_slice: "log s es \<Longrightarrow> 1 \<le> n \<Longrightarrow> n \<le> MAX_READ_LIMIT \<Longrightarrow>
      load s c n = Ok (take n (filter (\<lambda>e. c < version e) es))"
    and log_versions: "log s es \<Longrightarrow> map (version_get \<circ> version) es = [1 .. int (length es)]"
begin

lemma load_batch:
  assumes "log s es" "0 \<le> c"
  shows "load s (EventStreamVersion c) 100 = Ok (take 100 (drop (nat c) es))"
proof -
  have "filter (\<lambda>e. EventStreamVersion c < version e) es = filter (\<lambda>e. c < (version_get \<circ> version) e) es"
    by (simp add: version_order_simps)
  also have "\<dots> = drop (nat c) es" by (rule filter_above[OF log_versions[OF assms(1)] assms(2)])
  finally show ?thesis using load_slice[OF assms(1), of 100] by (simp add: MAX_READ_LIMIT_def)
qed

lemma version_at:
  assumes "log s es" "i < length es"
  shows "version (es ! i) = EventStreamVersion (int i + 1)"
proof -
  have "(version_get \<circ> version) (es ! i) = [1 .. int (length es)] ! i"
    using assms(2) by (metis log_versions[OF assms(1)] nth_map)
  with assms(2) show ?thesis by (cases "version (es ! i)") (simp add: nth_upto)
qed

text \<open>Draining from a cursor projects the rest of the log, in batches, and leaves the cursor at its end.\<close>

lemma drain_rest:
  assumes "log s es" "0 \<le> c" "length es - nat c < fuel"
    and "(case wk_offsets w owner of None \<Rightarrow> version_start | Some v \<Rightarrow> v) = EventStreamVersion c"
  shows "drain_loop fuel (load s) version owner w =
    Some (Ok (), (project_events owner (drop (nat c) es) w)
      \<lparr>wk_offsets := (if drop (nat c) es = [] then wk_offsets w
                     else (wk_offsets w)(owner \<mapsto> EventStreamVersion (int (length es))))\<rparr>)"
  using assms(2-4)
proof (induction fuel arbitrary: c w)
  case (Suc fuel)
  let ?batch = "take 100 (drop (nat c) es)"
  show ?case
  proof (cases "drop (nat c) es = []")
    case True
    with Suc.prems load_batch[OF assms(1) Suc.prems(1)] show ?thesis by (simp add: project_events_def)
  next
    case False
    then have lt: "nat c < length es" by simp
    define m where "m = length ?batch"
    define c' where "c' = c + int m"
    have m: "0 < m" "nat c + m \<le> length es" using lt by (simp_all add: m_def)
    have c': "0 \<le> c'" "nat c' = nat c + m" using Suc.prems(1) by (simp_all add: c'_def nat_add_distrib)
    have last: "last ?batch = es ! (nat c' - 1)"
      using lt c'(2) by (simp add: m_def last_conv_nth min_def add.commute)
    have "int (nat c' - 1) + 1 = c'" "nat c' - 1 < length es" using c' m by linarith+
    then have v: "version (last ?batch) = EventStreamVersion c'" using version_at[OF assms(1)] last by metis
    let ?w = "(project_events owner ?batch w)\<lparr>wk_offsets := (wk_offsets w)(owner \<mapsto> EventStreamVersion c')\<rparr>"
    have step: "drain_loop (Suc fuel) (load s) version owner w = drain_loop fuel (load s) version owner ?w"
      using False Suc.prems(3) v load_batch[OF assms(1) Suc.prems(1)] by (simp add: Let_def project_events_def)
    have "take m (drop (nat c) es) = ?batch"
      by (cases "length (drop (nat c) es) \<le> 100") (simp_all add: m_def min_def)
    then have rest: "?batch @ drop (nat c') es = drop (nat c) es"
      by (metis append_take_drop_id c'(2) drop_drop add.commute)
    have end': "c' = int (length es)" if "drop (nat c') es = []" using that c' m Suc.prems(1) by simp
    have fuel: "length es - nat c' < fuel" using c'(2) m Suc.prems(2) by linarith
    have cur: "(case wk_offsets ?w owner of None \<Rightarrow> version_start | Some v \<Rightarrow> v) = EventStreamVersion c'" by simp
    note rec = Suc.IH[OF c'(1) fuel cur]
    have proj: "project_events owner (drop (nat c) es) w = project_events owner (drop (nat c') es) (project_events owner ?batch w)"
      using project_events_append[of owner ?batch "drop (nat c') es" w] by (simp only: rest)
    show ?thesis
      unfolding step rec proj using False end'
      by (cases "drop (nat c') es = []") (simp_all add: project_events_def fun_upd_def cong: if_cong)
  qed
qed simp

end

text \<open>A stream under its invariant, read without faults, is such a log.\<close>

interpretation stream_reads: ordered_log
  "\<lambda>(cx, rd, s) es. log_inv cx s \<and> read_ok rd \<and> stream_log cx s = Ok es"
  "\<lambda>(cx, rd, s) cursor limit. load_after_version cx rd cursor limit s" env_version
  by unfold_locales (auto simp: load_after_version_log stream_log_versions)

lemma drain_full:
  assumes "log_inv cx s" "read_ok rd" "stream_log cx s = Ok es" "0 \<le> c" "safe_label owner"
    and "(case wk_offsets w owner of None \<Rightarrow> version_start | Some v \<Rightarrow> v) = EventStreamVersion c"
    and "length es - nat c < fuel"
  shows "drain_partition fuel None None root (Ok s) (\<lambda>s cursor limit. load_after_version cx rd cursor limit s) env_version owner w =
    Some (Ok (), (project_events owner (drop (nat c) es) w)
      \<lparr>wk_offsets := (if drop (nat c) es = [] then wk_offsets w
                     else (wk_offsets w)(owner \<mapsto> EventStreamVersion (int (length es))))\<rparr>)"
proof -
  have "safe_label ''owners''" by code_simp
  then have "drain_partition fuel None None root (Ok s) (\<lambda>s cursor limit. load_after_version cx rd cursor limit s) env_version owner w =
      drain_loop fuel (\<lambda>cursor limit. load_after_version cx rd cursor limit s) env_version owner w"
    using assms(5) by (simp add: drain_partition_def ensure_namespace_def ensure_partition_def validate_safe_label_cases)
  with stream_reads.drain_rest[of "(cx, rd, s)" es c fuel w owner] assms show ?thesis by simp
qed

text \<open>
  C18: a worker catches up with its partition. On any stream under its invariant, with a cursor
  \<open>c\<close> of the owner, \<open>drain_partition\<close> terminates (with fuel for one event a round it always has
  enough), projects exactly the events past the cursor, each once and in the order of the log,
  and leaves the cursor at the end of the log.
\<close>

theorem drain_catches_up:
  assumes "log_inv cx s" "read_ok rd" "stream_log cx s = Ok es" "0 \<le> c" "safe_label owner"
    and "(case wk_offsets w owner of None \<Rightarrow> version_start | Some v \<Rightarrow> v) = EventStreamVersion c"
    and "length es - nat c < fuel"
  shows "drain_partition fuel None None root (Ok s) (\<lambda>s cursor limit. load_after_version cx rd cursor limit s) env_version owner w =
    Some (Ok (), (project_events owner (drop (nat c) es) w)
      \<lparr>wk_offsets := (if drop (nat c) es = [] then wk_offsets w
                     else (wk_offsets w)(owner \<mapsto> EventStreamVersion (int (length es))))\<rparr>)"
  by (rule drain_full[OF assms])

definition idle_worker :: "'e worker" where
  "idle_worker = \<lparr>wk_offsets = (\<lambda>_. None), wk_projected = []\<rparr>"

theorem drain_catches_up_witness:
  "\<exists>res s'. sample_run = (Ok res, s') \<and>
     drain_partition 3 None None ''/data'' (Ok s') (\<lambda>s cursor limit. load_after_version sample_context quiet_read cursor limit s)
       env_version ''acme'' idle_worker =
     Some (Ok (), \<lparr>wk_offsets = (\<lambda>_. None)(''acme'' \<mapsto> EventStreamVersion 2), wk_projected = map (Pair ''acme'') (res_events res)\<rparr>)"
proof (rule sample_appended)
  fix res s'
  assume a: "sample_run = (Ok res, s')" "stream_inv sample_context s'" "stream_log sample_context s' = Ok (res_events res)"
    "length (res_events res) = 2"
  have "safe_label ''acme''" by code_simp
  from drain_catches_up[OF stream_inv_log[OF a(2)] quiet_read_ok a(3) _ this, of 0 idle_worker 3 "''/data''"] a
  show ?thesis by (auto simp: idle_worker_def version_start_def project_events_def)
qed

subsection \<open>The producer\<close>

text \<open>
  \<open>append_order_created\<close> on the opened stream; the version check and the append are two calls, so
  the producer asks for no stream only when it saw an empty one. \<open>order_payload\<close> is the \<open>json!\<close> text.
\<close>

definition order_created :: "(string \<Rightarrow> string \<Rightarrow> 'j) \<Rightarrow> string \<Rightarrow> string \<Rightarrow> ('j, 'u) new_event" where
  "order_created order_payload owner_key order_id =
     \<lparr>ne_type = ''OrderCreated'', ne_payload = order_payload owner_key order_id, ne_workflow_kind = Some ''fulfilment'',
      ne_workflow = StartsThisWorkflow, ne_request_id = None, ne_actor_id = ''owner-'' @ owner_key, ne_actor_type = User\<rparr>"

definition append_order_created ::
  "('j, 'u, 'date, 'dt) stream_context \<Rightarrow> es_error option \<Rightarrow> es_error option \<Rightarrow> string \<Rightarrow> unit result
     \<Rightarrow> es_error option \<Rightarrow> file_call faults \<Rightarrow> 'u append_env \<Rightarrow> (string \<Rightarrow> string \<Rightarrow> 'j)
     \<Rightarrow> string \<Rightarrow> string \<Rightarrow> stream \<Rightarrow> unit result \<times> stream" where
  "append_order_created cx mk_ns mk_part root opened conn flt env order_payload owner_key order_id s =
     sbind (rbind (ensure_namespace mk_ns root ''owners'') (\<lambda>owners.
            rbind (ensure_partition mk_part root (ens_name owners) owner_key) (\<lambda>partition. opened)), s) (\<lambda>_ s.
     sbind (current_version cx conn flt s, s) (\<lambda>current s.
     sbind (append_events cx env (if is_start current then NoStream else AnyVersion) [order_created order_payload owner_key order_id] s)
       (\<lambda>res s. (Ok (), s))))"

text \<open>
  A produced order reaches the worker. After \<open>append_order_created\<close> succeeded, a worker that
  had caught up with the stream before projects exactly one event, which carries the order.
\<close>

theorem order_reaches_worker:
  assumes "context_ok cx" "stream_inv cx s" "unsealed s \<or> rotation_due cx (ae_probe env) s" "stream_log cx s = Ok es"
    and "in_i64 (log_end cx s + 1)" "clock_forward env s" "readable (cx_text cx) (order_payload owner_key order_id)"
    and "append_order_created cx mk_ns mk_part root opened conn flt env order_payload owner_key order_id s = (Ok (), s')"
    and "read_ok rd" "safe_label owner_key" "wk_offsets w owner_key = Some (EventStreamVersion (int (length es)))"
  shows "\<exists>e. carries (order_created order_payload owner_key order_id) e \<and>
    drain_partition 2 None None root (Ok s') (\<lambda>s cursor limit. load_after_version cx rd cursor limit s) env_version owner_key w =
    Some (Ok (), w\<lparr>wk_projected := wk_projected w @ [(owner_key, e)],
                   wk_offsets := (wk_offsets w)(owner_key \<mapsto> EventStreamVersion (int (length es) + 1))\<rparr>)"
proof -
  let ?new = "[order_created order_payload owner_key order_id]"
  obtain current res where app: "append_events cx env (if is_start current then NoStream else AnyVersion) ?new s = (Ok res, s')"
    using assms(8) by (auto simp: append_order_created_def res_simps)
  have "payloads_readable (cx_text cx) ?new" using assms(7) by (simp add: payloads_readable_def order_created_def)
  from append_extends[OF assms(1-6) this _ app]
  have E: "stream_inv cx s'" "stream_log cx s' = Ok (es @ res_events res)" "list_all2 carries ?new (res_events res)"
    by simp_all
  from E(3) obtain e where e: "res_events res = [e]" "carries (order_created order_payload owner_key order_id) e"
    by (auto simp: list_all2_Cons1)
  have "drain_partition 2 None None root (Ok s') (\<lambda>s cursor limit. load_after_version cx rd cursor limit s) env_version owner_key w =
    Some (Ok (), w\<lparr>wk_projected := wk_projected w @ [(owner_key, e)],
                   wk_offsets := (wk_offsets w)(owner_key \<mapsto> EventStreamVersion (int (length es) + 1))\<rparr>)"
    using drain_full[OF stream_inv_log[OF E(1)] assms(9) E(2) _ assms(10), of "int (length es)" w 2 root] assms(11)
    by (simp add: e project_events_def add.commute)
  with e(2) show ?thesis by blast
qed

lemma sample_order:
  obtains s' where
    "append_order_created sample_context None None ''/data'' (Ok ()) None (\<lambda>_. None) (sample_append 1727884801 (\<lambda>_. None))
       (\<lambda>k i. ''{}'') ''acme'' ''order-100'' sample_stream = (Ok (), s')"
proof -
  let ?env = "sample_append 1727884801 (\<lambda>_. None)"
  have "case current_version sample_context None (\<lambda>_. None) sample_stream of Ok v \<Rightarrow> is_start v | _ \<Rightarrow> False" by code_simp
  then obtain v where v: "current_version sample_context None (\<lambda>_. None) sample_stream = Ok v" "is_start v"
    by (auto split: res.splits)
  have "is_Ok (fst (append_events sample_context ?env NoStream [order_created (\<lambda>k i. ''{}'') ''acme'' ''order-100''] sample_stream))"
    by code_simp
  then obtain res s' where
    "append_events sample_context ?env NoStream [order_created (\<lambda>k i. ''{}'') ''acme'' ''order-100''] sample_stream = (Ok res, s')"
    by (metis is_Ok.elims(2) prod.collapse)
  moreover have "safe_label ''owners''" "safe_label ''acme''" by code_simp+
  ultimately show thesis
    using v that by (simp add: append_order_created_def ensure_namespace_def ensure_partition_def validate_safe_label_cases)
qed

theorem order_reaches_worker_witness:
  "\<exists>s' e. append_order_created sample_context None None ''/data'' (Ok ()) None (\<lambda>_. None) (sample_append 1727884801 (\<lambda>_. None)) (\<lambda>k i. ''{}'') ''acme'' ''order-100''
       sample_stream = (Ok (), s') \<and> env_actor_id e = ''owner-acme'' \<and>
     drain_partition 2 None None ''/data'' (Ok s') (\<lambda>s cursor limit. load_after_version sample_context quiet_read cursor limit s)
       env_version ''acme'' (idle_worker\<lparr>wk_offsets := (\<lambda>_. None)(''acme'' \<mapsto> EventStreamVersion 0)\<rparr>) =
     Some (Ok (), \<lparr>wk_offsets = (\<lambda>_. None)(''acme'' \<mapsto> EventStreamVersion 1), wk_projected = [(''acme'', e)]\<rparr>)"
proof -
  let ?env = "sample_append 1727884801 (\<lambda>_. None)"
  obtain s' where run: "append_order_created sample_context None None ''/data'' (Ok ()) None (\<lambda>_. None) ?env (\<lambda>k i. ''{}'')
      ''acme'' ''order-100'' sample_stream = (Ok (), s')"
    by (rule sample_order)
  have alt: "unsealed sample_stream \<or> rotation_due sample_context (ae_probe ?env) sample_stream" by (simp add: sample_stream_facts)
  have "readable (cx_text sample_context) ''{}''" "safe_label ''acme''" by code_simp+
  from order_reaches_worker[OF sample_context_ok sample_stream_facts(1) alt sample_log sample_room sample_clock this(1) run
      quiet_read_ok this(2), of "idle_worker\<lparr>wk_offsets := (\<lambda>_. None)(''acme'' \<mapsto> EventStreamVersion 0)\<rparr>"]
  show ?thesis using run by (auto simp: idle_worker_def carries_def order_created_def)
qed

end
