(* ===== verification/WorkerSystem.thy ===== *)
theory WorkerSystem
  imports WorkerPool
begin

section \<open>The worker pool as a system of tasks\<close>

text \<open>
  The program \<open>examples/partition_worker_pool.rs\<close> runs \<open>main\<close>, the supervisor and the worker tasks
  at the same time: they share the streams, the channel of dirty signals and the map of offsets.
  This theory has the steps of the whole system; theory \<open>WorkerSystemLaws\<close> has what they guarantee.
\<close>

subsection \<open>Reads that meet faults\<close>

text \<open>A read that answers, whatever calls failed elsewhere, answers what the read without faults does.\<close>

lemma ranges_despite_faults:
  "get_event_file_ranges_after_version tm flt v cat = Ok rs \<Longrightarrow>
     get_event_file_ranges_after_version tm (\<lambda>_. None) v cat = Ok rs"
  by (auto simp: get_event_file_ranges_after_version_def collect_event_file_ranges_from_rows_def split: option.splits)

lemma query_despite_faults:
  "query_events tm cr tc flt p n t = Ok es \<Longrightarrow> query_events tm cr tc (\<lambda>_. None) p n t = Ok es"
  by (auto simp: query_events_def collect_events_from_rows_def split: option.splits)

lemma connection_despite_faults:
  "get_connection cx flt files name = Ok f \<Longrightarrow> get_connection cx None files name = Ok f"
  by (auto simp: get_connection_def split: option.splits)

lemma load_ranges_despite_faults:
  "load_ranges cx rd p limit files i rs events = Ok es \<Longrightarrow> load_ranges cx quiet_read p limit files i rs events = Ok es"
proof (induction rs arbitrary: i events)
  case (Cons r rs)
  show ?case
  proof (cases "limit - length events = 0")
    case False
    with Cons.prems obtain f part where "get_connection cx (rd_conn rd i) files (rng_path r) = Ok f"
      "query_events (cx_msgs cx) (cx_text cx) (cx_time cx) (rd_file rd i) p (limit - length events) (file_view f) = Ok part"
      "load_ranges cx rd p limit files (i + 1) rs (events @ part) = Ok es"
      by (auto simp: Let_def res_simps)
    with False Cons.IH show ?thesis
      by (simp add: Let_def quiet_read_def connection_despite_faults query_despite_faults)
  qed (use Cons.prems in simp)
qed simp

lemma load_despite_faults:
  assumes "load_after_version cx rd cursor limit s = Ok es"
  shows "load_after_version cx quiet_read cursor limit s = Ok es"
proof -
  from assms obtain rs xs where "validate_read_limit limit = Ok ()"
    "get_event_file_ranges_after_version (cx_msgs cx) (rd_catalog rd) (version_get cursor) (st_catalog s) = Ok rs"
    "load_ranges cx rd (after_version (version_get cursor)) limit (st_files s) 0 rs [] = Ok xs"
    "es = take limit (sort_key env_version xs)"
    by (auto simp: load_after_version_def load_events_def res_simps)
  then show ?thesis
    by (simp add: load_after_version_def load_events_def load_ranges_despite_faults
        ranges_despite_faults[where flt = "rd_catalog rd"] quiet_read_def[THEN arg_cong[where f = rd_catalog]])
qed

subsection \<open>The state of the system\<close>

text \<open>
  What \<open>main\<close> starts from: a directory named by the clock under the temporary one, whose
  namespaces it opens. \<open>nanos\<close> is the clock's reading since the epoch.
\<close>

definition example_root :: "string \<Rightarrow> int \<Rightarrow> string result" where
  "example_root temp_dir nanos =
     (if nanos < 0 then Err (Cursor (''clock error: '' @ ''second time provided was later than self''))
      else Ok (full_path temp_dir (''events-partition-workers-'' @ fmt_nat (nat (nanos div 1000000)))))"

definition pool_policy :: rotation_policy where
  "pool_policy = TimeWindow (from_secs 3600) (Some (512 * 1024 * 1024))"

definition open_example :: "es_error option \<Rightarrow> string \<Rightarrow> int \<Rightarrow> 's event_namespaces result" where
  "open_example mkdir temp_dir nanos =
     rbind (example_root temp_dir nanos) (\<lambda>root. namespaces_open mkdir root pool_policy)"

text \<open>The orders that \<open>main\<close> creates, in its order.\<close>

definition main_script :: "(string \<times> string) list" where
  "main_script = [(''acme'', ''order-100''), (''beta'', ''order-200''), (''acme'', ''order-101'')]"

definition channel_capacity :: nat where
  "channel_capacity = 128"

text \<open>
  \<open>ws_script\<close> are the orders \<open>main\<close> has still to create, \<open>ws_unsent\<close> is the owner whose dirty signal
  it is about to send, \<open>ws_sender\<close> says that it has not dropped \<open>dirty_tx\<close>; \<open>ws_queue\<close> is the
  channel. \<open>ws_finished\<close> are the tasks of the supervisor's join set that have ended and are not
  joined; \<open>ws_worker\<close> holds the shared offsets and what was projected; \<open>ws_streams\<close> are the open
  streams of the partitions, one handle for each, which the cache of \<open>Partitions\<close> shares between
  the producer and the workers. \<open>ws_returned\<close> and \<open>ws_main\<close> are the results of the supervisor and of
  \<open>main\<close> once they returned.
\<close>

record ('j, 'u, 'dt) worker_system =
  ws_script :: "(string \<times> string) list"
  ws_unsent :: "string option"
  ws_sender :: bool
  ws_queue :: "string list"
  ws_supervisor :: supervisor
  ws_finished :: "(string \<times> unit result) list"
  ws_worker :: "('j, 'u, 'dt) envelope worker"
  ws_streams :: "string \<Rightarrow> stream"
  ws_returned :: "unit result option"
  ws_main :: "unit result option"

definition worker_system_start :: "(string \<times> string) list \<Rightarrow> (string \<Rightarrow> stream) \<Rightarrow> ('j, 'u, 'dt) worker_system" where
  "worker_system_start script streams =
     \<lparr>ws_script = script, ws_unsent = None, ws_sender = True, ws_queue = [], ws_supervisor = supervisor_default,
      ws_finished = [], ws_worker = idle_worker, ws_streams = streams, ws_returned = None, ws_main = None\<rparr>"

subsection \<open>The steps\<close>

text \<open>One turn of the loop of \<open>drain_partition\<close>: \<open>None\<close> goes on.\<close>

definition cursor_of :: "'e worker \<Rightarrow> string \<Rightarrow> event_stream_version" where
  "cursor_of w owner = (case wk_offsets w owner of None \<Rightarrow> version_start | Some v \<Rightarrow> v)"

definition drain_turn ::
  "(event_stream_version \<Rightarrow> nat \<Rightarrow> 'e list result) \<Rightarrow> ('e \<Rightarrow> event_stream_version) \<Rightarrow> string \<Rightarrow> 'e worker
     \<Rightarrow> unit result option \<times> 'e worker" where
  "drain_turn load version owner w =
     (case load (cursor_of w owner) 100 of
        Err e \<Rightarrow> (Some (Err e), w)
      | Panic m \<Rightarrow> (Some (Panic m), w)
      | Ok events \<Rightarrow>
          (if events = [] then (Some (Ok ()), w)
           else
             (None, (project_events owner events w)
               \<lparr>wk_offsets := (wk_offsets w)(owner \<mapsto> version (last events))\<rparr>)))"

lemma drain_loop_turns:
  "drain_loop (Suc fuel) load version owner w =
     (case drain_turn load version owner w of
        (None, w') \<Rightarrow> drain_loop fuel load version owner w'
      | (Some r, w') \<Rightarrow> Some (r, w'))"
  by (auto simp: drain_turn_def cursor_of_def Let_def project_events_def split: res.splits option.splits)

text \<open>What \<open>join_next\<close> reports of an ended task, and a turn of the supervisor's loop.\<close>

fun join_signal :: "string \<times> unit result \<Rightarrow> supervisor_signal" where
  "join_signal (owner, Panic m) = TaskPanicked m"
| "join_signal (owner, r) = TaskJoined owner r"

definition supervisor_turn :: "supervisor_signal \<Rightarrow> ('j, 'u, 'dt) worker_system \<Rightarrow> ('j, 'u, 'dt) worker_system" where
  "supervisor_turn signal ws =
     (case supervisor_step (ws_supervisor ws) signal of
        Continue sv _ \<Rightarrow> ws\<lparr>ws_supervisor := sv\<rparr>
      | Return r \<Rightarrow> ws\<lparr>ws_returned := Some r\<rparr>)"

text \<open>A task of the join set that has not ended.\<close>

definition working :: "('j, 'u, 'dt) worker_system \<Rightarrow> string \<Rightarrow> bool" where
  "working ws owner \<longleftrightarrow> owner \<in> set (sv_tasks (ws_supervisor ws)) \<and> owner \<notin> fst ` set (ws_finished ws)"

text \<open>
  The steps, in the order of the code. An append and a turn of a worker are single steps (theory
  \<open>StreamTasks\<close> takes appends apart); the clocks of the appends do not go back. Of a partition at
  most one task runs, so the two accesses of a turn to its offset have no other between them. A send waits while the channel is full and fails once the
  supervisor has returned, since the receiver is gone then; what a returned supervisor leaves of
  its tasks is aborted with the join set. The \<open>?\<close> of \<open>main\<close> ends the program.
\<close>

inductive worker_step ::
  "('j, 'u, 'date, 'dt) stream_context \<Rightarrow> (string \<Rightarrow> string \<Rightarrow> 'j) \<Rightarrow> ('j, 'u, 'dt) worker_system
     \<Rightarrow> ('j, 'u, 'dt) worker_system \<Rightarrow> bool" for cx order_payload where
  produced: "ws_main ws = None \<Longrightarrow> ws_unsent ws = None \<Longrightarrow> ws_script ws = (owner, order) # script \<Longrightarrow>
    clock_forward env (ws_streams ws owner) \<Longrightarrow>
    append_order_created cx mk_ns mk_part root opened conn flt env order_payload owner order (ws_streams ws owner) = (Ok (), s) \<Longrightarrow>
    worker_step cx order_payload ws
      (ws\<lparr>ws_script := script, ws_unsent := Some owner, ws_streams := (ws_streams ws)(owner := s)\<rparr>)"
| produce_failed: "ws_main ws = None \<Longrightarrow> ws_unsent ws = None \<Longrightarrow> ws_script ws = (owner, order) # script \<Longrightarrow>
    append_order_created cx mk_ns mk_part root opened conn flt env order_payload owner order (ws_streams ws owner) = (r, s) \<Longrightarrow>
    r \<noteq> Ok () \<Longrightarrow>
    worker_step cx order_payload ws
      (ws\<lparr>ws_script := script, ws_streams := (ws_streams ws)(owner := s), ws_main := Some r\<rparr>)"
| sent: "ws_main ws = None \<Longrightarrow> ws_unsent ws = Some owner \<Longrightarrow> ws_returned ws = None \<Longrightarrow>
    length (ws_queue ws) < channel_capacity \<Longrightarrow>
    worker_step cx order_payload ws (ws\<lparr>ws_unsent := None, ws_queue := ws_queue ws @ [owner]\<rparr>)"
| send_failed: "ws_main ws = None \<Longrightarrow> ws_unsent ws = Some owner \<Longrightarrow> ws_returned ws \<noteq> None \<Longrightarrow>
    worker_step cx order_payload ws (ws\<lparr>ws_main := Some (Err (Cursor ''worker pool stopped''))\<rparr>)"
| sender_dropped: "ws_main ws = None \<Longrightarrow> ws_unsent ws = None \<Longrightarrow> ws_script ws = [] \<Longrightarrow> ws_sender ws \<Longrightarrow>
    worker_step cx order_payload ws (ws\<lparr>ws_sender := False\<rparr>)"
| received: "ws_main ws = None \<Longrightarrow> ws_returned ws = None \<Longrightarrow> \<not> sv_closed (ws_supervisor ws) \<Longrightarrow>
    ws_queue ws = owner # queue \<Longrightarrow>
    worker_step cx order_payload ws (supervisor_turn (DirtyReceived owner) (ws\<lparr>ws_queue := queue\<rparr>))"
| channel_ended: "ws_main ws = None \<Longrightarrow> ws_returned ws = None \<Longrightarrow> \<not> sv_closed (ws_supervisor ws) \<Longrightarrow>
    ws_queue ws = [] \<Longrightarrow> \<not> ws_sender ws \<Longrightarrow>
    worker_step cx order_payload ws (supervisor_turn DirtyClosed ws)"
| open_failed: "ws_main ws = None \<Longrightarrow> ws_returned ws = None \<Longrightarrow> working ws owner \<Longrightarrow>
    rbind (ensure_namespace mk_ns root ''owners'') (\<lambda>owners.
      rbind (ensure_partition mk_part root (ens_name owners) owner) (\<lambda>partition. opened)) = (Err e :: unit result) \<Longrightarrow>
    worker_step cx order_payload ws (ws\<lparr>ws_finished := ws_finished ws @ [(owner, Err e)]\<rparr>)"
| worked: "ws_main ws = None \<Longrightarrow> ws_returned ws = None \<Longrightarrow> working ws owner \<Longrightarrow>
    drain_turn (\<lambda>cursor limit. load_after_version cx rd cursor limit (ws_streams ws owner)) env_version owner (ws_worker ws) =
      (ended, w) \<Longrightarrow>
    worker_step cx order_payload ws
      (ws\<lparr>ws_worker := w,
         ws_finished := ws_finished ws @ (case ended of None \<Rightarrow> [] | Some r \<Rightarrow> [(owner, r)])\<rparr>)"
| joined: "ws_main ws = None \<Longrightarrow> ws_returned ws = None \<Longrightarrow> (owner, r) \<in> set (ws_finished ws) \<Longrightarrow>
    worker_step cx order_payload ws
      (supervisor_turn (join_signal (owner, r)) (ws\<lparr>ws_finished := filter (\<lambda>t. fst t \<noteq> owner) (ws_finished ws)\<rparr>))"
| supervisor_done: "ws_main ws = None \<Longrightarrow> ws_returned ws = None \<Longrightarrow> supervisor_exit (ws_supervisor ws) = Some r \<Longrightarrow>
    worker_step cx order_payload ws (ws\<lparr>ws_returned := Some r\<rparr>)"
| main_done: "ws_main ws = None \<Longrightarrow> \<not> ws_sender ws \<Longrightarrow> ws_returned ws = Some r \<Longrightarrow>
    worker_step cx order_payload ws (ws\<lparr>ws_main := Some r\<rparr>)"

text \<open>What the program prints: a line for each projected event, and one when \<open>main\<close> ends well.\<close>

definition project_event :: "('j \<Rightarrow> string) \<Rightarrow> string \<Rightarrow> ('j, 'u, 'dt) envelope \<Rightarrow> string" where
  "project_event json_display owner_key e =
     ''projecting owner '' @ owner_key @ '' version '' @ version_display (env_version e) @ '' '' @ env_type e @ '': '' @
     json_display (env_payload e)"

definition pool_output :: "('j \<Rightarrow> string) \<Rightarrow> string \<Rightarrow> ('j, 'u, 'dt) worker_system \<Rightarrow> string list" where
  "pool_output json_display root ws =
     map (\<lambda>(owner, e). project_event json_display owner e) (wk_projected (ws_worker ws)) @
     (if ws_main ws = Some (Ok ()) then [''partition worker pool drained events under '' @ root] else [])"

end
