(* ===== verification/WorkerSystemLaws.thy ===== *)
theory WorkerSystemLaws
  imports WorkerSystem
begin

section \<open>What the worker pool guarantees\<close>

text \<open>
  The invariant of the system of \<open>WorkerSystem\<close>: the log of a partition carries the orders created
  for it, the worker has projected it up to the cursor, and a partition with events past the
  cursor has something on the way that will drain it. From it follow the result of a complete run,
  the absence of deadlocks and a bound on the number of steps.
\<close>

subsection \<open>One partition\<close>

definition carry_orders ::
  "(string \<Rightarrow> string \<Rightarrow> 'j) \<Rightarrow> (string \<times> string) list \<Rightarrow> ('j, 'u, 'dt) envelope list \<Rightarrow> bool" where
  "carry_orders order_payload = list_all2 (\<lambda>(owner, order). carries (order_created order_payload owner order))"

definition orders_of :: "string \<Rightarrow> (string \<times> string) list \<Rightarrow> (string \<times> string) list" where
  "orders_of owner = filter (\<lambda>t. fst t = owner)"

definition projected_of :: "string \<Rightarrow> 'e worker \<Rightarrow> 'e list" where
  "projected_of owner w = map snd (filter (\<lambda>t. fst t = owner) (wk_projected w))"

definition partition_ok ::
  "('j, 'u, 'date, 'dt) stream_context \<Rightarrow> (string \<Rightarrow> string \<Rightarrow> 'j) \<Rightarrow> (string \<times> string) list \<Rightarrow> stream
     \<Rightarrow> ('j, 'u, 'dt) envelope worker \<Rightarrow> string \<Rightarrow> ('j, 'u, 'dt) envelope list \<Rightarrow> nat \<Rightarrow> bool" where
  "partition_ok cx order_payload orders s w owner es c \<longleftrightarrow>
     stream_inv cx s \<and> unsealed s \<and> stream_log cx s = Ok es \<and> carry_orders order_payload orders es \<and>
     c \<le> length es \<and> cursor_of w owner = EventStreamVersion (int c) \<and> projected_of owner w = take c es"

text \<open>Creating an order adds the event that carries it and leaves the worker where it was.\<close>

lemma partition_produced:
  assumes "context_ok cx" "partition_ok cx order_payload orders s w owner es c" "in_i64 (int (length es) + 1)"
    and "clock_forward env s" "readable (cx_text cx) (order_payload owner order)"
    and "append_order_created cx mk_ns mk_part root opened conn flt env order_payload owner order s = (Ok (), s')"
  obtains e where "partition_ok cx order_payload (orders @ [(owner, order)]) s' w owner (es @ [e]) c"
proof -
  let ?new = "[order_created order_payload owner order]"
  note ok = assms(2)[unfolded partition_ok_def]
  obtain ex res where app: "append_events cx env ex ?new s = (Ok res, s')"
    using assms(6) by (auto simp: append_order_created_def res_simps)
  have "payloads_readable (cx_text cx) ?new" using assms(5) by (simp add: payloads_readable_def order_created_def)
  from append_extends[OF assms(1) _ _ _ _ assms(4) this _ app] ok assms(3)
  have E: "stream_inv cx s'" "unsealed s'" "stream_log cx s' = Ok (es @ res_events res)" "list_all2 carries ?new (res_events res)"
    by (simp_all add: log_length)
  then obtain e where "res_events res = [e]" "carries (order_created order_payload owner order) e"
    by (auto simp: list_all2_Cons1)
  with E ok have "partition_ok cx order_payload (orders @ [(owner, order)]) s' w owner (es @ [e]) c"
    by (simp add: partition_ok_def carry_orders_def list_all2_appendI)
  then show thesis by (rule that)
qed

text \<open>
  A turn of the worker either ends, which without an error means that the log is projected, or
  projects more of it.
\<close>

lemma partition_load:
  assumes "partition_ok cx order_payload orders s w owner es c" "load_after_version cx rd (cursor_of w owner) 100 s = Ok batch"
  shows "batch = take 100 (drop c es)"
proof -
  note ok = assms(1)[unfolded partition_ok_def]
  have "load_after_version cx quiet_read (EventStreamVersion (int c)) 100 s = Ok batch"
    using load_despite_faults[OF assms(2)] ok by simp
  moreover have "load_after_version cx quiet_read (EventStreamVersion (int c)) 100 s = Ok (take 100 (drop c es))"
    using stream_reads.load_batch[of "(cx, quiet_read, s)" es "int c"] stream_inv_log[of cx s] ok quiet_read_ok by simp
  ultimately show ?thesis by simp
qed

lemma partition_worked:
  assumes ok: "partition_ok cx order_payload orders s w owner es c"
    and turn: "drain_turn (\<lambda>cursor limit. load_after_version cx rd cursor limit s) env_version owner w = (ended, w')"
  obtains (More) c' where "ended = None" "partition_ok cx order_payload orders s w' owner es c'"
      "length (wk_projected w) < length (wk_projected w')"
  | (Done) "ended = Some (Ok ())" "w' = w" "c = length es"
  | (Failed) r where "ended = Some r" "r \<noteq> Ok ()" "w' = w"
proof (cases "load_after_version cx rd (cursor_of w owner) 100 s")
  case (Ok batch)
  note b = partition_load[OF ok Ok]
  note p = ok[unfolded partition_ok_def]
  show thesis
  proof (cases "batch = []")
    case True
    with b p have "c = length es" by simp
    with True Ok turn show thesis by (intro Done) (simp_all add: drain_turn_def)
  next
    case False
    define c' where "c' = c + length batch"
    have c': "c < c'" "c' \<le> length es" using False p by (auto simp: c'_def b)
    have "last batch = es ! (c' - 1)" using False p by (simp add: c'_def b last_conv_nth min_def) (simp add: add.commute)
    moreover have "c' - 1 < length es" using c' by linarith
    moreover have "int (c' - 1) + 1 = int c'" using c' by linarith
    ultimately have v: "env_version (last batch) = EventStreamVersion (int c')"
      using stream_reads.version_at[of "(cx, quiet_read, s)" es "c' - 1"] p stream_inv_log[of cx s] quiet_read_ok by simp
    have "take c es @ batch = take c' es" by (simp add: c'_def b take_add[symmetric] min_def)
    with v p c' False Ok turn show thesis
      by (intro More[of c'])
        (auto simp: drain_turn_def partition_ok_def project_events_def projected_of_def cursor_of_def filter_map comp_def)
  qed
qed (use turn in \<open>auto simp: drain_turn_def intro: Failed\<close>)

text \<open>The worker of one partition leaves the others alone.\<close>

lemma drain_turn_other:
  assumes "drain_turn load version owner w = (ended, w')" "other \<noteq> owner"
  shows "cursor_of w' other = cursor_of w other" "projected_of other w' = projected_of other w"
  using assms
  by (auto simp: drain_turn_def cursor_of_def projected_of_def project_events_def filter_map comp_def
      split: res.splits if_splits)

lemma partition_other:
  assumes "drain_turn load version owner w = (ended, w')" "other \<noteq> owner"
    and "partition_ok cx order_payload orders s w other es c"
  shows "partition_ok cx order_payload orders s w' other es c"
  using assms(3) drain_turn_other[OF assms(1,2)] by (simp add: partition_ok_def)

subsection \<open>The invariant of the system\<close>

definition supervisor_ok :: "supervisor \<Rightarrow> bool" where
  "supervisor_ok sv \<longleftrightarrow>
     distinct (sv_tasks sv) \<and> set (sv_tasks sv) = sv_active sv \<and> sv_pending sv \<subseteq> sv_active sv"

text \<open>The channel ends after its last message, and the supervisor sees the end after all of them.\<close>

definition control_ok :: "('j, 'u, 'dt) worker_system \<Rightarrow> bool" where
  "control_ok ws \<longleftrightarrow>
     supervisor_ok (ws_supervisor ws) \<and> fst ` set (ws_finished ws) \<subseteq> sv_active (ws_supervisor ws) \<and>
     (\<not> ws_sender ws \<longrightarrow> ws_script ws = [] \<and> ws_unsent ws = None) \<and>
     (sv_closed (ws_supervisor ws) \<longrightarrow> ws_queue ws = [] \<and> \<not> ws_sender ws) \<and>
     (ws_returned ws = Some (Ok ()) \<longrightarrow> sv_closed (ws_supervisor ws) \<and> sv_tasks (ws_supervisor ws) = []) \<and>
     (ws_main ws = Some (Ok ()) \<longrightarrow> ws_returned ws = Some (Ok ()))"

text \<open>Something will drain the partition: a signal of it is under way, or its task has not ended well.\<close>

definition on_the_way :: "('j, 'u, 'dt) worker_system \<Rightarrow> string \<Rightarrow> bool" where
  "on_the_way ws owner \<longleftrightarrow>
     ws_unsent ws = Some owner \<or> owner \<in> set (ws_queue ws) \<or> owner \<in> sv_pending (ws_supervisor ws) \<or>
     (owner \<in> sv_active (ws_supervisor ws) \<and> (owner, Ok ()) \<notin> set (ws_finished ws))"

definition partitions_ok ::
  "('j, 'u, 'date, 'dt) stream_context \<Rightarrow> (string \<Rightarrow> string \<Rightarrow> 'j) \<Rightarrow> (string \<times> string) list
     \<Rightarrow> ('j, 'u, 'dt) worker_system \<Rightarrow> bool" where
  "partitions_ok cx order_payload script ws \<longleftrightarrow>
     (\<exists>made. script = made @ ws_script ws \<and>
       (\<forall>owner. \<exists>es c.
          partition_ok cx order_payload (orders_of owner made) (ws_streams ws owner) (ws_worker ws) owner es c \<and>
          (c < length es \<longrightarrow> on_the_way ws owner)))"

lemma control_step:
  assumes "worker_step cx order_payload ws ws'" "control_ok ws"
  shows "control_ok ws'"
  using assms
proof (cases rule: worker_step.cases)
  case (received owner queue)
  with assms(2) show ?thesis
    by (auto simp: control_ok_def supervisor_turn_def supervisor_ok_def spawn_partition_task_def)
next
  case (joined owner r)
  with assms(2) show ?thesis
    by (cases r) (auto simp: control_ok_def supervisor_turn_def supervisor_ok_def spawn_partition_task_def Let_def)
next
  case (worked owner rd ended w)
  with assms(2) show ?thesis by (auto simp: control_ok_def working_def supervisor_ok_def split: option.splits)
next
  case (supervisor_done r)
  with assms(2) show ?thesis by (auto simp: control_ok_def supervisor_exit_def split: if_splits)
qed (auto simp: control_ok_def supervisor_turn_def supervisor_ok_def working_def)

lemma partitions_kept:
  assumes "partitions_ok cx order_payload script ws" "ws_script ws' = ws_script ws" "ws_streams ws' = ws_streams ws"
    and "ws_worker ws' = ws_worker ws" "\<And>owner. on_the_way ws owner \<Longrightarrow> on_the_way ws' owner"
  shows "partitions_ok cx order_payload script ws'"
  using assms(1) unfolding partitions_ok_def assms(2-4)
  by (elim ex_forward conj_forward all_forward imp_forward) (simp_all add: assms(5))

lemma orders_of_snoc:
  "orders_of owner (made @ [(k, i)]) = orders_of owner made @ (if k = owner then [(owner, i)] else [])"
  by (auto simp: orders_of_def)

lemma partition_length: "partition_ok cx order_payload (orders_of owner made) s w owner es c \<Longrightarrow> length es \<le> length made"
  by (auto simp: partition_ok_def carry_orders_def orders_of_def dest!: list_all2_lengthD) (metis length_filter_le)

lemma partitions_produced:
  assumes "context_ok cx" "\<And>k i. readable (cx_text cx) (order_payload k i)" "int (length script) < 2 ^ 62"
    and "partitions_ok cx order_payload script ws" "ws_unsent ws = None" "ws_script ws = (owner, order) # rest"
    and "clock_forward env (ws_streams ws owner)"
    and "append_order_created cx mk_ns mk_part root opened conn flt env order_payload owner order (ws_streams ws owner) = (Ok (), s)"
  shows "partitions_ok cx order_payload script
    (ws\<lparr>ws_script := rest, ws_unsent := Some owner, ws_streams := (ws_streams ws)(owner := s)\<rparr>)"
    (is "partitions_ok _ _ _ ?ws")
proof -
  obtain made where made: "script = made @ (owner, order) # rest"
    and parts: "\<And>k. \<exists>es c. partition_ok cx order_payload (orders_of k made) (ws_streams ws k) (ws_worker ws) k es c \<and>
        (c < length es \<longrightarrow> on_the_way ws k)"
    using assms(4,6) unfolding partitions_ok_def by metis
  have way: "on_the_way ws k \<Longrightarrow> on_the_way ?ws k" for k using assms(5) by (auto simp: on_the_way_def)
  have "\<exists>es c. partition_ok cx order_payload (orders_of k (made @ [(owner, order)])) (ws_streams ?ws k) (ws_worker ?ws) k es c \<and>
      (c < length es \<longrightarrow> on_the_way ?ws k)" for k
  proof (cases "k = owner")
    case True
    obtain es c where p: "partition_ok cx order_payload (orders_of owner made) (ws_streams ws owner) (ws_worker ws) owner es c"
      using parts by blast
    have "in_i64 (int (length es) + 1)"
      using partition_length[OF p] assms(3) made by (simp add: in_i64_def)
    from partition_produced[OF assms(1) p this assms(7,2,8)]
    obtain e where "partition_ok cx order_payload (orders_of owner made @ [(owner, order)]) s (ws_worker ws) owner (es @ [e]) c" .
    moreover have "on_the_way ?ws owner" by (simp add: on_the_way_def)
    ultimately show ?thesis using True by (auto simp: orders_of_snoc)
  next
    case False
    with parts[of k] way[of k] show ?thesis by (auto simp: orders_of_snoc)
  qed
  moreover have "script = (made @ [(owner, order)]) @ ws_script ?ws" using made by simp
  ultimately show ?thesis unfolding partitions_ok_def by blast
qed

lemma partitions_worked:
  assumes "partitions_ok cx order_payload script ws" "working ws owner" "control_ok ws"
    and "drain_turn (\<lambda>cursor limit. load_after_version cx rd cursor limit (ws_streams ws owner)) env_version owner (ws_worker ws) =
      (ended, w)"
  shows "partitions_ok cx order_payload script
    (ws\<lparr>ws_worker := w, ws_finished := ws_finished ws @ (case ended of None \<Rightarrow> [] | Some r \<Rightarrow> [(owner, r)])\<rparr>)"
    (is "partitions_ok _ _ _ ?ws")
proof -
  obtain made where made: "script = made @ ws_script ws"
    and parts: "\<And>k. \<exists>es c. partition_ok cx order_payload (orders_of k made) (ws_streams ws k) (ws_worker ws) k es c \<and>
        (c < length es \<longrightarrow> on_the_way ws k)"
    using assms(1) unfolding partitions_ok_def by metis
  have way: "on_the_way ws k \<Longrightarrow> k \<noteq> owner \<or> ended \<noteq> Some (Ok ()) \<Longrightarrow> on_the_way ?ws k" for k
    by (auto simp: on_the_way_def split: option.splits)
  have "\<exists>es c. partition_ok cx order_payload (orders_of k made) (ws_streams ?ws k) (ws_worker ?ws) k es c \<and>
      (c < length es \<longrightarrow> on_the_way ?ws k)" for k
  proof (cases "k = owner")
    case True
    obtain es c where p: "partition_ok cx order_payload (orders_of owner made) (ws_streams ws owner) (ws_worker ws) owner es c"
      "c < length es \<longrightarrow> on_the_way ws owner"
      using parts by blast
    have here: "ended = None \<Longrightarrow> on_the_way ?ws owner"
      using assms(2,3) by (auto simp: on_the_way_def working_def control_ok_def supervisor_ok_def rev_image_eqI)
    from p(1) assms(4) show ?thesis
    proof (cases rule: partition_worked)
      case (More c')
      with True here show ?thesis by auto
    next
      case Done
      with True p show ?thesis by auto
    next
      case (Failed r)
      with True p way[of owner] show ?thesis by auto
    qed
  next
    case False
    with parts[of k] way[of k] partition_other[OF assms(4) False] show ?thesis by fastforce
  qed
  with made show ?thesis unfolding partitions_ok_def by auto
qed

text \<open>Every step keeps the invariant, unless it ends \<open>main\<close> with an error.\<close>

lemma partitions_step:
  assumes "context_ok cx" "\<And>k i. readable (cx_text cx) (order_payload k i)" "int (length script) < 2 ^ 62"
    and "worker_step cx order_payload ws ws'" "control_ok ws" "partitions_ok cx order_payload script ws"
    and "ws_main ws' = None \<or> ws_main ws' = Some (Ok ())"
  shows "partitions_ok cx order_payload script ws'"
  using assms(4)
proof (cases rule: worker_step.cases)
  case (produced owner order rest env mk_ns mk_part root opened conn flt s)
  with partitions_produced[OF assms(1-3,6)] show ?thesis by simp
next
  case (worked owner rd ended w)
  with partitions_worked[OF assms(6) _ assms(5)] show ?thesis by simp
next
  case (received owner queue)
  have "on_the_way ws k \<Longrightarrow> on_the_way ws' k" for k
    using received assms(5)
    by (force simp: on_the_way_def supervisor_turn_def spawn_partition_task_def control_ok_def)
  with received show ?thesis
    by (intro partitions_kept[OF assms(6)]) (simp_all add: supervisor_turn_def spawn_partition_task_def)
next
  case (joined owner r)
  have "on_the_way ws k \<Longrightarrow> on_the_way ws' k" for k
    using joined assms(5)
    by (cases r) (auto simp: on_the_way_def supervisor_turn_def spawn_partition_task_def control_ok_def supervisor_ok_def Let_def)
  with joined show ?thesis
    by (intro partitions_kept[OF assms(6)])
      (cases r; simp add: supervisor_turn_def spawn_partition_task_def Let_def)+
qed (use assms(7) in \<open>auto intro!: partitions_kept[OF assms(6)] simp: on_the_way_def supervisor_turn_def\<close>)

lemma system_start:
  assumes "\<And>k. stream_inv cx (streams k) \<and> unsealed (streams k) \<and> stream_log cx (streams k) = Ok []"
  shows "control_ok (worker_system_start script streams)" "partitions_ok cx order_payload script (worker_system_start script streams)"
  using assms
  by (auto simp: control_ok_def worker_system_start_def supervisor_ok_def supervisor_default_def partitions_ok_def
      partition_ok_def carry_orders_def orders_of_def cursor_of_def projected_of_def idle_worker_def version_start_def)

lemma worker_step_main: "worker_step cx order_payload ws ws' \<Longrightarrow> ws_main ws = None"
  by (auto elim: worker_step.cases)

lemma system_reachable:
  assumes "context_ok cx" "\<And>k i. readable (cx_text cx) (order_payload k i)" "int (length script) < 2 ^ 62"
    and "\<And>k. stream_inv cx (streams k) \<and> unsealed (streams k) \<and> stream_log cx (streams k) = Ok []"
    and "(worker_step cx order_payload)\<^sup>*\<^sup>* (worker_system_start script streams) ws"
    and "ws_main ws = None \<or> ws_main ws = Some (Ok ())"
  shows "control_ok ws \<and> partitions_ok cx order_payload script ws"
  using assms(5,6)
proof (induction rule: rtranclp_induct)
  case base
  show ?case using system_start[where streams = streams, OF assms(4)] by blast
next
  case (step ws ws')
  from step.IH worker_step_main[OF step.hyps(2)] have "control_ok ws" "partitions_ok cx order_payload script ws" by simp_all
  with control_step[OF step.hyps(2)] partitions_step[OF assms(1-3) step.hyps(2)] step.prems show ?case by blast
qed

subsection \<open>Complete runs\<close>

text \<open>
  C16: the example's program projects every order. In every interleaving of \<open>main\<close>, the supervisor
  and the workers, with any faults, when \<open>main\<close> returns normally each partition's events were
  projected exactly once and in the order of its log, and they carry exactly the orders that were
  created for the partition, in the order of their creation.
\<close>

theorem worker_pool_projects_all:
  assumes "context_ok cx" "\<And>k i. readable (cx_text cx) (order_payload k i)" "int (length script) < 2 ^ 62"
    and "\<And>k. stream_inv cx (streams k) \<and> unsealed (streams k) \<and> stream_log cx (streams k) = Ok []"
    and "(worker_step cx order_payload)\<^sup>*\<^sup>* (worker_system_start script streams) ws" "ws_main ws = Some (Ok ())"
  shows "stream_log cx (ws_streams ws owner) = Ok (projected_of owner (ws_worker ws)) \<and>
    carry_orders order_payload (orders_of owner script) (projected_of owner (ws_worker ws))"
proof -
  from system_reachable[OF assms(1-5)] assms(6)
  have ok: "control_ok ws" "partitions_ok cx order_payload script ws" by simp_all
  then have ended: "ws_script ws = []" "\<not> on_the_way ws k" for k
    using assms(6) by (auto simp: control_ok_def supervisor_ok_def on_the_way_def)
  with ok(2) obtain es c where "partition_ok cx order_payload (orders_of owner script) (ws_streams ws owner) (ws_worker ws) owner es c"
    "\<not> c < length es"
    unfolding partitions_ok_def by (metis append_Nil2)
  then show ?thesis by (simp add: partition_ok_def)
qed

subsection \<open>Progress\<close>

text \<open>The work left: every step of the system takes some of it.\<close>

definition task_work :: "string set \<Rightarrow> string set \<Rightarrow> nat" where
  "task_work active finished = (\<Sum>t \<in> active. if t \<in> finished then 1 else 2)"

definition work_left :: "nat \<Rightarrow> ('j, 'u, 'dt) worker_system \<Rightarrow> nat" where
  "work_left orders ws =
     6 * length (ws_script ws) + (case ws_unsent ws of None \<Rightarrow> 0 | Some _ \<Rightarrow> 4) + (if ws_sender ws then 1 else 0) +
     3 * length (ws_queue ws) + 2 * card (sv_pending (ws_supervisor ws)) +
     task_work (sv_active (ws_supervisor ws)) (fst ` set (ws_finished ws)) +
     (orders - length (wk_projected (ws_worker ws))) + (if sv_closed (ws_supervisor ws) then 0 else 1) +
     (case ws_returned ws of None \<Rightarrow> 2 | Some _ \<Rightarrow> 0) + (case ws_main ws of None \<Rightarrow> 1 | Some _ \<Rightarrow> 0)"

lemma task_work_cong: "F \<inter> A = G \<inter> A \<Longrightarrow> task_work A F = task_work A G"
  unfolding task_work_def by (intro sum.cong) auto

lemma task_work_insert: "finite A \<Longrightarrow> t \<notin> A \<Longrightarrow> t \<notin> F \<Longrightarrow> task_work (insert t A) F = 2 + task_work A F"
  by (simp add: task_work_def)

lemma task_work_remove:
  assumes "finite A" "t \<in> A"
  shows "task_work A F = (if t \<in> F then 1 else 2) + task_work (A - {t}) (F - {t})"
proof -
  have "task_work A F = (if t \<in> F then 1 else 2) + task_work (A - {t}) F"
    unfolding task_work_def by (rule sum.remove[OF assms])
  also have "task_work (A - {t}) F = task_work (A - {t}) (F - {t})" by (rule task_work_cong) auto
  finally show ?thesis .
qed

lemma task_work_finish: "finite A \<Longrightarrow> t \<in> A \<Longrightarrow> t \<notin> F \<Longrightarrow> task_work A (insert t F) < task_work A F"
  using task_work_remove[of A t F] task_work_remove[of A t "insert t F"] by simp

lemma control_finite: "control_ok ws \<Longrightarrow> finite (sv_active (ws_supervisor ws)) \<and> finite (sv_pending (ws_supervisor ws))"
  unfolding control_ok_def supervisor_ok_def by (metis List.finite_set finite_subset)

lemma received_less:
  assumes "control_ok ws" "ws_queue ws = owner # queue"
  shows "work_left n (supervisor_turn (DirtyReceived owner) (ws\<lparr>ws_queue := queue\<rparr>)) < work_left n ws"
proof (cases "owner \<in> sv_active (ws_supervisor ws)")
  case True
  have "card (insert owner (sv_pending (ws_supervisor ws))) \<le> Suc (card (sv_pending (ws_supervisor ws)))"
    by (rule card_insert_le_m1) simp_all
  with True assms(2) show ?thesis by (simp add: work_left_def supervisor_turn_def)
next
  case False
  with assms control_finite[OF assms(1)]
  have "task_work (insert owner (sv_active (ws_supervisor ws))) (fst ` set (ws_finished ws)) =
      2 + task_work (sv_active (ws_supervisor ws)) (fst ` set (ws_finished ws))"
    by (intro task_work_insert) (auto simp: control_ok_def)
  with False assms(2) show ?thesis by (simp add: work_left_def supervisor_turn_def spawn_partition_task_def)
qed

lemma finish_work:
  assumes "control_ok ws" "working ws owner"
  shows "task_work (sv_active (ws_supervisor ws)) (insert owner (fst ` set (ws_finished ws))) <
    task_work (sv_active (ws_supervisor ws)) (fst ` set (ws_finished ws))"
  using assms control_finite[OF assms(1)]
  by (intro task_work_finish) (auto simp: working_def control_ok_def supervisor_ok_def)

lemma finished_without: "fst ` set (filter (\<lambda>t. fst t \<noteq> owner) ts) = fst ` set ts - {owner}"
  by auto

lemma joined_less:
  assumes "control_ok ws" "ws_returned ws = None" "(owner, r) \<in> set (ws_finished ws)"
  shows "work_left n (supervisor_turn (join_signal (owner, r))
    (ws\<lparr>ws_finished := filter (\<lambda>t. fst t \<noteq> owner) (ws_finished ws)\<rparr>)) < work_left n ws"
proof -
  let ?A = "sv_active (ws_supervisor ws)" and ?P = "sv_pending (ws_supervisor ws)" and ?F = "fst ` set (ws_finished ws)"
  note fin = control_finite[OF assms(1)]
  have o: "owner \<in> ?F" using imageI[OF assms(3), of fst] by simp
  then have a: "owner \<in> ?A" using assms(1) unfolding control_ok_def by blast
  note remove = task_work_remove[OF conjunct1[OF fin] a]
  have work: "task_work ?A ?F = 1 + task_work (?A - {owner}) (?F - {owner})"
    using remove[of ?F] unfolding if_P[OF o] .
  have "owner \<notin> ?F - {owner}" "?F - {owner} - {owner} = ?F - {owner}" by blast+
  then have respawn: "task_work ?A (?F - {owner}) = 2 + task_work (?A - {owner}) (?F - {owner})"
    using remove[of "?F - {owner}"] by (simp only: if_False)
  have pending: "0 < card ?P" if "owner \<in> ?P" using conjunct2[OF fin] that by (auto simp: card_gt_0_iff)
  note defs = work_left_def supervisor_turn_def spawn_partition_task_def Let_def
  show ?thesis
  proof (cases r)
    case (Ok u)
    show ?thesis
    proof (cases "owner \<in> ?P")
      case True
      show ?thesis unfolding Ok using True pending[OF True] fin assms(2)
        by (simp add: defs finished_without work respawn del: set_filter)
    next
      case False
      show ?thesis unfolding Ok using False assms(2) by (simp add: defs finished_without work del: set_filter)
    qed
  next
    case (Err e)
    show ?thesis unfolding Err using assms(2) by (simp add: defs finished_without work respawn del: set_filter)
  next
    case (Panic m)
    show ?thesis unfolding Panic using assms(2) by (simp add: defs finished_without work respawn del: set_filter)
  qed
qed

lemma worked_less:
  assumes "control_ok ws" "working ws owner" "drain_turn load version owner (ws_worker ws) = (ended, w)"
    and "length (wk_projected w) \<le> n"
  shows "work_left n (ws\<lparr>ws_worker := w,
      ws_finished := ws_finished ws @ (case ended of None \<Rightarrow> [] | Some r \<Rightarrow> [(owner, r)])\<rparr>) < work_left n ws"
proof (cases ended)
  case None
  with assms(3) have "length (wk_projected (ws_worker ws)) < length (wk_projected w)"
    by (auto simp: drain_turn_def project_events_def split: res.splits if_splits)
  with assms(4) None show ?thesis by (simp add: work_left_def)
next
  case (Some r)
  with assms(3) have "w = ws_worker ws" by (auto simp: drain_turn_def split: res.splits if_splits)
  with Some finish_work[OF assms(1,2)] show ?thesis by (simp add: work_left_def)
qed

lemma step_less:
  assumes "worker_step cx order_payload ws ws'" "control_ok ws" "length (wk_projected (ws_worker ws')) \<le> n"
  shows "work_left n ws' < work_left n ws"
  using assms(1)
proof (cases rule: worker_step.cases)
  case (received owner queue)
  with received_less[OF assms(2)] show ?thesis by simp
next
  case (joined owner r)
  with joined_less[OF assms(2)] show ?thesis by simp
next
  case (worked owner rd ended w)
  with worked_less[OF assms(2)] assms(3) show ?thesis by simp
next
  case (open_failed owner mk_ns root mk_part opened e)
  with finish_work[OF assms(2)] show ?thesis by (simp add: work_left_def)
qed (auto simp: work_left_def supervisor_turn_def)

lemma count_fst: "count (mset (map fst xs)) k = length (filter (\<lambda>t. fst t = k) xs)"
  by (induction xs) auto

lemma projected_bound:
  assumes "partitions_ok cx order_payload script ws"
  shows "length (wk_projected (ws_worker ws)) \<le> length script"
proof -
  obtain made where made: "script = made @ ws_script ws"
    and parts: "\<And>k. \<exists>es c. partition_ok cx order_payload (orders_of k made) (ws_streams ws k) (ws_worker ws) k es c"
    using assms unfolding partitions_ok_def by metis
  have "length (projected_of k (ws_worker ws)) \<le> length (orders_of k made)" for k
    using parts[of k] by (auto simp: partition_ok_def carry_orders_def dest: list_all2_lengthD)
  then have "count (mset (map fst (wk_projected (ws_worker ws)))) k \<le> count (mset (map fst made)) k" for k
    unfolding count_fst by (simp add: projected_of_def orders_of_def)
  then have "mset (map fst (wk_projected (ws_worker ws))) \<subseteq># mset (map fst made)" by (rule mset_subset_eqI)
  from size_mset_mono[OF this] made show ?thesis by simp
qed

lemma worker_step_projected:
  assumes "worker_step cx order_payload ws ws'"
  shows "ws_main ws' = None \<or> ws_worker ws' = ws_worker ws"
  using assms by (cases rule: worker_step.cases) (auto simp: supervisor_turn_def split: supervisor_outcome.splits)

text \<open>Some step is always possible, until \<open>main\<close> has returned.\<close>

lemma clock_exists:
  assumes "stream_inv cx s"
  obtains env :: "'u append_env" where "clock_forward env s"
proof -
  let ?now = "act_start_ms (st_active s) * 1000000"
  have "in_i64 (act_start_ms (st_active s))" using assms by (simp add: stream_inv_def naming_def window_name_def)
  then have "clock_forward (env\<lparr>ae_probe := pr\<lparr>pr_nanos := ?now\<rparr>, ae_nanos := ?now\<rparr>) s" for env :: "'u append_env" and pr
    by (simp add: clock_forward_def clock_ms_def sdiv_ms)
  then show thesis by (rule that)
qed

lemma producer_step:
  assumes "ws_main ws = None" "ws_unsent ws = None" "ws_script ws = (owner, order) # rest" "stream_inv cx (ws_streams ws owner)"
  shows "\<exists>ws'. worker_step cx order_payload ws ws'"
proof -
  obtain env :: "'b append_env" where clock: "clock_forward env (ws_streams ws owner)" by (rule clock_exists[OF assms(4)])
  obtain r s where run: "append_order_created cx None None [] (Ok ()) None (\<lambda>_. None) env order_payload owner order (ws_streams ws owner) = (r, s)"
    by (metis prod.exhaust)
  show ?thesis
  proof (cases "r = Ok ()")
    case True
    with worker_step.produced[OF assms(1-3) clock] run show ?thesis by blast
  next
    case False
    with worker_step.produce_failed[OF assms(1-3) run] show ?thesis by blast
  qed
qed

lemma supervisor_moves:
  assumes "control_ok ws" "ws_main ws = None" "ws_returned ws = None" "ws_queue ws \<noteq> [] \<or> \<not> ws_sender ws"
  shows "\<exists>ws'. worker_step cx order_payload ws ws'"
proof (cases "sv_closed (ws_supervisor ws)")
  case False
  with assms show ?thesis
    by (cases "ws_queue ws") (auto intro: worker_step.received worker_step.channel_ended)
next
  case True
  note closed = this
  show ?thesis
  proof (cases "sv_tasks (ws_supervisor ws)")
    case Nil
    with closed assms worker_step.supervisor_done[OF assms(2,3)] show ?thesis by (auto simp: supervisor_exit_def)
  next
    case (Cons owner tasks)
    show ?thesis
    proof (cases "working ws owner")
      case True
      then show ?thesis using worker_step.worked[OF assms(2,3) True] by (metis prod.exhaust)
    next
      case False
      with Cons obtain r where "(owner, r) \<in> set (ws_finished ws)" by (auto simp: working_def)
      then show ?thesis using worker_step.joined[OF assms(2,3)] by blast
    qed
  qed
qed

lemma system_moves:
  assumes "control_ok ws" "partitions_ok cx order_payload script ws" "ws_main ws = None"
  shows "\<exists>ws'. worker_step cx order_payload ws ws'"
proof (cases "ws_unsent ws")
  case None
  show ?thesis
  proof (cases "ws_script ws")
    case Nil
    with None assms worker_step.sender_dropped[OF assms(3) None] worker_step.main_done[OF assms(3)]
      supervisor_moves[OF assms(1,3)]
    show ?thesis by (cases "ws_sender ws"; cases "ws_returned ws") auto
  next
    case (Cons t rest)
    moreover have "stream_inv cx (ws_streams ws owner)" for owner
      using assms(2) unfolding partitions_ok_def partition_ok_def by blast
    ultimately show ?thesis by (cases t) (auto intro!: producer_step[OF assms(3) None])
  qed
next
  case (Some owner)
  show ?thesis
  proof (cases "ws_returned ws")
    case None
    show ?thesis
    proof (cases "ws_queue ws = []")
      case True
      with worker_step.sent[OF assms(3) Some None] show ?thesis by (auto simp: channel_capacity_def)
    qed (use supervisor_moves[OF assms(1,3) None] in blast)
  next
    case (Some r)
    with worker_step.send_failed[OF assms(3) \<open>ws_unsent ws = Some owner\<close>] show ?thesis by auto
  qed
qed

text \<open>
  C17: the example's program ends. It never takes more than \<open>7 n + 5\<close> steps for \<open>n\<close> orders, and
  until \<open>main\<close> has returned it can take one: no interleaving deadlocks, whether a task is blocked
  on the full channel, on the join set or on the end of the channel.
\<close>

theorem worker_pool_ends:
  assumes "context_ok cx" "\<And>k i. readable (cx_text cx) (order_payload k i)" "int (length script) < 2 ^ 62"
    and "\<And>k. stream_inv cx (streams k) \<and> unsealed (streams k) \<and> stream_log cx (streams k) = Ok []"
    and "(worker_step cx order_payload ^^ n) (worker_system_start script streams) ws"
  shows "n \<le> 7 * length script + 5 \<and> (ws_main ws = None \<longrightarrow> (\<exists>ws'. worker_step cx order_payload ws ws'))"
proof -
  have reach: "control_ok ws \<and> partitions_ok cx order_payload script ws"
    if "(worker_step cx order_payload ^^ m) (worker_system_start script streams) ws" "ws_main ws = None" for m ws
    using system_reachable[OF assms(1-4) relpowp_imp_rtranclp[OF that(1)]] that(2) by blast
  have "m + work_left (length script) ws \<le> 7 * length script + 5"
    if "(worker_step cx order_payload ^^ m) (worker_system_start script streams) ws" for m ws
    using that
  proof (induction m arbitrary: ws)
    case 0
    then show ?case
      by (auto simp: work_left_def worker_system_start_def supervisor_default_def idle_worker_def task_work_def)
  next
    case (Suc m)
    then obtain ws0 where step: "(worker_step cx order_payload ^^ m) (worker_system_start script streams) ws0"
      "worker_step cx order_payload ws0 ws" by (elim relpowp_Suc_E)
    note ok = reach[OF step(1) worker_step_main[OF step(2)]]
    have "length (wk_projected (ws_worker ws)) \<le> length script"
      using worker_step_projected[OF step(2)] reach[OF Suc.prems] ok projected_bound by metis
    from step_less[OF step(2) _ this] ok Suc.IH[OF step(1)] show ?case by simp
  qed
  from this[OF assms(5)] reach[OF assms(5)] system_moves show ?thesis by (metis add_leD1)
qed

subsection \<open>A run\<close>

abbreviation sample_step :: "(string, string, int) worker_system \<Rightarrow> (string, string, int) worker_system \<Rightarrow> bool" where
  "sample_step \<equiv> worker_step sample_context (\<lambda>k i. ''{}'')"

abbreviation sample_script :: "(string \<times> string) list" where
  "sample_script \<equiv> [(''acme'', ''order-100'')]"

lemma sample_readable: "readable (cx_text sample_context) ''{}''"
  by code_simp

lemma sample_partition:
  "partition_ok sample_context (\<lambda>k i. ''{}'') [] sample_stream idle_worker owner [] 0"
  using sample_stream_facts sample_log
  by (simp add: partition_ok_def carry_orders_def cursor_of_def idle_worker_def projected_of_def version_start_def)

text \<open>The stream of the one order, and the two turns of the worker that drain it.\<close>

lemma sample_order_made:
  obtains s' e where
    "append_order_created sample_context None None ''/data'' (Ok ()) None (\<lambda>_. None) (sample_append 1727884801 (\<lambda>_. None))
       (\<lambda>k i. ''{}'') ''acme'' ''order-100'' sample_stream = (Ok (), s')"
    "partition_ok sample_context (\<lambda>k i. ''{}'') sample_script s' idle_worker ''acme'' [e] 0"
proof -
  obtain s' where run: "append_order_created sample_context None None ''/data'' (Ok ()) None (\<lambda>_. None)
      (sample_append 1727884801 (\<lambda>_. None)) (\<lambda>k i. ''{}'') ''acme'' ''order-100'' sample_stream = (Ok (), s')"
    by (rule sample_order)
  from partition_produced[OF sample_context_ok sample_partition _ sample_clock sample_readable run]
  obtain e where "partition_ok sample_context (\<lambda>k i. ''{}'') ([] @ sample_script) s' idle_worker ''acme'' ([] @ [e]) 0"
    by (auto simp: in_i64_def)
  then show thesis using that[OF run] by simp
qed

lemma sample_turns:
  fixes e :: "(string, string, int) envelope"
  assumes "partition_ok sample_context (\<lambda>k i. ''{}'') sample_script s' idle_worker ''acme'' [e] 0"
  defines "w \<equiv> \<lparr>wk_offsets = (\<lambda>_. None)(''acme'' \<mapsto> EventStreamVersion 1), wk_projected = [(''acme'', e)]\<rparr>"
  shows "drain_turn (\<lambda>cursor limit. load_after_version sample_context quiet_read cursor limit s') env_version ''acme'' idle_worker =
      (None, w)"
    and "drain_turn (\<lambda>cursor limit. load_after_version sample_context quiet_read cursor limit s') env_version ''acme'' w =
      (Some (Ok ()), w)"
proof -
  have log: "log_inv sample_context s'" "stream_log sample_context s' = Ok [e]"
    using assms(1) stream_inv_log[of sample_context s'] by (simp_all add: partition_ok_def)
  then have "load_after_version sample_context quiet_read (EventStreamVersion c) 100 s' = Ok (drop (nat c) [e])" if "0 \<le> c" for c
    using stream_reads.load_batch[of "(sample_context, quiet_read, s')" "[e]" c] quiet_read_ok that by simp
  from this[of 0] this[of 1]
  have load: "load_after_version sample_context quiet_read (EventStreamVersion 0) 100 s' = Ok [e]"
    "load_after_version sample_context quiet_read (EventStreamVersion 1) 100 s' = Ok []" by simp_all
  have "env_version e = EventStreamVersion 1"
    using stream_reads.version_at[of "(sample_context, quiet_read, s')" "[e]" 0] log quiet_read_ok by simp
  with load show "drain_turn (\<lambda>cursor limit. load_after_version sample_context quiet_read cursor limit s') env_version ''acme'' idle_worker =
      (None, w)"
    "drain_turn (\<lambda>cursor limit. load_after_version sample_context quiet_read cursor limit s') env_version ''acme'' w =
      (Some (Ok ()), w)"
    by (simp_all add: drain_turn_def cursor_of_def idle_worker_def version_start_def project_events_def w_def)
qed

lemma sample_completes:
  obtains ws e where "sample_step\<^sup>*\<^sup>* (worker_system_start sample_script (\<lambda>_. sample_stream)) ws" "ws_main ws = Some (Ok ())"
    "projected_of ''acme'' (ws_worker ws) = [e]"
proof -
  obtain s' e where run: "append_order_created sample_context None None ''/data'' (Ok ()) None (\<lambda>_. None)
      (sample_append 1727884801 (\<lambda>_. None)) (\<lambda>k i. ''{}'') ''acme'' ''order-100'' sample_stream = (Ok (), s')"
    and made: "partition_ok sample_context (\<lambda>k i. ''{}'') sample_script s' idle_worker ''acme'' [e] 0"
    by (rule sample_order_made)
  note turns = sample_turns[OF made]
  let ?w = "\<lparr>wk_offsets = (\<lambda>_. None)(''acme'' \<mapsto> EventStreamVersion 1), wk_projected = [(''acme'', e)]\<rparr>"
  let ?sv = "\<lambda>tasks closed. \<lparr>sv_active = set tasks, sv_pending = {}, sv_tasks = tasks, sv_closed = closed\<rparr>"
  let ?S = "\<lambda>unsent sender queue sv finished w returned main.
    \<lparr>ws_script = [], ws_unsent = unsent, ws_sender = sender, ws_queue = queue, ws_supervisor = sv, ws_finished = finished,
     ws_worker = w, ws_streams = (\<lambda>_. sample_stream)(''acme'' := s'), ws_returned = returned, ws_main = main\<rparr>"
  note worker_system_start_def [simp] supervisor_default_def [simp] supervisor_turn_def [simp] working_def [simp]
    spawn_partition_task_def [simp] channel_capacity_def [simp] supervisor_exit_def [simp]
  let ?a = "''acme''" and ?ok = "Some (Ok ())"
  have "sample_step\<^sup>*\<^sup>* (worker_system_start sample_script (\<lambda>_. sample_stream)) (?S (Some ?a) True [] (?sv [] False) [] idle_worker None None)"
    using worker_step.produced[where ws = "worker_system_start sample_script (\<lambda>_. sample_stream)" and owner = ?a
        and order = "''order-100''" and script = "[]" and env = "sample_append 1727884801 (\<lambda>_. None)" and s = s'] sample_clock run
    by (intro r_into_rtranclp) simp
  also have "sample_step \<dots> (?S None True [?a] (?sv [] False) [] idle_worker None None)"
    using worker_step.sent[of "?S (Some ?a) True [] (?sv [] False) [] idle_worker None None" ?a] by simp
  also have "sample_step \<dots> (?S None False [?a] (?sv [] False) [] idle_worker None None)"
    using worker_step.sender_dropped[of "?S None True [?a] (?sv [] False) [] idle_worker None None"] by simp
  also have "sample_step \<dots> (?S None False [] (?sv [?a] False) [] idle_worker None None)"
    using worker_step.received[of "?S None False [?a] (?sv [] False) [] idle_worker None None" ?a "[]"] by simp
  also have "sample_step \<dots> (?S None False [] (?sv [?a] True) [] idle_worker None None)"
    using worker_step.channel_ended[of "?S None False [] (?sv [?a] False) [] idle_worker None None"] by simp
  also have "sample_step \<dots> (?S None False [] (?sv [?a] True) [] ?w None None)"
    using worker_step.worked[where ws = "?S None False [] (?sv [?a] True) [] idle_worker None None" and owner = ?a
        and rd = quiet_read and cx = sample_context and ended = None and w = ?w] turns(1) by simp
  also have "sample_step \<dots> (?S None False [] (?sv [?a] True) [(?a, Ok ())] ?w None None)"
    using worker_step.worked[where ws = "?S None False [] (?sv [?a] True) [] ?w None None" and owner = ?a
        and rd = quiet_read and cx = sample_context and ended = ?ok and w = ?w] turns(2) by simp
  also have "sample_step \<dots> (?S None False [] (?sv [] True) [] ?w None None)"
    using worker_step.joined[of "?S None False [] (?sv [?a] True) [(?a, Ok ())] ?w None None" ?a "Ok ()"] by simp
  also have "sample_step \<dots> (?S None False [] (?sv [] True) [] ?w ?ok None)"
    using worker_step.supervisor_done[where ws = "?S None False [] (?sv [] True) [] ?w None None" and r = "Ok ()"] by simp
  also have "sample_step \<dots> (?S None False [] (?sv [] True) [] ?w ?ok ?ok)"
    using worker_step.main_done[where ws = "?S None False [] (?sv [] True) [] ?w ?ok None" and r = "Ok ()"] by simp
  finally show thesis by (rule that) (simp_all add: projected_of_def)
qed

theorem worker_pool_projects_all_witness:
  "\<exists>ws e. sample_step\<^sup>*\<^sup>* (worker_system_start sample_script (\<lambda>_. sample_stream)) ws \<and> ws_main ws = Some (Ok ()) \<and>
     stream_log sample_context (ws_streams ws ''acme'') = Ok [e] \<and> projected_of ''acme'' (ws_worker ws) = [e] \<and>
     env_actor_id e = ''owner-acme''"
proof (rule sample_completes)
  fix ws e
  assume run: "sample_step\<^sup>*\<^sup>* (worker_system_start sample_script (\<lambda>_. sample_stream)) ws" "ws_main ws = Some (Ok ())"
    "projected_of ''acme'' (ws_worker ws) = [e]"
  from worker_pool_projects_all[OF sample_context_ok sample_readable _ _ run(1,2), of "''acme''"] run(3) sample_stream_facts(1,2) sample_log
  have "stream_log sample_context (ws_streams ws ''acme'') = Ok [e]" "env_actor_id e = ''owner-acme''"
    by (simp_all add: carry_orders_def orders_of_def carries_def order_created_def)
  with run show ?thesis by blast
qed

theorem worker_pool_ends_witness:
  "\<exists>ws. sample_step (worker_system_start main_script (\<lambda>_. sample_stream)) ws"
proof -
  have "(sample_step ^^ 0) (worker_system_start main_script (\<lambda>_. sample_stream)) (worker_system_start main_script (\<lambda>_. sample_stream))"
    by simp
  from worker_pool_ends[OF sample_context_ok sample_readable _ _ this] sample_stream_facts(1,2) sample_log
  show ?thesis by (simp add: main_script_def worker_system_start_def)
qed

end
