(* ===== verification/BasicUsage.thy ===== *)
theory BasicUsage
  imports StreamHistory Partitions
begin

section \<open>The basic example (\<open>examples/basic_usage.rs\<close>)\<close>

text \<open>
  The crate's first example from end to end: it opens a partition, starts a workflow with two
  events, continues it with a third and reads everything back. The output is the list of printed
  lines. What the calls meet outside is a record; \<open>us_opened\<close> is the outcome of opening the
  partition's store, which theory \<open>StreamOpen\<close> models.
\<close>

record 'u usage_env =
  us_mkdir :: "es_error option"
  us_namespace :: "es_error option"
  us_partition :: "es_error option"
  us_exists :: bool
  us_cache :: cache_env
  us_opened :: "stream result"
  us_first :: "'u append_env"
  us_second :: "'u append_env"
  us_read :: read_env
  us_workflow_read :: read_env

text \<open>The JSON values of the \<open>json!\<close> macros: order, payment, parcel.\<close>

record 'j usage_payloads =
  up_order :: 'j
  up_payment :: 'j
  up_parcel :: 'j

definition usage_policy :: rotation_policy where
  "usage_policy = TimeWindow (from_secs 3600) (Some (1024 * 1024))"

definition opening_events :: "'j usage_payloads \<Rightarrow> ('j, 'u) new_event list" where
  "opening_events j =
     [\<lparr>ne_type = ''OrderCreated'', ne_payload = up_order j, ne_workflow_kind = Some ''fulfilment'',
       ne_workflow = StartsThisWorkflow, ne_request_id = None, ne_actor_id = ''user-example'', ne_actor_type = User\<rparr>,
      \<lparr>ne_type = ''PaymentAuthorized'', ne_payload = up_payment j, ne_workflow_kind = None, ne_workflow = WorkflowNone,
       ne_request_id = None, ne_actor_id = ''system-payment'', ne_actor_type = System\<rparr>]"

definition packed_event :: "'j usage_payloads \<Rightarrow> 'u \<Rightarrow> ('j, 'u) new_event" where
  "packed_event j workflow_start =
     \<lparr>ne_type = ''OrderPacked'', ne_payload = up_parcel j, ne_workflow_kind = Some ''fulfilment'',
      ne_workflow = Continues workflow_start, ne_request_id = None, ne_actor_id = ''system-warehouse'',
      ne_actor_type = System\<rparr>"

definition basic_usage ::
  "('j, 'u, 'date, 'dt) stream_context \<Rightarrow> 'u usage_env \<Rightarrow> 'j usage_payloads \<Rightarrow> unit result \<times> string list" where
  "basic_usage cx us j =
     sbind (namespaces_open (us_mkdir us) ''./data'' usage_policy, []) (\<lambda>namespaces out.
     sbind (ensure_namespace (us_namespace us) (en_root namespaces) ''orders'', out) (\<lambda>orders out.
     sbind (ensure_partition (us_partition us) (ens_root orders) (ens_name orders) ''order-123'', out) (\<lambda>partition out.
     sbind (fst (partition_open (cx_path_debug cx) (us_exists us) (us_cache us) (us_opened us) partition namespaces), out)
       (\<lambda>stream out.
     let cx = cx\<lparr>cx_rotation := en_rotation_policy namespaces\<rparr> in
     case append_events cx (us_first us) NoStream (opening_events j) stream of
       (appended, stream) \<Rightarrow>
     sbind (appended, out) (\<lambda>res out.
     (let out = out @ [''appended versions '' @ version_display (res_first_version res) @ ''..'' @
                       version_display (res_last_version res)] in
      case res_events res of
        [] \<Rightarrow> (Panic ''index out of bounds'', out)
      | starter # _ \<Rightarrow>
     (case env_workflow_started_by starter of
        None \<Rightarrow> (Panic ''workflow starter event has an anchor'', out)
      | Some workflow_start \<Rightarrow>
     (case append_events cx (us_second us) (Exact (res_last_version res)) [packed_event j workflow_start] stream of
        (packed, stream) \<Rightarrow>
     sbind (packed, out) (\<lambda>_ out.
     sbind (load_after_version cx (us_read us) version_start 100 stream, out) (\<lambda>events out.
     (let out = out @ [''loaded '' @ fmt_nat (length events) @ '' event-stream events''] in
     sbind (load_workflow_after_version cx (us_workflow_read us) workflow_start version_start 100 stream, out)
       (\<lambda>workflow_events out.
     (Ok (), out @ [''loaded '' @ fmt_nat (length workflow_events) @ '' workflow events''])))))))))))))"

text \<open>The stream after the first append, and after both.\<close>

lemma opening_appended:
  assumes "context_ok cx" "stream_inv cx s" "unsealed s" "stream_log cx s = Ok []"
    and "readable (cx_text cx) (up_order j)" "readable (cx_text cx) (up_payment j)"
    and "clock_forward env s" "append_events cx env NoStream (opening_events j) s = (Ok res, s1)"
  obtains e1 e2 where "stream_inv cx s1" "unsealed s1" "stream_log cx s1 = Ok [e1, e2]" "res_events res = [e1, e2]"
    "env_workflow_started_by e1 = Some (env_id e1)" "env_workflow_started_by e2 = None"
    "res_first_version res = EventStreamVersion 1" "res_last_version res = EventStreamVersion 2"
proof -
  have end0: "log_end cx s = 0" using log_length[OF assms(4)] by simp
  have p: "payloads_readable (cx_text cx) (opening_events j)"
    using assms(5,6) by (simp add: payloads_readable_def opening_events_def)
  have ne: "opening_events j \<noteq> []" by (simp add: opening_events_def)
  from append_extends[OF assms(1,2) _ assms(4) _ assms(7) p ne assms(8)]
  have A: "stream_inv cx s1" "unsealed s1" "stream_log cx s1 = Ok (res_events res)"
    "list_all2 carries (opening_events j) (res_events res)"
    "res_first_version res = EventStreamVersion 1" "res_last_version res = EventStreamVersion 2"
    using assms(3) by (simp_all add: end0 in_i64_def opening_events_def)
  then obtain e1 e2 where "res_events res = [e1, e2]" "env_workflow_started_by e1 = Some (env_id e1)"
    "env_workflow_started_by e2 = None"
    by (auto simp: opening_events_def list_all2_Cons1 carries_def)
  with A that show thesis by simp
qed

lemma packed_appended:
  assumes "context_ok cx" "stream_inv cx s1" "unsealed s1" "stream_log cx s1 = Ok [e1, e2]"
    and "readable (cx_text cx) (up_parcel j)" "clock_forward env s1"
    and "append_events cx env ex [packed_event j w] s1 = (Ok res2, s2)"
  obtains e3 where "stream_inv cx s2" "stream_log cx s2 = Ok [e1, e2, e3]" "env_workflow_started_by e3 = Some w"
proof -
  have "log_end cx s1 = 2" using log_length[OF assms(4)] by simp
  moreover have p: "payloads_readable (cx_text cx) [packed_event j w]"
    using assms(5) by (simp add: payloads_readable_def packed_event_def)
  ultimately have B: "stream_inv cx s2" "stream_log cx s2 = Ok ([e1, e2] @ res_events res2)"
    "list_all2 carries [packed_event j w] (res_events res2)"
    using append_extends[OF assms(1,2) _ assms(4) _ assms(6) p _ assms(7)] assms(3) by (simp_all add: in_i64_def)
  then obtain e3 where "res_events res2 = [e3]" "env_workflow_started_by e3 = Some w"
    by (auto simp: list_all2_Cons1 carries_def packed_event_def)
  with B that show thesis by simp
qed

text \<open>Reading three events back, of which the first and the last belong to the workflow.\<close>

lemma three_events_read:
  assumes "context_ok cx" "stream_inv cx s2" "stream_log cx s2 = Ok [e1, e2, e3]" "read_ok rd"
    and "env_workflow_started_by e1 = Some w" "env_workflow_started_by e2 = None" "env_workflow_started_by e3 = Some w"
  shows "load_after_version cx rd version_start 100 s2 = Ok [e1, e2, e3]"
    "load_workflow_after_version cx rd w version_start 100 s2 = Ok [e1, e3]"
proof -
  note inv2 = stream_inv_log[OF assms(2)]
  have "map (version_get \<circ> env_version) [e1, e2, e3] = [1 .. int (length [e1, e2, e3])]"
    by (rule stream_log_versions[OF inv2 assms(3)])
  then have versions: "version_get (env_version e1) = 1" "version_get (env_version e2) = 2" "version_get (env_version e3) = 3"
    by (simp_all add: upto_rec1)
  have law: "uuid_law (cx_text cx)" using assms(1) by (simp add: context_ok_def)
  show "load_after_version cx rd version_start 100 s2 = Ok [e1, e2, e3]"
    using load_after_version_log[OF inv2 assms(4,3), of 100 version_start] versions
    by (simp add: MAX_READ_LIMIT_def version_order_simps version_start_def)
  show "load_workflow_after_version cx rd w version_start 100 s2 = Ok [e1, e3]"
    using load_workflow_log[OF inv2 law assms(4,3), of 100 w version_start] versions assms(5-7)
    by (simp add: MAX_READ_LIMIT_def version_order_simps version_start_def)
qed

text \<open>
  C39: the example does what it prints. On an empty stream, when its two appends succeed and its
  reads meet no fault, it ends normally, without reaching either of its panics, and prints that
  it appended versions 1 to 2, loaded the three events of the stream and the two of the workflow.
\<close>

theorem basic_usage_output:
  assumes "context_ok cx" "us_opened us = Ok s" "cx_rotation cx = usage_policy" "stream_inv cx s" "unsealed s" "stream_log cx s = Ok []"
    and "us_mkdir us = None" "us_namespace us = None" "us_partition us = None" "us_exists us"
    and "\<not> cc_poisoned_lookup (us_cache us)" "\<not> cc_poisoned_insert (us_cache us)"
    and "readable (cx_text cx) (up_order j)" "readable (cx_text cx) (up_payment j)" "readable (cx_text cx) (up_parcel j)"
    and "read_ok (us_read us)" "read_ok (us_workflow_read us)"
    and "clock_forward (us_first us) s" "append_events cx (us_first us) NoStream (opening_events j) s = (Ok res, s1)"
    and "clock_forward (us_second us) s1"
    and "\<And>w. env_workflow_started_by (hd (res_events res)) = Some w \<Longrightarrow>
      append_events cx (us_second us) (Exact (res_last_version res)) [packed_event j w] s1 = (Ok res2, s2)"
  shows "basic_usage cx us j =
    (Ok (), [''appended versions 1..2'', ''loaded 3 event-stream events'', ''loaded 2 workflow events''])"
proof -
  have policy: "cx\<lparr>cx_rotation := usage_policy\<rparr> = cx" using assms(3) by (cases cx) simp
  obtain e1 e2 where A: "stream_inv cx s1" "unsealed s1" "stream_log cx s1 = Ok [e1, e2]" "res_events res = [e1, e2]"
    "env_workflow_started_by e1 = Some (env_id e1)" "env_workflow_started_by e2 = None"
    "res_first_version res = EventStreamVersion 1" "res_last_version res = EventStreamVersion 2"
    by (rule opening_appended[OF assms(1,4,5,6,13,14,18,19)])
  have run2: "append_events cx (us_second us) (Exact (res_last_version res)) [packed_event j (env_id e1)] s1 = (Ok res2, s2)"
    using assms(21) A(4,5) by simp
  obtain e3 where B: "stream_inv cx s2" "stream_log cx s2 = Ok [e1, e2, e3]" "env_workflow_started_by e3 = Some (env_id e1)"
    by (rule packed_appended[OF assms(1) A(1-3) assms(15,20) run2])
  note R = three_events_read[OF assms(1) B(1,2) _ A(5,6) B(3)]
  have label: "safe_label ''orders''" "safe_label ''order-123''" by code_simp+
  have open_p: "fst (partition_open (cx_path_debug cx) (us_exists us) (us_cache us) (us_opened us) p ns) = Ok s"
    if "pch_stores (en_cache ns) = []" for p ns
    using assms(2,10-12) that
    by (simp add: partition_open_def open_cached_def lookup_cached_def insert_cached_def evict_idle_def Let_def)
  have lines: "fmt_nat (Suc (Suc (Suc 0))) = ''3''" "fmt_nat (Suc (Suc 0)) = ''2''"
    "version_display (EventStreamVersion 1) = ''1''" "version_display (EventStreamVersion 2) = ''2''" by code_simp+
  show ?thesis
    using assms(7-9) label A run2 R(1)[OF assms(16)] R(2)[OF assms(17)] lines assms(19)
    by (simp add: basic_usage_def namespaces_open_def ensure_namespace_def ensure_partition_def validate_safe_label_cases
        open_p policy)
qed

subsection \<open>A run\<close>

definition sample_payloads_of_usage :: "string usage_payloads" where
  "sample_payloads_of_usage = \<lparr>up_order = ''{order}'', up_payment = ''{payment}'', up_parcel = ''{parcel}''\<rparr>"

definition usage_second_append :: "string append_env" where
  "usage_second_append =
     (sample_append 1727884802 (\<lambda>_. None))\<lparr>ae_ids := \<lparr>new_id = (\<lambda>i. ''packed''), trace_id = None, span_id = None\<rparr>\<rparr>"

definition sample_usage :: "string usage_env" where
  "sample_usage =
     \<lparr>us_mkdir = None, us_namespace = None, us_partition = None, us_exists = True,
      us_cache = \<lparr>cc_poisoned_lookup = False, cc_lookup_now = 0, cc_hit_now = 0, cc_poisoned_insert = False,
                  cc_insert_now = 0, cc_stored_now = 0\<rparr>,
      us_opened = Ok sample_stream, us_first = sample_append 1727884801 (\<lambda>_. None), us_second = usage_second_append,
      us_read = quiet_read, us_workflow_read = quiet_read\<rparr>"

text \<open>The stream after the first append, as a value.\<close>

definition usage_stream :: stream where
  "usage_stream =
     sample_stream\<lparr>st_files :=
       [(''events_20241002T16.db'',
         \<lparr>committed =
            \<lparr>migrations_table =
               Some [\<lparr>mr_name = ''001_event_file_schema'', mr_checksum = ''digest-1'', mr_applied_at = 1727884801234\<rparr>],
             tables =
               \<lparr>events_table = Some
                  [\<lparr>ev_id = ''id-0'', ev_type = ''OrderCreated'', ev_payload = ''{order}'', ev_version = 1,
                    ev_created_at = 1727884801234, ev_sequence = 1, ev_workflow_kind = Some ''fulfilment'',
                    ev_workflow_started_by = Some ''id-0'', ev_trace_id = None, ev_span_id = None, ev_request_id = None,
                    ev_actor_id = ''user-example'', ev_actor_type = ''user''\<rparr>,
                   \<lparr>ev_id = ''id-1'', ev_type = ''PaymentAuthorized'', ev_payload = ''{payment}'', ev_version = 2,
                    ev_created_at = 1727884801234, ev_sequence = 2, ev_workflow_kind = None,
                    ev_workflow_started_by = None, ev_trace_id = None, ev_span_id = None, ev_request_id = None,
                    ev_actor_id = ''system-payment'', ev_actor_type = ''system''\<rparr>],
                head_table = Some (Some \<lparr>hd_version = 2, hd_last_event_id = Some ''id-1''\<rparr>)\<rparr>\<rparr>,
          pending = None\<rparr>)]\<rparr>"

lemma usage_first_run:
  "case append_events sample_context (us_first sample_usage) NoStream (opening_events sample_payloads_of_usage) sample_stream of
     (Ok res, s) \<Rightarrow>
       res_last_version res = EventStreamVersion 2 \<and> env_workflow_started_by (hd (res_events res)) = Some ''id-0'' \<and>
       s = usage_stream
   | _ \<Rightarrow> False"
  by code_simp

lemma usage_second_run:
  "is_Ok (fst (append_events sample_context usage_second_append (Exact (EventStreamVersion 2))
     [packed_event sample_payloads_of_usage ''id-0''] usage_stream))"
  by code_simp

theorem basic_usage_output_witness:
  "basic_usage sample_context sample_usage sample_payloads_of_usage =
     (Ok (), [''appended versions 1..2'', ''loaded 3 event-stream events'', ''loaded 2 workflow events''])"
proof -
  let ?j = sample_payloads_of_usage
  obtain res where first: "append_events sample_context (us_first sample_usage) NoStream (opening_events ?j) sample_stream =
      (Ok res, usage_stream)"
    and res: "res_last_version res = EventStreamVersion 2" "env_workflow_started_by (hd (res_events res)) = Some ''id-0''"
    using usage_first_run by (auto split: prod.splits res.splits)
  obtain res2 s2 where second: "append_events sample_context usage_second_append (Exact (EventStreamVersion 2))
      [packed_event ?j ''id-0''] usage_stream = (Ok res2, s2)"
    using usage_second_run by (metis is_Ok.elims(2) prod.collapse)
  have policy: "cx_rotation sample_context = usage_policy" by (simp add: sample_context_def usage_policy_def)
  have readable: "readable (cx_text sample_context) (up_order ?j)" "readable (cx_text sample_context) (up_payment ?j)"
    "readable (cx_text sample_context) (up_parcel ?j)" by code_simp+
  have first_clock: "clock_forward (us_first sample_usage) sample_stream"
    using sample_clock by (simp add: sample_usage_def)
  have second_clock: "clock_forward (us_second sample_usage) usage_stream" by code_simp
  have again: "append_events sample_context (us_second sample_usage) (Exact (res_last_version res)) [packed_event ?j w] usage_stream =
      (Ok res2, s2)" if "env_workflow_started_by (hd (res_events res)) = Some w" for w
    using that res second by (simp add: sample_usage_def)
  show ?thesis
    by (rule basic_usage_output[OF sample_context_ok _ policy sample_stream_facts(1,2) sample_log _ _ _ _ _ _ readable _ _
        first_clock first second_clock again])
      (simp_all add: sample_usage_def quiet_read_ok)
qed

end
