(* ===== verification/DevCli.thy ===== *)
theory DevCli
  imports Prelude
begin

section \<open>The developer tool (\<open>src/application_schema.rs\<close>, \<open>src/bin/events_dev_cli.rs\<close>)\<close>

text \<open>
  The SQL that applications own, as the crate publishes it, and the tool that prints it. A run of
  the tool is a function from its arguments to the exit code and the two output streams. Texts are
  given by their lines.
\<close>

definition joined :: "string list \<Rightarrow> string" where
  "joined lines = concat (map (\<lambda>l. l @ [CHR 0x0A]) (butlast lines)) @ last lines"

definition LAST_PROCESSED_EVENT_SQL :: string where
  "LAST_PROCESSED_EVENT_SQL = joined
     [''CREATE TABLE IF NOT EXISTS last_processed_event ('',
      ''    namespace TEXT NOT NULL,'',
      ''    partition_key TEXT NOT NULL,'',
      ''    last_processed_event_version INTEGER NOT NULL,'',
      ''    updated_at_ms INTEGER NOT NULL,'',
      ''    PRIMARY KEY (namespace, partition_key)'',
      '');'']"

definition WORKFLOW_FAILURES_SQL :: string where
  "WORKFLOW_FAILURES_SQL = joined
     [''CREATE TABLE IF NOT EXISTS workflow_failures ('',
      ''    namespace TEXT NOT NULL,'',
      ''    partition_key TEXT NOT NULL,'',
      ''    workflow_kind TEXT NOT NULL,'',
      ''    workflow_started_by_event_id TEXT NOT NULL,'',
      ''    failed_event_version INTEGER NOT NULL,'',
      ''    error_code TEXT NOT NULL,'',
      ''    error_message TEXT NOT NULL,'',
      ''    is_retriable INTEGER NOT NULL,'',
      ''    failed_at_ms INTEGER NOT NULL,'',
      ''    failure_count INTEGER NOT NULL DEFAULT 1,'',
      ''    reset_at_ms INTEGER,'',
      ''    PRIMARY KEY (namespace, partition_key, workflow_kind, workflow_started_by_event_id)'',
      '');'',
      ''CREATE INDEX IF NOT EXISTS idx_workflow_failures_kind ON workflow_failures(workflow_kind);'',
      ''CREATE INDEX IF NOT EXISTS idx_workflow_failures_retriable ON workflow_failures(is_retriable);'']"

definition APP_SCHEMA_SQL :: string where
  "APP_SCHEMA_SQL = joined
     [''CREATE TABLE IF NOT EXISTS last_processed_event ('',
      ''    namespace TEXT NOT NULL,'',
      ''    partition_key TEXT NOT NULL,'',
      ''    last_processed_event_version INTEGER NOT NULL,'',
      ''    updated_at_ms INTEGER NOT NULL,'',
      ''    PRIMARY KEY (namespace, partition_key)'',
      '');'',
      '''',
      ''CREATE TABLE IF NOT EXISTS workflow_failures ('',
      ''    namespace TEXT NOT NULL,'',
      ''    partition_key TEXT NOT NULL,'',
      ''    workflow_kind TEXT NOT NULL,'',
      ''    workflow_started_by_event_id TEXT NOT NULL,'',
      ''    failed_event_version INTEGER NOT NULL,'',
      ''    error_code TEXT NOT NULL,'',
      ''    error_message TEXT NOT NULL,'',
      ''    is_retriable INTEGER NOT NULL,'',
      ''    failed_at_ms INTEGER NOT NULL,'',
      ''    failure_count INTEGER NOT NULL DEFAULT 1,'',
      ''    reset_at_ms INTEGER,'',
      ''    PRIMARY KEY (namespace, partition_key, workflow_kind, workflow_started_by_event_id)'',
      '');'',
      ''CREATE INDEX IF NOT EXISTS idx_workflow_failures_kind ON workflow_failures(workflow_kind);'',
      ''CREATE INDEX IF NOT EXISTS idx_workflow_failures_retriable ON workflow_failures(is_retriable);'']"

definition help_text :: string where
  "help_text = joined
     [''events_dev_cli'',
      '''',
      ''USAGE:'',
      ''    events_dev_cli schema app'',
      ''    events_dev_cli schema app --table last-processed-event'',
      ''    events_dev_cli schema app --table workflow-failures'',
      '''',
      ''COMMANDS:'',
      ''    schema app    Print example application-owned SQL for event handlers'']"

record cli_run =
  cr_exit :: nat
  cr_stdout :: string
  cr_stderr :: string

definition println :: "string \<Rightarrow> string" where
  "println s = s @ [CHR 0x0A]"

definition succeeds_with :: "string \<Rightarrow> cli_run" where
  "succeeds_with s = \<lparr>cr_exit = 0, cr_stdout = println s, cr_stderr = []\<rparr>"

text \<open>A usage error: the message and an empty line on stderr, the help on stdout, exit code 2.\<close>

definition usage_error :: "string \<Rightarrow> cli_run" where
  "usage_error msg = \<lparr>cr_exit = 2, cr_stdout = println help_text, cr_stderr = println (println msg)\<rparr>"

definition print_app_table :: "string \<Rightarrow> cli_run" where
  "print_app_table table =
     (if table = ''last-processed-event'' \<or> table = ''last_processed_event'' then succeeds_with LAST_PROCESSED_EVENT_SQL
      else if table = ''workflow-failures'' \<or> table = ''workflow_failures'' then succeeds_with WORKFLOW_FAILURES_SQL
      else usage_error (''unknown app schema table: '' @ table))"

text \<open>The arguments after the program's name, matched as the slice patterns do.\<close>

fun dev_cli :: "string list \<Rightarrow> cli_run" where
  "dev_cli [] = succeeds_with help_text"
| "dev_cli [flag] =
     (if flag = ''-h'' \<or> flag = ''--help'' then succeeds_with help_text else usage_error ''unknown command'')"
| "dev_cli [cmd, target] =
     (if cmd = ''schema'' \<and> target = ''app'' then succeeds_with APP_SCHEMA_SQL else usage_error ''unknown command'')"
| "dev_cli [cmd, target, opt, table] =
     (if cmd = ''schema'' \<and> target = ''app'' \<and> opt = ''--table'' then print_app_table table
      else usage_error ''unknown command'')"
| "dev_cli args = usage_error ''unknown command''"

text \<open>
  The whole application schema is its tables. What \<open>schema app\<close> prints is what the two
  \<open>--table\<close> commands print, with an empty line between, in either spelling of the table names:
  the three SQL constants, which the source writes out separately, agree.
\<close>

theorem schema_app_is_both_tables:
  "cr_stdout (dev_cli [''schema'', ''app'']) =
     cr_stdout (dev_cli [''schema'', ''app'', ''--table'', ''last-processed-event'']) @ [CHR 0x0A] @
     cr_stdout (dev_cli [''schema'', ''app'', ''--table'', ''workflow-failures'']) \<and>
   dev_cli [''schema'', ''app'', ''--table'', ''last_processed_event''] =
     dev_cli [''schema'', ''app'', ''--table'', ''last-processed-event''] \<and>
   dev_cli [''schema'', ''app'', ''--table'', ''workflow_failures''] =
     dev_cli [''schema'', ''app'', ''--table'', ''workflow-failures'']"
  by (simp add: print_app_table_def succeeds_with_def println_def APP_SCHEMA_SQL_def LAST_PROCESSED_EVENT_SQL_def
      WORKFLOW_FAILURES_SQL_def joined_def)

lemma dev_cli_exit: "cr_exit (dev_cli args) \<in> {0, 2}"
  by (cases args rule: dev_cli.cases) (auto simp: print_app_table_def succeeds_with_def usage_error_def)

end
