(* ===== verification/Spec2Isabelle.thy ===== *)
theory Spec2Isabelle
  imports Actor Labels TimeCrate RotationLaws Catalog EventTypes MigrationRun StreamHistory StreamLiveness CatalogRebuild
    StreamTasks StreamFindings Notifications Pool Partitions Runtime WorkerSystemLaws BasicUsage DevCli
begin

text \<open>
  The crate \<open>events\<close>: append-only event streams in SQLite files, one directory per partition, with
  progress notifications beside them. This theory imports the development and describes it; the
  definitions and properties are in the theories it names.

  The program. An application opens \<open>EventNamespaces\<close> (\<open>src/partitions.rs\<close>) on a root directory, asks
  for a namespace and a partition, and gets an \<open>EventStream\<close> (\<open>src/event_stream.rs\<close>), which a cache
  keeps open. The stream's directory holds a catalog database and event files named by time window
  (\<open>src/rotation.rs\<close>); the catalog (\<open>src/catalog.rs\<close>) says which versions each file holds. An append
  rotates to a new file when the window or the size limit says so, then inserts its events in one
  transaction on the active file. Reads ask the catalog for the files past a cursor. Schemas are
  created by migrations (\<open>src/migration.rs\<close>); connections come from a pool (\<open>src/pool.rs\<close>). Progress
  events of requests go through two channels (\<open>src/broadcast.rs\<close>) and into a table with expiry
  (\<open>src/notifications_store.rs\<close>). \<open>src/runtime.rs\<close> wires these together; the two examples and the
  developer tool are clients.

  Theories and code.
  \<^item> \<open>Prelude\<close>: the result type \<open>res\<close> (\<open>Ok\<close>, \<open>Err\<close>, \<open>Panic\<close>), its two binds, wrapping \<open>i64\<close> and decimal
    formatting, and the rewriting collection \<open>res_simps\<close>, the locale \<open>codec\<close> of round trips. \<open>Errors\<close>, \<open>Actor\<close>, \<open>Labels\<close>: \<open>error.rs\<close>,
    \<open>actor.rs\<close> and the label check of \<open>event_stream.rs\<close>.
  \<^item> \<open>Sql\<close>: what the code uses of the database: a table state with one open transaction (\<open>db\<close>),
    columns, keyed tables (the locale \<open>keyed_table\<close>, interpreted on the catalog's and the
    notifications' tables) and faults, functions from the calls of an operation to the error each
    reports, if any.
  \<^item> \<open>TimeCrate\<close>, \<open>Rotation\<close>, \<open>RotationLaws\<close>: the time crate as a record of functions with the laws it
    documents and the proleptic Gregorian calendar as an instance; windows, names, their parser.
  \<^item> \<open>MigrationRun\<close>, \<open>Catalog\<close>: the migration runner and the catalog's operations.
  \<^item> \<open>EventTypes\<close>, \<open>EventFile\<close>, \<open>EventFileLaws\<close>: envelopes, checks and rows; the tables of one event file
    and the append transaction, statement by statement.
  \<^item> \<open>EventStream\<close>, \<open>StreamOpen\<close>: append, rotation, reads; opening, discovery and the rebuild of the
    catalog. A \<open>stream\<close> is the catalog, the files by name and the active partition of
    \<open>EventStreamInner\<close>; a \<open>disk\<close> is what a stopped process leaves.
  \<^item> \<open>Pool\<close>, \<open>Partitions\<close>, \<open>Notifications\<close>, \<open>Broadcast\<close>, \<open>Runtime\<close>: the files of these names.
  \<^item> \<open>WorkerPool\<close>, \<open>WorkerSystem\<close>, \<open>WorkerSystemLaws\<close>: \<open>examples/partition_worker_pool.rs\<close>, its parts and
    the program they make up, as the steps of concurrent tasks. \<open>BasicUsage\<close>, \<open>DevCli\<close>:
    \<open>examples/basic_usage.rs\<close>, \<open>application_schema.rs\<close> and the developer tool.

  What is shown.
  \<^item> The contract of a stream is its log: \<open>stream_log\<close>, the decoded rows of the event files in the order
    of the catalog, under \<open>stream_inv\<close> (\<open>EventStreamLaws\<close>, \<open>RotationSafety\<close>, \<open>StreamSafety\<close>). Appends
    extend it or leave it (\<open>StreamProperties\<close>), succeed when nothing fails (\<open>StreamLiveness\<close>), reads
    are its slices (\<open>StreamReads\<close>), a rotation at a clock not behind the active window keeps it and
    the rotation loop ends (\<open>StreamReach\<close>), restarts and recoveries keep it, and in every history
    of \<open>reachable\<close> it is what was acknowledged (\<open>StreamHistory\<close>, on \<open>StreamOpenLaws\<close>). A failed append
    commits nothing, also when its \<open>ROLLBACK\<close> fails. A failed rotation is recovered by the next start
    unless it left a file without append head, and then no start opens the store (\<open>HalfCreated\<close>).
    \<open>CatalogRebuild\<close>: a rebuild from the event files gives the catalog's ranges back.
  \<^item> These hold for one handle on a directory, clocks that do not fall behind the active window,
    windows that start on a label, opens without a fault, and a restart after a failed \<open>ROLLBACK\<close> or
    a panic; \<open>reachable\<close> spells the conditions out.
  \<^item> Tasks share a stream: \<open>StreamTasks\<close> splits an append into its locked sections, proves that alone
    they are the append, and that in every interleaving of \<open>concurrently\<close>, which asks the same of
    every section, the log is what was committed.
  \<^item> \<open>StreamFindings\<close> proves what the code does outside these conditions, with \<open>StaleRotation\<close>, the
    lemmas about a rotation that reaches an existing file: a second handle on one partition, a
    rotation back in time, a process killed while it creates a file, a transaction on a sealed
    file. Each shows a defect of the code.
  \<^item> The pool never hands out a connection twice and evicts the least recently used idle databases;
    the store cache stays bounded; partitions do not share paths; the notifications table refines a
    map, and its maintenance is invisible to later lookups; subscribers get events in order; the
    worker pool loses no signal, and its whole program (\<open>WorkerSystemLaws\<close>) ends in every
    interleaving, without deadlock, with each order projected once. \<open>WorkerPool\<close> states what a worker needs of
    a stream as the locale \<open>ordered_log\<close>, interpreted on \<open>EventStream\<close>'s reads.
  \<^item> Names of event files parse back to, and sort by, the start of their label and their ordinal, which
    for windows that are a multiple of the label are the window's; stored rows decode to what was stored;
    migrations are idempotent and refuse edited ones; the parser of names can panic.

  Conventions. Strings are lists of bytes. Integers of the code are \<open>int\<close> with \<open>wrap64\<close> where an \<open>i64\<close>
  can overflow, \<open>nat\<close> where a value is unsigned and only compared or counted. A call that may fail
  takes its fault from the environment, so every error path is a branch; a Rust panic is the
  result \<open>Panic\<close>. Everything outside the repository is a parameter with its documented laws as named
  hypotheses: the texts of database errors (\<open>turso_msgs\<close>), JSON and UUIDs (\<open>text_crates\<close>,
  \<open>json_crate\<close>), the time crate, the SHA-256 digest, tokio's channels (\<open>mpsc_law\<close>, \<open>broadcast_law\<close>).
  Clocks, generated ids, file sizes and directory listings are read from environment records.

  Bounds and fuel. The rotation loop has no fuel: its measure is whether the active partition is in
  the window of the clock. \<open>run_loop\<close> and \<open>drain_loop\<close> take fuel and return \<open>None\<close> without enough; the
  theorems show that one turn per waiting event (and one more), respectively one round per event past
  the cursor (and one more), suffice. Versions are assumed to fit: \<open>in_i64 (log_end cx s + 1)\<close>.

  Not modelled: logging, the text of SQL statements beyond their effect, the file system below
  names and listings, the locking of SQLite between processes (a connection left in a
  transaction is modelled by \<open>pending\<close>), memory limits, serde's derived encodings of the public
  types, and \<open>lib.rs\<close>, which only re-exports. \<open>concurrently\<close> leaves out sections that panic.
\<close>

end
